(* ===== verification/Prelude.thy ===== *)
theory Prelude
  imports Main "HOL-Library.Word"
begin

text \<open>
  Shared vocabulary of the development: the collections of simplification rules, the
  result type of a kernel routine with its sequencing combinators, and the generic
  facts about lists and words that several components use.
\<close>

unbundle bit_operations_syntax

section \<open>Types shared by every component\<close>

type_synonym u32 = "32 word"
type_synonym u8 = "8 word"

named_theorems run_simps "how the combinators run on a state"
named_theorems frame_simps "which fields an operation leaves alone"

section \<open>Results of a routine\<close>

text \<open>
  A C routine either returns a value and a state, or it stops: the C control flow never
  comes back from it. The reasons to stop are a parameter here; \<open>Machine\<close> fixes them.
\<close>

datatype ('w, 'a, 's) out = Ret (out_val: 'a) (out_st: 's) | Stop (out_why: 'w) (out_st: 's)

definition kreturn :: "'a \<Rightarrow> 's \<Rightarrow> ('w, 'a, 's) out" where
  "kreturn a = (\<lambda>s. Ret a s)"

definition kstop :: "'w \<Rightarrow> 's \<Rightarrow> ('w, 'a, 's) out" where
  "kstop w = (\<lambda>s. Stop w s)"

definition kmodify :: "('s \<Rightarrow> 's) \<Rightarrow> 's \<Rightarrow> ('w, unit, 's) out" where
  "kmodify f = (\<lambda>s. Ret () (f s))"

definition kread :: "('s \<Rightarrow> 's \<Rightarrow> ('w, 'a, 's) out) \<Rightarrow> 's \<Rightarrow> ('w, 'a, 's) out" where
  "kread m = (\<lambda>s. m s s)"

definition kbind ::
  "('s \<Rightarrow> ('w, 'a, 's) out) \<Rightarrow> ('a \<Rightarrow> 's \<Rightarrow> ('w, 'b, 's) out) \<Rightarrow> 's \<Rightarrow> ('w, 'b, 's) out" where
  "kbind m f = (\<lambda>s. case m s of Ret a s' \<Rightarrow> f a s' | Stop w s' \<Rightarrow> Stop w s')"

definition kseq ::
  "('s \<Rightarrow> ('w, 'a, 's) out) \<Rightarrow> ('s \<Rightarrow> ('w, 'b, 's) out) \<Rightarrow> 's \<Rightarrow> ('w, 'b, 's) out" where
  "kseq m n = kbind m (\<lambda>_. n)"

lemma kreturn_run [run_simps]: "kreturn a s = Ret a s"
  by (simp add: kreturn_def)

lemma kstop_run [run_simps]: "kstop w s = Stop w s"
  by (simp add: kstop_def)

lemma kmodify_run [run_simps]: "kmodify f s = Ret () (f s)"
  by (simp add: kmodify_def)

lemma kread_run [run_simps]: "kread m s = m s s"
  by (simp add: kread_def)

lemma kbind_Ret [run_simps]: "m s = Ret a s' \<Longrightarrow> kbind m f s = f a s'"
  by (simp add: kbind_def)

lemma kbind_Stop [run_simps]: "m s = Stop w s' \<Longrightarrow> kbind m f s = Stop w s'"
  by (simp add: kbind_def)

lemma kseq_Ret [run_simps]: "m s = Ret a s' \<Longrightarrow> kseq m n s = n s'"
  by (simp add: kseq_def kbind_def)

lemma kseq_Stop [run_simps]: "m s = Stop w s' \<Longrightarrow> kseq m n s = Stop w s'"
  by (simp add: kseq_def kbind_def)

section \<open>Lists\<close>

text \<open>The first result of a list of attempts: the meaning of a search loop.\<close>

fun first_some :: "('a \<Rightarrow> 'b option) \<Rightarrow> 'a list \<Rightarrow> 'b option" where
  "first_some f [] = None"
| "first_some f (x # xs) = (case f x of None \<Rightarrow> first_some f xs | Some b \<Rightarrow> Some b)"

lemma first_some_None_iff: "first_some f xs = None \<longleftrightarrow> (\<forall>x\<in>set xs. f x = None)"
  by (induction xs) (auto split: option.splits)

lemma first_some_unique:
  assumes "x \<in> set xs" and "f x = Some b" and "\<And>y. y \<in> set xs \<Longrightarrow> y \<noteq> x \<Longrightarrow> f y = None"
  shows "first_some f xs = Some b"
  using assms
proof (induction xs)
  case (Cons y ys)
  then show ?case by (cases "y = x") auto
qed simp

lemma first_some_map: "first_some f (map g xs) = first_some (f \<circ> g) xs"
  by (induction xs) (auto split: option.splits)

lemma first_some_cong:
  "(\<And>x. x \<in> set xs \<Longrightarrow> f x = g x) \<Longrightarrow> first_some f xs = first_some g xs"
  by (induction xs) (auto split: option.splits)

lemma remove1_map_inj:
  "inj f \<Longrightarrow> remove1 (f x) (map f xs) = map f (remove1 x xs)"
  by (induction xs) (auto dest: injD)

lemma split_at_elem:
  assumes "distinct xs" and "x \<in> set xs"
  obtains ys zs where "xs = ys @ x # zs" and "x \<notin> set ys" and "x \<notin> set zs"
    and "remove1 x xs = ys @ zs"
proof -
  obtain ys zs where "xs = ys @ x # zs"
    using assms(2) by (meson split_list)
  with assms(1) have "x \<notin> set ys" "x \<notin> set zs" "remove1 x xs = ys @ zs"
    by (auto simp: remove1_append)
  with \<open>xs = ys @ x # zs\<close> that show ?thesis by blast
qed

end
