(* ===== verification/Listx.thy ===== *)
theory Listx
  imports Prelude
begin

text \<open>
  \<open>src/listx.h\<close>: the circular doubly linked intrusive lists on which every queue of the
  kernel is built. A \<open>list_head\<close> is named by the object and field that hold it; the heap
  gives each its two pointers. The ghost map \<open>L\<close> of \<open>lists_rep\<close> says which heads hold
  which nodes, and each operation of the file is shown to act on it as on plain lists.
\<close>

section \<open>References and the heap\<close>

text \<open>
  The places of the program that hold a \<open>struct list_head\<close>: the three fields of the
  \<open>i\<close>-th PCB, the two fields of the \<open>i\<close>-th semaphore descriptor, the file-scope heads
  of \<open>pcb.c\<close>, \<open>asl.c\<close> and \<open>scheduler.c\<close>, and list heads held in local variables.
\<close>

datatype lref =
    PList nat | PChild nat | PSib nat
  | SLink nat | SProcq nat
  | PcbFreeH | SemdFree | SemdH | LQueue | HQueue
  | LocalHead nat
  | NullRef

record heap =
  nxt :: "lref \<Rightarrow> lref"
  prv :: "lref \<Rightarrow> lref"

definition set_nxt :: "lref \<Rightarrow> lref \<Rightarrow> heap \<Rightarrow> heap" where
  "set_nxt a b hp = hp\<lparr>nxt := (nxt hp)(a := b)\<rparr>"

definition set_prv :: "lref \<Rightarrow> lref \<Rightarrow> heap \<Rightarrow> heap" where
  "set_prv a b hp = hp\<lparr>prv := (prv hp)(a := b)\<rparr>"

lemma set_nxt_sel [simp]:
  "nxt (set_nxt a b hp) = (nxt hp)(a := b)" "prv (set_nxt a b hp) = prv hp"
  by (simp_all add: set_nxt_def)

lemma set_prv_sel [simp]:
  "nxt (set_prv a b hp) = nxt hp" "prv (set_prv a b hp) = (prv hp)(a := b)"
  by (simp_all add: set_prv_def)

section \<open>The operations of listx.h\<close>

definition INIT_LIST_HEAD :: "lref \<Rightarrow> heap \<Rightarrow> heap" where
  "INIT_LIST_HEAD list hp = set_prv list list (set_nxt list list hp)"

definition raw_list_add :: "lref \<Rightarrow> lref \<Rightarrow> lref \<Rightarrow> heap \<Rightarrow> heap" where
  "raw_list_add new prev next hp =
     (let hp1 = set_prv next new hp;
          hp2 = set_nxt new next hp1;
          hp3 = set_prv new prev hp2
      in set_nxt prev new hp3)"

definition list_add :: "lref \<Rightarrow> lref \<Rightarrow> heap \<Rightarrow> heap" where
  "list_add new head hp = raw_list_add new head (nxt hp head) hp"

definition list_add_tail :: "lref \<Rightarrow> lref \<Rightarrow> heap \<Rightarrow> heap" where
  "list_add_tail new head hp = raw_list_add new (prv hp head) head hp"

definition raw_list_del :: "lref \<Rightarrow> lref \<Rightarrow> heap \<Rightarrow> heap" where
  "raw_list_del prev next hp = set_nxt prev next (set_prv next prev hp)"

definition list_del :: "lref \<Rightarrow> heap \<Rightarrow> heap" where
  "list_del entry hp = raw_list_del (prv hp entry) (nxt hp entry) hp"

definition list_is_last :: "lref \<Rightarrow> lref \<Rightarrow> heap \<Rightarrow> bool" where
  "list_is_last list head hp \<longleftrightarrow> nxt hp list = head"

definition list_empty :: "lref \<Rightarrow> heap \<Rightarrow> bool" where
  "list_empty head hp \<longleftrightarrow> nxt hp head = head"

definition list_next :: "lref \<Rightarrow> heap \<Rightarrow> lref" where
  "list_next current hp = (if list_empty current hp then NullRef else nxt hp current)"

definition list_prev :: "lref \<Rightarrow> heap \<Rightarrow> lref" where
  "list_prev current hp = (if list_empty current hp then NullRef else prv hp current)"

text \<open>
  \<open>list_for_each\<close> and \<open>list_for_each_prev\<close> with a body that either falls through
  (\<open>None\<close>) or leaves the loop with a result (\<open>Some\<close>); \<open>pos\<close> is the iterator. The loop
  may run forever on a heap that is not a list of \<open>head\<close>: then the value is \<open>None\<close>.
\<close>

partial_function (option) list_for_each ::
  "(lref \<Rightarrow> lref) \<Rightarrow> (lref \<Rightarrow> 'b option) \<Rightarrow> lref \<Rightarrow> lref \<Rightarrow> 'b option option" where
  "list_for_each step body head pos =
     (if pos = head then Some None
      else (case body pos of
              Some b \<Rightarrow> Some (Some b)
            | None \<Rightarrow> list_for_each step body head (step pos)))"

definition for_each :: "heap \<Rightarrow> lref \<Rightarrow> (lref \<Rightarrow> 'b option) \<Rightarrow> 'b option option" where
  "for_each hp head body = list_for_each (nxt hp) body head (nxt hp head)"

definition for_each_prev :: "heap \<Rightarrow> lref \<Rightarrow> (lref \<Rightarrow> 'b option) \<Rightarrow> 'b option option" where
  "for_each_prev hp head body = list_for_each (prv hp) body head (prv hp head)"

section \<open>Rings\<close>

text \<open>\<open>chain hp a xs z\<close>: following \<open>next\<close> from \<open>a\<close> visits \<open>xs\<close> and then \<open>z\<close>, and
  the \<open>prev\<close> pointers lead back.\<close>

fun chain :: "heap \<Rightarrow> lref \<Rightarrow> lref list \<Rightarrow> lref \<Rightarrow> bool" where
  "chain hp a [] z \<longleftrightarrow> nxt hp a = z \<and> prv hp z = a"
| "chain hp a (x # xs) z \<longleftrightarrow> nxt hp a = x \<and> prv hp x = a \<and> chain hp x xs z"

definition ring :: "heap \<Rightarrow> lref \<Rightarrow> lref list \<Rightarrow> bool" where
  "ring hp h xs \<longleftrightarrow> distinct (h # xs) \<and> chain hp h xs h"

lemma chain_append [simp]:
  "chain hp a (xs @ y # ys) z \<longleftrightarrow> chain hp a xs y \<and> chain hp y ys z"
  by (induction xs arbitrary: a) auto

lemma chain_set_nxt [simp]:
  "u \<notin> set (a # xs) \<Longrightarrow> chain (set_nxt u v hp) a xs z = chain hp a xs z"
  by (induction xs arbitrary: a) auto

lemma chain_set_prv [simp]:
  "u \<notin> set xs \<Longrightarrow> u \<noteq> z \<Longrightarrow> chain (set_prv u v hp) a xs z = chain hp a xs z"
  by (induction xs arbitrary: a) auto

lemma chain_last: "chain hp a xs z \<Longrightarrow> prv hp z = last (a # xs)"
  by (induction xs arbitrary: a) auto

lemma chain_first: "chain hp a xs z \<Longrightarrow> nxt hp a = hd (xs @ [z])"
  by (cases xs) auto

lemma ring_nxt: "ring hp h xs \<Longrightarrow> nxt hp h = hd (xs @ [h])"
  by (simp add: ring_def chain_first)

lemma ring_prv: "ring hp h xs \<Longrightarrow> prv hp h = last (h # xs)"
  unfolding ring_def using chain_last by blast

lemma ring_empty_iff: "ring hp h xs \<Longrightarrow> list_empty h hp \<longleftrightarrow> xs = []"
  by (cases xs) (auto simp: ring_def list_empty_def)

lemma ring_mem:
  assumes "ring hp h xs" and "x \<in> set xs"
  obtains ys zs where "xs = ys @ x # zs" and "prv hp x = last (h # ys)"
    and "nxt hp x = hd (zs @ [h])" and "remove1 x xs = ys @ zs"
proof -
  have "distinct xs" using assms(1) by (simp add: ring_def)
  then obtain ys zs where s: "xs = ys @ x # zs" "remove1 x xs = ys @ zs"
    using assms(2) by (metis split_at_elem)
  with assms(1) have "chain hp h ys x" "chain hp x zs h"
    by (simp_all add: ring_def)
  then show ?thesis using s that chain_last chain_first by blast
qed

lemma ring_frame:
  assumes "ring hp h xs" and "u \<notin> set (h # xs)"
  shows "ring (set_nxt u v hp) h xs" and "ring (set_prv u v hp) h xs"
  using assms by (auto simp: ring_def)

section \<open>Searching a ring\<close>

lemma list_for_each_chain:
  assumes "chain hp a xs h" and "h \<notin> set xs"
  shows "list_for_each (nxt hp) body h (nxt hp a) = Some (first_some body xs)"
  using assms
proof (induction xs arbitrary: a)
  case Nil
  then show ?case by (simp add: list_for_each.simps)
next
  case (Cons x xs)
  then have "nxt hp a = x" "x \<noteq> h" "chain hp x xs h" "h \<notin> set xs" by auto
  then show ?case using Cons.IH[of x]
    by (subst list_for_each.simps) (auto split: option.split)
qed

lemma for_each_ring:
  "ring hp h xs \<Longrightarrow> for_each hp h body = Some (first_some body xs)"
  by (simp add: ring_def for_each_def list_for_each_chain)

lemma list_for_each_chain_prev:
  assumes "chain hp h xs z" and "h \<notin> set xs"
  shows "list_for_each (prv hp) body h (prv hp z) = Some (first_some body (rev xs))"
  using assms
proof (induction xs arbitrary: z rule: rev_induct)
  case Nil
  then show ?case by (simp add: list_for_each.simps)
next
  case (snoc x xs)
  then have "prv hp z = x" "x \<noteq> h" "chain hp h xs x" "h \<notin> set xs" by auto
  then show ?case using snoc.IH[of x]
    by (subst list_for_each.simps) (auto split: option.split)
qed

lemma for_each_prev_ring:
  "ring hp h xs \<Longrightarrow> for_each_prev hp h body = Some (first_some body (rev xs))"
  by (simp add: ring_def for_each_prev_def list_for_each_chain_prev)

section \<open>One ring under the operations\<close>

lemma ring_raw_add:
  assumes r: "ring hp h (xs @ ys)" and n: "n \<notin> set (h # xs @ ys)"
  shows "ring (raw_list_add n (last (h # xs)) (hd (ys @ [h])) hp) h (xs @ n # ys)"
proof (cases xs rule: rev_cases)
  case Nil
  with r n show ?thesis
    by (cases ys) (auto simp: ring_def raw_list_add_def Let_def)
next
  case (snoc us u)
  with r n show ?thesis
    by (cases ys) (auto simp: ring_def raw_list_add_def Let_def)
qed

lemma ring_raw_add_frame:
  assumes "ring hp k zs" and "n \<notin> set (k # zs)" and "p \<notin> set (k # zs)" and "q \<notin> set (k # zs)"
  shows "ring (raw_list_add n p q hp) k zs"
  using assms by (simp add: raw_list_add_def Let_def ring_frame)

lemma ring_raw_del:
  assumes "ring hp h (ys @ x # zs)"
  shows "ring (raw_list_del (last (h # ys)) (hd (zs @ [h])) hp) h (ys @ zs)"
proof (cases ys rule: rev_cases)
  case Nil
  with assms show ?thesis
    by (cases zs) (auto simp: ring_def raw_list_del_def)
next
  case (snoc us u)
  with assms show ?thesis
    by (cases zs) (auto simp: ring_def raw_list_del_def)
qed

lemma ring_raw_del_frame:
  assumes "ring hp k zs" and "p \<notin> set (k # zs)" and "q \<notin> set (k # zs)"
  shows "ring (raw_list_del p q hp) k zs"
  using assms by (simp add: raw_list_del_def ring_frame)

section \<open>All the lists of the heap at once\<close>

type_synonym lmap = "lref \<Rightarrow> lref list option"

definition lists_rep :: "heap \<Rightarrow> lmap \<Rightarrow> bool" where
  "lists_rep hp L \<longleftrightarrow>
     (\<forall>h xs. L h = Some xs \<longrightarrow> ring hp h xs) \<and>
     (\<forall>h xs k ys. L h = Some xs \<longrightarrow> L k = Some ys \<longrightarrow> h \<noteq> k \<longrightarrow> set (h # xs) \<inter> set (k # ys) = {})"

text \<open>A node that is a member of no list, and not the head of a nonempty one.\<close>

definition unlinked :: "('n \<Rightarrow> 'n list option) \<Rightarrow> 'n \<Rightarrow> bool" where
  "unlinked L n \<longleftrightarrow> (\<forall>h xs. L h = Some xs \<longrightarrow> n \<notin> set xs) \<and> (\<forall>xs. L n = Some xs \<longrightarrow> xs = [])"

lemma lists_rep_ring: "lists_rep hp L \<Longrightarrow> L h = Some xs \<Longrightarrow> ring hp h xs"
  by (simp add: lists_rep_def)

lemma lists_rep_disjoint:
  "lists_rep hp L \<Longrightarrow> L h = Some xs \<Longrightarrow> L k = Some ys \<Longrightarrow> h \<noteq> k \<Longrightarrow> set (h # xs) \<inter> set (k # ys) = {}"
  unfolding lists_rep_def by blast

lemma lists_repI:
  assumes "\<And>h xs. L h = Some xs \<Longrightarrow> ring hp h xs"
    and "\<And>h xs k ys. L h = Some xs \<Longrightarrow> L k = Some ys \<Longrightarrow> h \<noteq> k \<Longrightarrow> set (h # xs) \<inter> set (k # ys) = {}"
  shows "lists_rep hp L"
  using assms unfolding lists_rep_def by blast

text \<open>Forgetting lists is always allowed.\<close>

lemma lists_rep_submap: "lists_rep hp L \<Longrightarrow> L' \<subseteq>\<^sub>m L \<Longrightarrow> lists_rep hp L'"
  unfolding lists_rep_def map_le_def by (metis domI)

lemma lists_rep_init:
  assumes "lists_rep hp L" and u: "unlinked L n"
  shows "lists_rep (INIT_LIST_HEAD n hp) (L(n := Some []))"
proof (rule lists_repI)
  fix h xs assume h: "(L(n := Some [])) h = Some xs"
  show "ring (INIT_LIST_HEAD n hp) h xs"
  proof (cases "h = n")
    case True
    with h show ?thesis by (simp add: ring_def INIT_LIST_HEAD_def)
  next
    case False
    with h u have "n \<notin> set (h # xs)" "L h = Some xs" by (auto simp: unlinked_def)
    then show ?thesis using lists_rep_ring[OF assms(1)]
      by (simp add: INIT_LIST_HEAD_def ring_frame)
  qed
next
  fix h xs k ys
  assume "(L(n := Some [])) h = Some xs" "(L(n := Some [])) k = Some ys" "h \<noteq> k"
  then show "set (h # xs) \<inter> set (k # ys) = {}"
    using u lists_rep_disjoint[OF assms(1), of h xs k ys]
    by (cases "h = n"; cases "k = n") (auto simp: unlinked_def)
qed

lemma lists_rep_raw_add:
  assumes rep: "lists_rep hp L" and h: "L h = Some (xs @ ys)" and u: "unlinked L n" and ne: "n \<noteq> h"
  shows "lists_rep (raw_list_add n (last (h # xs)) (hd (ys @ [h])) hp) (L(n := None, h := Some (xs @ n # ys)))"
    (is "lists_rep ?hp' ?L'")
proof (rule lists_repI)
  have "n \<notin> set (xs @ ys)" using h u unfolding unlinked_def by blast
  with ne have fresh: "n \<notin> set (h # xs @ ys)" by simp
  have ends: "last (h # xs) \<in> set (h # xs @ ys)" "hd (ys @ [h]) \<in> set (h # xs @ ys)"
    by (auto, cases ys, auto)
  fix k zs assume k: "?L' k = Some zs"
  show "ring ?hp' k zs"
  proof (cases "k = h")
    case True
    with k show ?thesis using ring_raw_add[OF lists_rep_ring[OF rep h] fresh] by simp
  next
    case False
    with k have k': "L k = Some zs" "k \<noteq> n" by (auto split: if_splits)
    then have "n \<notin> set (k # zs)" using u by (auto simp: unlinked_def)
    moreover have "set (h # xs @ ys) \<inter> set (k # zs) = {}"
      using lists_rep_disjoint[OF rep h k'(1)] False by simp
    ultimately show ?thesis using ends
      by (intro ring_raw_add_frame lists_rep_ring[OF rep k'(1)]) blast+
  qed
next
  fix k zs k2 zs2
  assume k: "?L' k = Some zs" "?L' k2 = Some zs2" "k \<noteq> k2"
  have mem: "\<And>k zs. L k = Some zs \<Longrightarrow> k \<noteq> n \<Longrightarrow> n \<notin> set (k # zs)" using u by (auto simp: unlinked_def)
  show "set (k # zs) \<inter> set (k2 # zs2) = {}"
  proof (cases "k = h")
    case True
    with k have "L k2 = Some zs2" "k2 \<noteq> n" "zs = xs @ n # ys" by (auto split: if_splits)
    then show ?thesis using lists_rep_disjoint[OF rep h, of k2 zs2] mem True k(3) by auto
  next
    case False
    with k have 1: "L k = Some zs" "k \<noteq> n" by (auto split: if_splits)
    show ?thesis
    proof (cases "k2 = h")
      case True
      then show ?thesis using lists_rep_disjoint[OF rep 1(1) h] mem[OF 1] k by auto
    next
      case False
      with k have "L k2 = Some zs2" by (auto split: if_splits)
      then show ?thesis using lists_rep_disjoint[OF rep 1(1)] k(3) by blast
    qed
  qed
qed

lemma lists_rep_add:
  assumes "lists_rep hp L" and "L h = Some xs" and "unlinked L n" and "n \<noteq> h"
  shows "lists_rep (list_add n h hp) (L(n := None, h := Some (n # xs)))"
  using lists_rep_raw_add[of hp L h "[]" xs n] assms ring_nxt[OF lists_rep_ring[OF assms(1,2)]]
  by (simp add: list_add_def)

lemma lists_rep_add_tail:
  assumes "lists_rep hp L" and "L h = Some xs" and "unlinked L n" and "n \<noteq> h"
  shows "lists_rep (list_add_tail n h hp) (L(n := None, h := Some (xs @ [n])))"
  using lists_rep_raw_add[of hp L h xs "[]" n] assms ring_prv[OF lists_rep_ring[OF assms(1,2)]]
  by (simp add: list_add_tail_def)

lemma lists_rep_del:
  assumes rep: "lists_rep hp L" and h: "L h = Some xs" and n: "n \<in> set xs"
  shows "lists_rep (list_del n hp) (L(h := Some (remove1 n xs)))"
proof -
  have r: "ring hp h xs" using rep h by (rule lists_rep_ring)
  obtain ys zs where s: "xs = ys @ n # zs" "remove1 n xs = ys @ zs"
    and del: "list_del n hp = raw_list_del (last (h # ys)) (hd (zs @ [h])) hp"
    using ring_mem[OF r n] unfolding list_del_def by metis
  have ends: "last (h # ys) \<in> set (h # xs)" "hd (zs @ [h]) \<in> set (h # xs)"
    unfolding s by (auto, cases zs, auto)
  show ?thesis
  proof (rule lists_repI)
    fix k ws assume k: "(L(h := Some (remove1 n xs))) k = Some ws"
    show "ring (list_del n hp) k ws"
    proof (cases "k = h")
      case True
      with k s r show ?thesis unfolding del using ring_raw_del by fastforce
    next
      case False
      with k have "L k = Some ws" by simp
      then have "ring hp k ws" "set (h # xs) \<inter> set (k # ws) = {}"
        using lists_rep_ring[OF rep] lists_rep_disjoint[OF rep h] False by auto
      then show ?thesis unfolding del using ends by (intro ring_raw_del_frame) blast+
    qed
  next
    fix k ws k2 ws2
    assume "(L(h := Some (remove1 n xs))) k = Some ws" "(L(h := Some (remove1 n xs))) k2 = Some ws2" "k \<noteq> k2"
    then show "set (k # ws) \<inter> set (k2 # ws2) = {}"
      using lists_rep_disjoint[OF rep h] lists_rep_disjoint[OF rep, of k ws k2 ws2]
        lists_rep_disjoint[OF rep _ h] set_remove1_subset[of n xs]
      by (cases "k = h"; cases "k2 = h") fastforce+
  qed
qed

lemma lists_rep_empty_iff: "lists_rep hp L \<Longrightarrow> L h = Some xs \<Longrightarrow> list_empty h hp \<longleftrightarrow> xs = []"
  using ring_empty_iff lists_rep_ring by blast

lemma lists_rep_first: "lists_rep hp L \<Longrightarrow> L h = Some (x # xs) \<Longrightarrow> nxt hp h = x"
  using ring_nxt lists_rep_ring by fastforce

lemma lists_rep_for_each:
  "lists_rep hp L \<Longrightarrow> L h = Some xs \<Longrightarrow> for_each hp h body = Some (first_some body xs)"
  using for_each_ring lists_rep_ring by blast

section \<open>The interface the clients of listx.h use\<close>

text \<open>
  What \<open>pcb.c\<close> and \<open>asl.c\<close> rely on: the operations and the law of each on the lists a
  heap represents. The compound moves of the clients (pop the first node, take a node out,
  move a node from one list to another) are derived once from the laws.
\<close>

locale intrusive_lists =
  fixes rep :: "'h \<Rightarrow> ('n \<Rightarrow> 'n list option) \<Rightarrow> bool"
    and init :: "'n \<Rightarrow> 'h \<Rightarrow> 'h"
    and add :: "'n \<Rightarrow> 'n \<Rightarrow> 'h \<Rightarrow> 'h"
    and add_tail :: "'n \<Rightarrow> 'n \<Rightarrow> 'h \<Rightarrow> 'h"
    and del :: "'n \<Rightarrow> 'h \<Rightarrow> 'h"
    and is_empty :: "'n \<Rightarrow> 'h \<Rightarrow> bool"
    and first :: "'h \<Rightarrow> 'n \<Rightarrow> 'n"
  assumes init_law: "rep hp L \<Longrightarrow> unlinked L n \<Longrightarrow> rep (init n hp) (L(n := Some []))"
    and add_law: "rep hp L \<Longrightarrow> L h = Some xs \<Longrightarrow> unlinked L n \<Longrightarrow> n \<noteq> h \<Longrightarrow>
      rep (add n h hp) (L(n := None, h := Some (n # xs)))"
    and add_tail_law: "rep hp L \<Longrightarrow> L h = Some xs \<Longrightarrow> unlinked L n \<Longrightarrow> n \<noteq> h \<Longrightarrow>
      rep (add_tail n h hp) (L(n := None, h := Some (xs @ [n])))"
    and del_law: "rep hp L \<Longrightarrow> L h = Some xs \<Longrightarrow> n \<in> set xs \<Longrightarrow>
      rep (del n hp) (L(h := Some (remove1 n xs)))"
    and empty_law: "rep hp L \<Longrightarrow> L h = Some xs \<Longrightarrow> is_empty h hp \<longleftrightarrow> xs = []"
    and first_law: "rep hp L \<Longrightarrow> L h = Some (x # xs) \<Longrightarrow> first hp h = x"
    and distinct_law: "rep hp L \<Longrightarrow> L h = Some xs \<Longrightarrow> distinct (h # xs)"
    and disjoint_law: "rep hp L \<Longrightarrow> L h = Some xs \<Longrightarrow> L k = Some ys \<Longrightarrow> h \<noteq> k \<Longrightarrow>
      set (h # xs) \<inter> set (k # ys) = {}"

context intrusive_lists begin

lemma del_unlinks:
  assumes rep: "rep hp L" and h: "L h = Some xs" and n: "n \<in> set xs"
  shows "unlinked (L(h := Some (remove1 n xs))) n"
  unfolding unlinked_def
proof (intro conjI allI impI)
  fix k ys
  assume k: "(L(h := Some (remove1 n xs))) k = Some ys"
  show "n \<notin> set ys"
    using k n distinct_law[OF rep h] disjoint_law[OF rep h, of k ys] by (cases "k = h") auto
next
  fix ys
  assume "(L(h := Some (remove1 n xs))) n = Some ys"
  then show "ys = []"
    using n distinct_law[OF rep h] disjoint_law[OF rep h, of n ys] by (cases "n = h") auto
qed

lemma take_out:
  assumes "rep hp L" and "L h = Some xs" and "n \<in> set xs"
  shows "rep (init n (del n hp)) (L(h := Some (remove1 n xs), n := Some []))"
  using init_law[OF del_law[OF assms] del_unlinks[OF assms]] .

lemma pop_front:
  assumes "rep hp L" and "L h = Some (x # xs)"
  shows "rep (init x (del x hp)) (L(h := Some xs, x := Some []))"
  using take_out[of hp L h "x # xs" x] assms by simp

lemma move_front:
  assumes rep: "rep hp L" and h: "L h = Some xs" and n: "n \<in> set xs" and k: "L k = Some ys" and "h \<noteq> k"
  shows "rep (add n k (del n hp)) (L(h := Some (remove1 n xs), n := None, k := Some (n # ys)))"
proof -
  have "n \<noteq> k" using disjoint_law[OF rep h k \<open>h \<noteq> k\<close>] n by auto
  moreover have "(L(h := Some (remove1 n xs))) k = Some ys" using k \<open>h \<noteq> k\<close> by simp
  ultimately show ?thesis
    using add_law[OF del_law[OF rep h n] _ del_unlinks[OF rep h n]] by simp
qed

lemma move_tail:
  assumes rep: "rep hp L" and h: "L h = Some xs" and n: "n \<in> set xs" and k: "L k = Some ys" and "h \<noteq> k"
  shows "rep (add_tail n k (del n hp)) (L(h := Some (remove1 n xs), n := None, k := Some (ys @ [n])))"
proof -
  have "n \<noteq> k" using disjoint_law[OF rep h k \<open>h \<noteq> k\<close>] n by auto
  moreover have "(L(h := Some (remove1 n xs))) k = Some ys" using k \<open>h \<noteq> k\<close> by simp
  ultimately show ?thesis
    using add_tail_law[OF del_law[OF rep h n] _ del_unlinks[OF rep h n]] by simp
qed

end

interpretation lx: intrusive_lists lists_rep INIT_LIST_HEAD list_add list_add_tail list_del list_empty nxt
proof unfold_locales
  fix hp :: heap and L :: lmap and h xs
  assume "lists_rep hp L" and "L h = Some xs"
  then show "distinct (h # xs)" using lists_rep_ring unfolding ring_def by blast
qed (fact lists_rep_init lists_rep_add lists_rep_add_tail lists_rep_del lists_rep_empty_iff
      lists_rep_first lists_rep_disjoint)+

end
