(* ===== verification/Klog.thy ===== *)
theory Klog
  imports Prelude
begin

text \<open>
  \<open>src/klog.c\<close>, the circular log buffer the kernel prints to, and the three loggers of
  \<open>src/utils.c\<close> that sit on top of it. The buffer is a state record; every printing
  routine is a function on it.
\<close>

section \<open>The buffer\<close>

definition KLOG_LINES :: nat where "KLOG_LINES = 200"
definition KLOG_LINE_SIZE :: nat where "KLOG_LINE_SIZE = 20"

record klog =
  klog_line_index :: u32
  klog_char_index :: u32
  klog_buffer :: "nat \<Rightarrow> nat \<Rightarrow> char"

text \<open>\<open>klog_buffer[klog_line_index][klog_char_index] = c\<close>\<close>

definition klog_store :: "char \<Rightarrow> klog \<Rightarrow> klog" where
  "klog_store c k =
     (let l = unat (klog_line_index k); i = unat (klog_char_index k)
      in k\<lparr>klog_buffer := (klog_buffer k)(l := (klog_buffer k l)(i := c))\<rparr>)"

definition next_line :: "klog \<Rightarrow> klog" where
  "next_line k =
     (let l = (klog_line_index k + 1) mod of_nat KLOG_LINES;
          row = fold (\<lambda>i r. r(i := CHR '' '')) [0..<KLOG_LINE_SIZE] (klog_buffer k (unat l))
      in k\<lparr>klog_line_index := l, klog_char_index := 0,
           klog_buffer := (klog_buffer k)(unat l := row)\<rparr>)"

definition next_char :: "klog \<Rightarrow> klog" where
  "next_char k =
     (let i = klog_char_index k + 1
      in if i \<ge> of_nat KLOG_LINE_SIZE then next_line (k\<lparr>klog_char_index := 0\<rparr>)
         else k\<lparr>klog_char_index := i\<rparr>)"

text \<open>A C string argument is read up to its terminator.\<close>

fun kprint :: "string \<Rightarrow> klog \<Rightarrow> klog" where
  "kprint [] k = k"
| "kprint (c # cs) k =
     (if c = CHR 0x00 then k
      else if c = CHR 0x0A then kprint cs (next_line k)
      else kprint cs (next_char (klog_store c k)))"

text \<open>
  \<open>int\<close> arithmetic of C: the value wraps at 32 bits, division truncates towards zero.
\<close>

definition wrap_int :: "int \<Rightarrow> int" where
  "wrap_int x = sint (word_of_int x :: u32)"

definition c_div :: "int \<Rightarrow> int \<Rightarrow> int" where
  "c_div a b = sgn a * sgn b * (\<bar>a\<bar> div \<bar>b\<bar>)"

definition c_mod :: "int \<Rightarrow> int \<Rightarrow> int" where
  "c_mod a b = a - b * c_div a b"

lemma c_div_pos [simp]: "0 \<le> a \<Longrightarrow> 0 < b \<Longrightarrow> c_div a b = a div b"
  by (cases "a = 0") (simp_all add: c_div_def)

lemma c_mod_pos [simp]: "0 \<le> a \<Longrightarrow> 0 < b \<Longrightarrow> c_mod a b = a mod b"
  by (simp add: c_mod_def minus_mult_div_eq_mod)

text \<open>The \<open>do ... while (num > 0)\<close> loops of \<open>kprint_int\<close> and \<open>kprint_hex\<close>: the body runs
  once, then again while the divided number is positive.\<close>

function kprint_int_loop :: "int \<Rightarrow> klog \<Rightarrow> klog" where
  "kprint_int_loop num k =
     (if c_div num 10 > 0
      then kprint_int_loop (c_div num 10) (next_char (klog_store (char_of (48 + c_mod num 10)) k))
      else next_char (klog_store (char_of (48 + c_mod num 10)) k))"
  by pat_completeness auto
termination
proof (relation "measure (\<lambda>(n, k). nat n)", simp, goal_cases)
  case (1 num k)
  then have "0 < num" by (auto simp: c_div_def sgn_if split: if_splits)
  with 1 show ?case by simp
qed

declare kprint_int_loop.simps [simp del]

definition kprint_int :: "int \<Rightarrow> klog \<Rightarrow> klog" where
  "kprint_int num k =
     (if num < 0 then kprint_int_loop (wrap_int (- num)) (next_char (klog_store (CHR ''-'') k))
      else kprint_int_loop num k)"

function kprint_hex_loop :: "nat \<Rightarrow> klog \<Rightarrow> klog" where
  "kprint_hex_loop num k =
     (if num div 16 > 0
      then kprint_hex_loop (num div 16) (next_char (klog_store (''0123456789ABCDEF'' ! (num mod 16)) k))
      else next_char (klog_store (''0123456789ABCDEF'' ! (num mod 16)) k))"
  by pat_completeness auto
termination
  by (relation "measure (\<lambda>(n, k). n)") auto

declare kprint_hex_loop.simps [simp del]

definition kprint_hex :: "u32 \<Rightarrow> klog \<Rightarrow> klog" where
  "kprint_hex num k = kprint_hex_loop (unat num) k"

section \<open>The loggers of utils.c\<close>

definition log_msg :: "string \<Rightarrow> string \<Rightarrow> klog \<Rightarrow> klog" where
  "log_msg tag mex k = kprint [CHR 0x0A] (kprint mex (kprint ''>'' (kprint tag k)))"

definition logi :: "string \<Rightarrow> string \<Rightarrow> int \<Rightarrow> klog \<Rightarrow> klog" where
  "logi tag mex val k =
     kprint [CHR 0x0A] (kprint_int val (kprint mex (kprint ''>'' (kprint tag k))))"

definition logh :: "string \<Rightarrow> string \<Rightarrow> u32 \<Rightarrow> klog \<Rightarrow> klog" where
  "logh tag mex val k =
     kprint [CHR 0x0A] (kprint_hex val (kprint mex (kprint ''>'' (kprint tag k))))"

section \<open>The cursor never leaves the buffer\<close>

definition klog_wf :: "klog \<Rightarrow> bool" where
  "klog_wf k \<longleftrightarrow> unat (klog_line_index k) < KLOG_LINES \<and> unat (klog_char_index k) < KLOG_LINE_SIZE"

named_theorems klog_wf_intros "every routine keeps the cursor inside the buffer"

lemma klog_store_wf [klog_wf_intros]: "klog_wf k \<Longrightarrow> klog_wf (klog_store c k)"
  by (simp add: klog_wf_def klog_store_def Let_def)

lemma next_line_wf [klog_wf_intros]: "klog_wf (next_line k)"
  by (simp add: klog_wf_def next_line_def Let_def KLOG_LINES_def KLOG_LINE_SIZE_def unat_mod)

lemma next_char_wf [klog_wf_intros]: "klog_wf k \<Longrightarrow> klog_wf (next_char k)"
  using next_line_wf
  by (auto simp: klog_wf_def next_char_def Let_def KLOG_LINES_def KLOG_LINE_SIZE_def word_le_nat_alt
        not_le)

lemma kprint_wf [klog_wf_intros]: "klog_wf k \<Longrightarrow> klog_wf (kprint s k)"
  by (induction s k rule: kprint.induct) (auto intro: klog_wf_intros)

lemma kprint_int_loop_wf [klog_wf_intros]: "klog_wf k \<Longrightarrow> klog_wf (kprint_int_loop n k)"
proof (induction n k rule: kprint_int_loop.induct)
  case (1 num k)
  then show ?case
    by (subst kprint_int_loop.simps) (auto intro: klog_wf_intros)
qed

lemma kprint_int_wf [klog_wf_intros]: "klog_wf k \<Longrightarrow> klog_wf (kprint_int n k)"
  by (simp add: kprint_int_def klog_wf_intros)

lemma kprint_hex_loop_wf [klog_wf_intros]: "klog_wf k \<Longrightarrow> klog_wf (kprint_hex_loop n k)"
proof (induction n k rule: kprint_hex_loop.induct)
  case (1 num k)
  then show ?case
    by (subst kprint_hex_loop.simps) (auto intro: klog_wf_intros)
qed

lemma kprint_hex_wf [klog_wf_intros]: "klog_wf k \<Longrightarrow> klog_wf (kprint_hex n k)"
  by (simp add: kprint_hex_def klog_wf_intros)

section \<open>What the number printers emit\<close>

text \<open>The decimal and hexadecimal numerals of a number, most significant digit first.\<close>

fun decimal :: "nat \<Rightarrow> string" where
  "decimal n = (if n < 10 then [char_of (48 + n)] else decimal (n div 10) @ [char_of (48 + n mod 10)])"

fun hexadecimal :: "nat \<Rightarrow> string" where
  "hexadecimal n =
     (if n < 16 then [''0123456789ABCDEF'' ! n]
      else hexadecimal (n div 16) @ [''0123456789ABCDEF'' ! (n mod 16)])"

declare decimal.simps [simp del] hexadecimal.simps [simp del]

lemma kprint_plain: "c \<noteq> CHR 0x00 \<Longrightarrow> c \<noteq> CHR 0x0A \<Longrightarrow> kprint (c # cs) k = kprint cs (next_char (klog_store c k))"
  by simp

lemma kprint_append:
  "CHR 0x00 \<notin> set s \<Longrightarrow> kprint (s @ t) k = kprint t (kprint s k)"
  by (induction s k rule: kprint.induct) auto

lemma digit_char_plain:
  "d < 10 \<Longrightarrow> (char_of (48 + d) :: char) \<noteq> CHR 0x00 \<and> (char_of (48 + d) :: char) \<noteq> CHR 0x0A"
  for d :: nat
proof -
  assume "d < 10"
  then have "of_char (char_of (48 + d) :: char) = 48 + d" by (simp add: of_char_of)
  then have "of_char (char_of (48 + d) :: char) \<noteq> (of_char (CHR 0x00) :: nat)"
    and "of_char (char_of (48 + d) :: char) \<noteq> (of_char (CHR 0x0A) :: nat)" by simp_all
  then show ?thesis by metis
qed

lemma char_of_int_digit: "(char_of (48 + int d) :: char) = char_of (48 + d)"
  using char_of_nat[of "48 + d", where 'a = int] by (simp only: of_nat_add of_nat_numeral)

lemma kprint_int_loop_decimal: "kprint_int_loop (int n) k = kprint (rev (decimal n)) k"
proof (induction n arbitrary: k rule: less_induct)
  case (less n)
  have md: "c_mod (int n) 10 = int (n mod 10)" "c_div (int n) 10 = int (n div 10)"
    by (simp_all add: zmod_int zdiv_int)
  have pl: "kprint (char_of (48 + n mod 10) # cs) k = kprint cs (next_char (klog_store (char_of (48 + n mod 10)) k))" for cs k
    using digit_char_plain[of "n mod 10"] by (intro kprint_plain) auto
  show ?case
  proof (cases "n < 10")
    case True
    then show ?thesis using pl[of "[]" k]
      by (subst kprint_int_loop.simps, subst decimal.simps) (simp add: md char_of_int_digit)
  next
    case False
    then have "n div 10 < n" "0 < n div 10" by auto
    then show ?thesis using less.IH[of "n div 10"] False pl
      by (subst kprint_int_loop.simps, subst decimal.simps) (simp add: md char_of_int_digit)
  qed
qed

lemma hex_digit_plain:
  "d < 16 \<Longrightarrow> ''0123456789ABCDEF'' ! d \<noteq> CHR 0x00 \<and> ''0123456789ABCDEF'' ! d \<noteq> CHR 0x0A" for d :: nat
  using nth_mem[of d "''0123456789ABCDEF''"] by auto

lemma kprint_hex_loop_hexadecimal: "kprint_hex_loop n k = kprint (rev (hexadecimal n)) k"
proof (induction n arbitrary: k rule: less_induct)
  case (less n)
  have pl: "kprint (''0123456789ABCDEF'' ! (n mod 16) # cs) k
      = kprint cs (next_char (klog_store (''0123456789ABCDEF'' ! (n mod 16)) k))" for cs k
    using hex_digit_plain[of "n mod 16"] by (intro kprint_plain) auto
  show ?case
  proof (cases "n < 16")
    case True
    then show ?thesis using pl[of "[]" k]
      by (subst kprint_hex_loop.simps, subst hexadecimal.simps) simp
  next
    case False
    then have "n div 16 < n" "0 < n div 16" by auto
    then show ?thesis using less.IH[of "n div 16"] False pl
      by (subst kprint_hex_loop.simps, subst hexadecimal.simps) simp
  qed
qed

end
