(* ===== verification/Machine.thy ===== *)
theory Machine
  imports Listx Klog
begin

text \<open>
  The kernel's data: the constants of \<open>src/pandos_const.h\<close>, the structures of
  \<open>src/pandos_types.h\<close>, the state record of everything the kernel's C variables hold, and
  the platform record \<open>plat\<close>, which stands for what is not in the repository: the
  \<^verbatim>\<open>umps3\<close> headers and library, and the addresses the linker chooses.
\<close>

section \<open>pandos_const.h\<close>

definition NULL :: u32 where "NULL = 0xFFFFFFFF"

definition RAMBASEADDR :: u32 where "RAMBASEADDR = 0x10000000"
definition RAMBASESIZE :: u32 where "RAMBASESIZE = 0x10000004"
definition TIMESCALEADDR :: u32 where "TIMESCALEADDR = 0x10000024"
definition KUSEG :: u32 where "KUSEG = 0x80000000"
definition RAMSTART :: u32 where "RAMSTART = 0x20000000"
definition BIOSDATAPAGE :: u32 where "BIOSDATAPAGE = 0x0FFFF000"
definition PASSUPVECTOR :: u32 where "PASSUPVECTOR = 0x0FFFF900"

definition PGFAULTEXCEPT :: nat where "PGFAULTEXCEPT = 0"
definition GENERALEXCEPT :: nat where "GENERALEXCEPT = 1"

definition MAXPROC :: nat where "MAXPROC = 20"

definition CREATEPROCESS :: int where "CREATEPROCESS = -1"
definition TERMPROCESS :: int where "TERMPROCESS = -2"
definition PASSEREN :: int where "PASSEREN = -3"
definition VERHOGEN :: int where "VERHOGEN = -4"
definition DOIO :: int where "DOIO = -5"
definition GETTIME :: int where "GETTIME = -6"
definition CLOCKWAIT :: int where "CLOCKWAIT = -7"
definition GETSUPPORTPTR :: int where "GETSUPPORTPTR = -8"
definition GETPROCESSID :: int where "GETPROCESSID = -9"
definition YIELD :: int where "YIELD = -10"

definition PROCESS_PRIO_LOW :: u32 where "PROCESS_PRIO_LOW = 0"
definition PROCESS_PRIO_HIGH :: u32 where "PROCESS_PRIO_HIGH = 1"

definition ALLOFF :: u32 where "ALLOFF = 0x00000000"
definition CLEAREXECCODE :: u32 where "CLEAREXECCODE = 0xFFFFFF00"
definition PRIVINSTR :: u32 where "PRIVINSTR = 10"
definition CAUSESHIFT :: nat where "CAUSESHIFT = 2"
definition OKCHARTRANS :: u32 where "OKCHARTRANS = 5"
definition KERNELSTACK :: u32 where "KERNELSTACK = 0x20001000"
definition PSECOND :: u32 where "PSECOND = 100000"
definition TIMESLICE :: u32 where "TIMESLICE = 5000"
definition TERMSTATMASK :: u32 where "TERMSTATMASK = 0xFF"
definition STK_PG :: u32 where "STK_PG = 0x3FFFF"
definition USERPGTBLSIZE :: nat where "USERPGTBLSIZE = 32"

lemmas syscall_numbers =
  CREATEPROCESS_def TERMPROCESS_def PASSEREN_def VERHOGEN_def DOIO_def GETTIME_def
  CLOCKWAIT_def GETSUPPORTPTR_def GETPROCESSID_def YIELD_def

section \<open>pandos_types.h\<close>

text \<open>
  The processor state \<open>state_t\<close> has the fields the sources name; the general registers
  are an array, and the register names of the sources (\<open>reg_a0\<close>, \<open>reg_v0\<close>, \dots) are
  positions in it that the platform gives.
\<close>

record state_t =
  entry_hi :: u32
  cause :: u32
  status :: u32
  pc_epc :: u32
  gpr :: "nat \<Rightarrow> u32"
  hi :: u32
  lo :: u32

record pteEntry_t =
  pte_entryHI :: u32
  pte_entryLO :: u32

record context_t =
  cx_stackPtr :: u32
  cx_status :: u32
  cx_pc :: u32

record support_t =
  sup_asid :: u32
  sup_exceptState :: "nat \<Rightarrow> state_t"
  sup_exceptContext :: "nat \<Rightarrow> context_t"
  sup_privatePgTbl :: "nat \<Rightarrow> pteEntry_t"

text \<open>
  A \<open>pcb_t *\<close> is the index of the PCB in \<open>pcb_free_table\<close>, or \<open>None\<close> for \<open>NULL\<close>. The
  three list heads of a PCB live in the list heap.
\<close>

record pcb_t =
  p_parent :: "nat option"
  p_s :: state_t
  p_time :: u32
  p_tm_updt :: u32
  p_semAdd :: u32
  p_supportStruct :: u32
  p_prio :: u32
  p_pid :: u32

section \<open>The platform\<close>

text \<open>
  What the kernel takes from outside the repository. \<open>'h\<close> is the type of the hardware
  state behind the \<^verbatim>\<open>libumps\<close> register accessors: the model never looks inside it.
\<close>

record 'h plat =
  \<comment> \<open>the linker and the compiler\<close>
  pcb_base :: u32
  sizeof_pcb :: u32
  offset_p_s :: u32
  addr_sem_it :: u32
  addr_sem_disk :: u32
  addr_sem_flash :: u32
  addr_sem_net :: u32
  addr_sem_printer :: u32
  addr_sem_term_in :: u32
  addr_sem_term_out :: u32
  addr_exception_handler :: u32
  addr_uTLB_RefillHandler :: u32
  addr_instantiator_proc :: u32
  \<comment> \<open>registers of \<open>state_t\<close>\<close>
  STATE_GPR_LEN :: nat
  reg_v0 :: nat
  reg_a0 :: nat
  reg_a1 :: nat
  reg_a2 :: nat
  reg_a3 :: nat
  reg_t9 :: nat
  reg_sp :: nat
  WORD_SIZE :: u32
  \<comment> \<open>devices and interrupt lines\<close>
  DEVPERINT :: nat
  N_EXT_IL :: nat
  N_DEV_PER_IL :: nat
  N_INTERRUPT_LINES :: nat
  IL_IPI :: nat
  IL_CPUTIMER :: nat
  IL_TIMER :: nat
  IL_DISK :: nat
  IL_FLASH :: nat
  IL_ETHERNET :: nat
  IL_PRINTER :: nat
  IL_TERMINAL :: nat
  DEV_REG_START :: u32
  DEV_REG_SIZE :: u32
  DEV_REG_ADDR :: "nat \<Rightarrow> nat \<Rightarrow> u32"
  CDEV_BITMAP_ADDR :: "nat \<Rightarrow> u32"
  devreg :: "nat \<Rightarrow> nat \<Rightarrow> u32"
  off_dtp_status :: u32
  off_dtp_command :: u32
  off_recv_status :: u32
  off_recv_command :: u32
  off_transm_status :: u32
  off_transm_command :: u32
  \<comment> \<open>the passup vector\<close>
  off_tlb_refill_handler :: u32
  off_tlb_refill_stackPtr :: u32
  off_exception_handler :: u32
  off_exception_stackPtr :: u32
  \<comment> \<open>coprocessor 0\<close>
  CAUSE_GET_EXCCODE :: "u32 \<Rightarrow> u32"
  CAUSE_IP :: "nat \<Rightarrow> u32"
  EXC_INT :: u32
  EXC_MOD :: u32
  EXC_TLBL :: u32
  EXC_TLBS :: u32
  EXC_ADEL :: u32
  EXC_ADES :: u32
  EXC_IBE :: u32
  EXC_DBE :: u32
  EXC_SYS :: u32
  EXC_BP :: u32
  EXC_RI :: u32
  EXC_CPU :: u32
  EXC_OV :: u32
  STATUS_IEc :: u32
  STATUS_KUc :: u32
  STATUS_IEp :: u32
  STATUS_KUp :: u32
  STATUS_KUp_BIT :: nat
  STATUS_IM_MASK :: u32
  STATUS_TE :: u32
  ENTRYHI_GET_VPN :: "u32 \<Rightarrow> u32"
  \<comment> \<open>the register accessors of libumps\<close>
  getSTATUS :: "'h \<Rightarrow> u32"
  setSTATUS :: "u32 \<Rightarrow> 'h \<Rightarrow> 'h"
  getCAUSE :: "'h \<Rightarrow> u32"
  setTIMER :: "u32 \<Rightarrow> 'h \<Rightarrow> 'h"
  LDIT :: "u32 \<Rightarrow> 'h \<Rightarrow> 'h"
  STCK :: "'h \<Rightarrow> u32 \<times> 'h"
  setENTRYHI :: "u32 \<Rightarrow> 'h \<Rightarrow> 'h"
  setENTRYLO :: "u32 \<Rightarrow> 'h \<Rightarrow> 'h"
  TLBWR :: "'h \<Rightarrow> 'h"

section \<open>The kernel's state\<close>

text \<open>
  \<open>mem\<close> holds the \<open>int\<close> cells a pointer can name (semaphores, device registers, the
  bus registers); \<open>states\<close> and \<open>supports\<close> hold the \<open>state_t\<close> and \<open>support_t\<close> objects
  processes pass by address. \<open>hw\<close> is the processor and its timers.
\<close>

record 'h kst =
  lh :: heap
  pcbs :: "nat \<Rightarrow> pcb_t"
  s_key :: "nat \<Rightarrow> u32"
  act_proc :: "nat option"
  yielded_proc :: "nat option"
  sb_procs :: u32
  procs_count :: u32
  mem :: "u32 \<Rightarrow> u32"
  states :: "u32 \<Rightarrow> state_t"
  supports :: "u32 \<Rightarrow> support_t"
  klogb :: klog
  hw :: 'h

text \<open>
  Where the kernel leaves the C program: \<open>PANIC\<close> and \<open>HALT\<close> end the machine, \<open>WAIT\<close>
  idles it until an interrupt, \<open>LDST\<close> and \<open>LDCXT\<close> load a processor state; none of them
  returns to the caller's next statement while the machine goes on from there. \<open>Wild\<close> is
  an access through \<open>NULL\<close> or a pointer that is not to the object the code takes it for,
  and \<open>Diverge\<close> a loop of the kernel that does not end.
\<close>

datatype stop =
    Panic | Halt | Wait
  | Ldst state_t
  | Ldcxt u32 u32 u32
  | Wild
  | Diverge

type_synonym ('a, 'h) km = "'h kst \<Rightarrow> (stop, 'a, 'h kst) out"

section \<open>Primitive steps\<close>

definition upd_lh :: "(heap \<Rightarrow> heap) \<Rightarrow> 'h kst \<Rightarrow> 'h kst" where
  "upd_lh f s = s\<lparr>lh := f (lh s)\<rparr>"

definition upd_pcb :: "nat \<Rightarrow> (pcb_t \<Rightarrow> pcb_t) \<Rightarrow> 'h kst \<Rightarrow> 'h kst" where
  "upd_pcb p f s = s\<lparr>pcbs := (pcbs s)(p := f (pcbs s p))\<rparr>"

definition upd_hw :: "('h \<Rightarrow> 'h) \<Rightarrow> 'h kst \<Rightarrow> 'h kst" where
  "upd_hw f s = s\<lparr>hw := f (hw s)\<rparr>"

definition store_mem :: "u32 \<Rightarrow> u32 \<Rightarrow> 'h kst \<Rightarrow> 'h kst" where
  "store_mem a v s = s\<lparr>mem := (mem s)(a := v)\<rparr>"

definition LOG :: "string \<Rightarrow> string \<Rightarrow> 'h kst \<Rightarrow> 'h kst" where
  "LOG tag mex s = s\<lparr>klogb := log_msg tag mex (klogb s)\<rparr>"

definition LOGi :: "string \<Rightarrow> string \<Rightarrow> u32 \<Rightarrow> 'h kst \<Rightarrow> 'h kst" where
  "LOGi tag mex i s = s\<lparr>klogb := logi tag mex (sint i) (klogb s)\<rparr>"

definition PANIC :: "('a, 'h) km" where
  "PANIC = kstop Panic"

definition set_reg :: "nat \<Rightarrow> u32 \<Rightarrow> state_t \<Rightarrow> state_t" where
  "set_reg r v st = st\<lparr>gpr := (gpr st)(r := v)\<rparr>"

text \<open>The address of the \<open>i\<close>-th PCB, and a \<open>pcb_t *\<close> as the word it is.\<close>

definition pcb_addr :: "'h plat \<Rightarrow> nat \<Rightarrow> u32" where
  "pcb_addr U i = pcb_base U + of_nat i * sizeof_pcb U"

definition pcb_word :: "'h plat \<Rightarrow> nat option \<Rightarrow> u32" where
  "pcb_word U p = (case p of None \<Rightarrow> NULL | Some i \<Rightarrow> pcb_addr U i)"

section \<open>Which fields a primitive step leaves alone\<close>

lemma upd_lh_sel [simp]:
  "lh (upd_lh f s) = f (lh s)" "pcbs (upd_lh f s) = pcbs s" "s_key (upd_lh f s) = s_key s"
  "act_proc (upd_lh f s) = act_proc s" "yielded_proc (upd_lh f s) = yielded_proc s"
  "sb_procs (upd_lh f s) = sb_procs s" "procs_count (upd_lh f s) = procs_count s"
  "mem (upd_lh f s) = mem s" "states (upd_lh f s) = states s" "supports (upd_lh f s) = supports s"
  "hw (upd_lh f s) = hw s" "klogb (upd_lh f s) = klogb s"
  by (simp_all add: upd_lh_def)

lemma upd_pcb_sel [simp]:
  "lh (upd_pcb p g s) = lh s" "pcbs (upd_pcb p g s) = (pcbs s)(p := g (pcbs s p))"
  "s_key (upd_pcb p g s) = s_key s"
  "act_proc (upd_pcb p g s) = act_proc s" "yielded_proc (upd_pcb p g s) = yielded_proc s"
  "sb_procs (upd_pcb p g s) = sb_procs s" "procs_count (upd_pcb p g s) = procs_count s"
  "mem (upd_pcb p g s) = mem s" "states (upd_pcb p g s) = states s"
  "supports (upd_pcb p g s) = supports s"
  "hw (upd_pcb p g s) = hw s" "klogb (upd_pcb p g s) = klogb s"
  by (simp_all add: upd_pcb_def)

lemma upd_hw_sel [simp]:
  "lh (upd_hw g s) = lh s" "pcbs (upd_hw g s) = pcbs s" "s_key (upd_hw g s) = s_key s"
  "act_proc (upd_hw g s) = act_proc s" "yielded_proc (upd_hw g s) = yielded_proc s"
  "sb_procs (upd_hw g s) = sb_procs s" "procs_count (upd_hw g s) = procs_count s"
  "mem (upd_hw g s) = mem s" "states (upd_hw g s) = states s" "supports (upd_hw g s) = supports s"
  "hw (upd_hw g s) = g (hw s)" "klogb (upd_hw g s) = klogb s"
  by (simp_all add: upd_hw_def)

lemma store_mem_sel [simp]:
  "lh (store_mem a v s) = lh s" "pcbs (store_mem a v s) = pcbs s" "s_key (store_mem a v s) = s_key s"
  "act_proc (store_mem a v s) = act_proc s" "yielded_proc (store_mem a v s) = yielded_proc s"
  "sb_procs (store_mem a v s) = sb_procs s" "procs_count (store_mem a v s) = procs_count s"
  "mem (store_mem a v s) = (mem s)(a := v)" "states (store_mem a v s) = states s"
  "supports (store_mem a v s) = supports s"
  "hw (store_mem a v s) = hw s" "klogb (store_mem a v s) = klogb s"
  by (simp_all add: store_mem_def)

lemma LOG_sel [simp]:
  "lh (LOG t x s) = lh s" "pcbs (LOG t x s) = pcbs s" "s_key (LOG t x s) = s_key s"
  "act_proc (LOG t x s) = act_proc s" "yielded_proc (LOG t x s) = yielded_proc s"
  "sb_procs (LOG t x s) = sb_procs s" "procs_count (LOG t x s) = procs_count s"
  "mem (LOG t x s) = mem s" "states (LOG t x s) = states s" "supports (LOG t x s) = supports s"
  "hw (LOG t x s) = hw s" "klogb (LOG t x s) = log_msg t x (klogb s)"
  by (simp_all add: LOG_def)

lemma LOGi_sel [simp]:
  "lh (LOGi t x i s) = lh s" "pcbs (LOGi t x i s) = pcbs s" "s_key (LOGi t x i s) = s_key s"
  "act_proc (LOGi t x i s) = act_proc s" "yielded_proc (LOGi t x i s) = yielded_proc s"
  "sb_procs (LOGi t x i s) = sb_procs s" "procs_count (LOGi t x i s) = procs_count s"
  "mem (LOGi t x i s) = mem s" "states (LOGi t x i s) = states s" "supports (LOGi t x i s) = supports s"
  "hw (LOGi t x i s) = hw s" "klogb (LOGi t x i s) = logi t x (sint i) (klogb s)"
  by (simp_all add: LOGi_def)

lemma set_reg_sel [simp]:
  "gpr (set_reg r v st) = (gpr st)(r := v)" "pc_epc (set_reg r v st) = pc_epc st"
  "status (set_reg r v st) = status st" "cause (set_reg r v st) = cause st"
  "entry_hi (set_reg r v st) = entry_hi st" "hi (set_reg r v st) = hi st" "lo (set_reg r v st) = lo st"
  by (simp_all add: set_reg_def)

end
