(* ===== verification/Dispenser.thy ===== *)
theory Dispenser
  imports Prelude
begin

text \<open>
  The contract of whatever hands things out in an order: the process queues, the queues of the
  semaphores and the pool of PCBs. \<open>dispenser\<close> is what taking promises; \<open>fifo_queue\<close> adds
  putting at the end and \<open>lifo_pool\<close> giving back in front. The components interpret them on
  their own operations.
\<close>

section \<open>Taking until nothing is left\<close>

text \<open>\<open>n\<close> rounds of a routine that answers with an object or with \<open>NULL\<close>.\<close>

fun serve :: "('s \<Rightarrow> ('w, 'n option, 's) out) \<Rightarrow> nat \<Rightarrow> 's \<Rightarrow> ('w, 'n list, 's) out" where
  "serve take_one 0 s = Ret [] s"
| "serve take_one (Suc n) s =
     (case take_one s of
        Stop w s' \<Rightarrow> Stop w s'
      | Ret None s' \<Rightarrow> Ret [] s'
      | Ret (Some x) s' \<Rightarrow>
          (case serve take_one n s' of
             Stop w s'' \<Rightarrow> Stop w s''
           | Ret xs s'' \<Rightarrow> Ret (x # xs) s''))"

section \<open>The contracts\<close>

locale dispenser =
  fixes holds :: "'q \<Rightarrow> 'n list \<Rightarrow> 's \<Rightarrow> bool"
    and take_one :: "'q \<Rightarrow> 's \<Rightarrow> ('w, 'n option, 's) out"
  assumes take_none: "holds q [] s \<Longrightarrow> take_one q s = Ret None s"
    and take_some: "holds q (x # xs) s \<Longrightarrow> \<exists>s'. take_one q s = Ret (Some x) s' \<and> holds q xs s'"

locale fifo_queue = dispenser +
  fixes fits :: "'q \<Rightarrow> 'n \<Rightarrow> 'n list \<Rightarrow> 's \<Rightarrow> bool"
    and put :: "'q \<Rightarrow> 'n \<Rightarrow> 's \<Rightarrow> 's"
  assumes put_law: "fits q x xs s \<Longrightarrow> holds q (xs @ [x]) (put q x s)"

locale lifo_pool = dispenser +
  fixes owned :: "'q \<Rightarrow> 'n \<Rightarrow> 'n list \<Rightarrow> 's \<Rightarrow> bool"
    and give :: "'q \<Rightarrow> 'n \<Rightarrow> 's \<Rightarrow> 's"
  assumes give_law: "owned q x xs s \<Longrightarrow> holds q (x # xs) (give q x s)"

context dispenser begin

lemma take_first:
  assumes "holds q xs s" and "xs \<noteq> []"
  shows "\<exists>s'. take_one q s = Ret (Some (hd xs)) s' \<and> holds q (tl xs) s'"
  using assms take_some by (cases xs) auto

text \<open>As many rounds as there are objects hand out all of them in order; more rounds nothing else.\<close>

lemma serve_all:
  assumes "holds q xs s" and "length xs \<le> n"
  shows "\<exists>s'. serve (take_one q) n s = Ret xs s' \<and> holds q [] s' \<and> take_one q s' = Ret None s'"
  using assms
proof (induction n arbitrary: xs s)
  case 0
  then show ?case using take_none by simp
next
  case (Suc n)
  show ?case
  proof (cases xs)
    case Nil
    then show ?thesis using Suc.prems(1) take_none by simp
  next
    case (Cons x ys)
    then obtain s1 where "take_one q s = Ret (Some x) s1" "holds q ys s1" using Suc.prems(1) take_some by blast
    moreover from this obtain s2 where "serve (take_one q) n s1 = Ret ys s2" "holds q [] s2"
      using Suc.IH[of ys s1] Suc.prems(2) Cons by auto
    ultimately show ?thesis using Cons take_none by auto
  qed
qed

text \<open>What is left to hand out is determined by the state.\<close>

lemma holds_unique:
  assumes "holds q xs s" and "holds q ys s"
  shows "xs = ys"
  using serve_all[OF assms(1), of "length xs + length ys"] serve_all[OF assms(2), of "length xs + length ys"] by auto

end

context fifo_queue begin

lemma put_then_take:
  assumes "fits q x xs s"
  shows "\<exists>s'. take_one q (put q x s) = Ret (Some (hd (xs @ [x]))) s' \<and> holds q (tl (xs @ [x])) s'"
  using take_first[OF put_law[OF assms]] by simp

lemma put_then_serve:
  assumes "fits q x xs s"
  shows "\<exists>s'. serve (take_one q) (Suc (length xs)) (put q x s) = Ret (xs @ [x]) s' \<and> holds q [] s'"
  using serve_all[OF put_law[OF assms], of "Suc (length xs)"] by auto

end

context lifo_pool begin

lemma give_then_take:
  assumes "owned q x xs s"
  shows "\<exists>s'. take_one q (give q x s) = Ret (Some x) s' \<and> holds q xs s'"
  using take_some[OF give_law[OF assms]] .

end

end
