(* ===== verification/Pcb.thy ===== *)
theory Pcb
  imports Machine Dispenser
begin

text \<open>
  \<open>src/pcb.c\<close>: the pool of process control blocks, the process queues and the process
  tree. The routines work on the list heap of the kernel state; the lemmas give the lists
  they leave behind in terms of the ghost map of \<open>Listx\<close>.
\<close>

section \<open>container\_of and the iteration macro\<close>

text \<open>
  \<open>container_of(ptr, pcb_t, p_list)\<close> and its siblings name an object only when \<open>ptr\<close> is
  that field of one; anything else is a wild pointer.
\<close>

fun container_p_list :: "lref \<Rightarrow> nat option" where
  "container_p_list (PList i) = Some i"
| "container_p_list _ = None"

fun container_p_sib :: "lref \<Rightarrow> nat option" where
  "container_p_sib (PSib i) = Some i"
| "container_p_sib _ = None"

fun container_s_link :: "lref \<Rightarrow> nat option" where
  "container_s_link (SLink i) = Some i"
| "container_s_link _ = None"

text \<open>\<open>list_for_each(iter, head) body; after\<close>\<close>

definition klist_for_each ::
  "lref \<Rightarrow> (lref \<Rightarrow> 'h kst \<Rightarrow> (stop, 'a, 'h kst) out option) \<Rightarrow> ('a, 'h) km \<Rightarrow> ('a, 'h) km" where
  "klist_for_each head body after = (\<lambda>s.
     case for_each (lh s) head (\<lambda>iter. body iter s) of
       None \<Rightarrow> Stop Diverge s
     | Some None \<Rightarrow> after s
     | Some (Some r) \<Rightarrow> r)"

section \<open>The pool\<close>

definition is_alive :: "nat \<Rightarrow> (bool, 'h) km" where
  "is_alive pcb =
     klist_for_each PcbFreeH
       (\<lambda>ptr s. case container_p_list ptr of
                  None \<Rightarrow> Some (Stop Wild s)
                | Some cur \<Rightarrow>
                    if p_pid (pcbs s cur) = p_pid (pcbs s pcb) then Some (Ret False s) else None)
       (kreturn True)"

definition search_by_pid :: "'h plat \<Rightarrow> u32 \<Rightarrow> nat option" where
  "search_by_pid U pid =
     (let base = pcb_base U
      in if (pid - base) mod sizeof_pcb U = 0 \<and> pid \<ge> base
            \<and> pid \<le> base + sizeof_pcb U * of_nat MAXPROC
         then Some (unat ((pid - base) div sizeof_pcb U))
         else None)"

definition init_pcbs :: "'h kst \<Rightarrow> 'h kst" where
  "init_pcbs s =
     fold (\<lambda>i s. upd_lh (list_add_tail (PList i) PcbFreeH)
                   (upd_pcb i (\<lambda>p. p\<lparr>p_semAdd := NULL\<rparr>) s))
       [0..<MAXPROC] (upd_lh (INIT_LIST_HEAD PcbFreeH) s)"

definition free_pcb :: "nat \<Rightarrow> 'h kst \<Rightarrow> 'h kst" where
  "free_pcb p s =
     upd_lh (list_add (PList p) PcbFreeH) (upd_pcb p (\<lambda>q. q\<lparr>p_semAdd := NULL\<rparr>) s)"

text \<open>The field initialisations of \<open>alloc_pcb\<close>.\<close>

definition reset_state :: "'h plat \<Rightarrow> state_t \<Rightarrow> state_t" where
  "reset_state U st =
     st\<lparr>entry_hi := 0, cause := 0, status := 0, pc_epc := 0,
        gpr := fold (\<lambda>i g. g(i := 0)) [0..<STATE_GPR_LEN U] (gpr st), hi := 0, lo := 0\<rparr>"

definition reset_pcb :: "'h plat \<Rightarrow> pcb_t \<Rightarrow> pcb_t" where
  "reset_pcb U p =
     p\<lparr>p_parent := None, p_s := reset_state U (p_s p), p_supportStruct := NULL,
       p_time := 0, p_tm_updt := 0, p_semAdd := NULL\<rparr>"

definition alloc_pcb :: "'h plat \<Rightarrow> (nat option, 'h) km" where
  "alloc_pcb U = (\<lambda>s.
     if list_empty PcbFreeH (lh s) then Ret None s
     else case container_p_list (nxt (lh s) PcbFreeH) of
            None \<Rightarrow> Stop Wild s
          | Some p \<Rightarrow>
              Ret (Some p)
                (upd_pcb p (reset_pcb U)
                  (upd_lh (INIT_LIST_HEAD (PSib p))
                    (upd_lh (INIT_LIST_HEAD (PChild p))
                      (upd_lh (INIT_LIST_HEAD (PList p))
                        (upd_lh (list_del (nxt (lh s) PcbFreeH)) s))))))"

section \<open>Process queues\<close>

definition mk_empty_proc_q :: "lref \<Rightarrow> 'h kst \<Rightarrow> 'h kst" where
  "mk_empty_proc_q head = upd_lh (INIT_LIST_HEAD head)"

definition empty_proc_q :: "lref \<Rightarrow> 'h kst \<Rightarrow> bool" where
  "empty_proc_q head s = list_empty head (lh s)"

definition insert_proc_q :: "lref \<Rightarrow> nat \<Rightarrow> 'h kst \<Rightarrow> 'h kst" where
  "insert_proc_q head p = upd_lh (list_add_tail (PList p) head)"

definition head_proc_q :: "lref \<Rightarrow> (nat option, 'h) km" where
  "head_proc_q head = (\<lambda>s.
     if empty_proc_q head s then Ret None s
     else case container_p_list (nxt (lh s) head) of
            None \<Rightarrow> Stop Wild s
          | Some p \<Rightarrow> Ret (Some p) s)"

definition remove_proc_q :: "lref \<Rightarrow> (nat option, 'h) km" where
  "remove_proc_q head = (\<lambda>s.
     if empty_proc_q head s then Ret None s
     else kbind (head_proc_q head)
            (\<lambda>pcb. case pcb of
                None \<Rightarrow> kstop Wild
              | Some p \<Rightarrow>
                  kseq (kmodify (upd_lh (list_del (PList p))))
                 (kseq (kmodify (upd_lh (INIT_LIST_HEAD (PList p))))
                       (kreturn (Some p)))) s)"

definition out_proc_q :: "lref \<Rightarrow> nat \<Rightarrow> (nat option, 'h) km" where
  "out_proc_q head p =
     klist_for_each head
       (\<lambda>iter s. if iter = PList p
                 then Some (Ret (Some p) (upd_lh (INIT_LIST_HEAD iter) (upd_lh (list_del iter) s)))
                 else None)
       (kreturn None)"

section \<open>The process tree\<close>

definition empty_child :: "nat \<Rightarrow> 'h kst \<Rightarrow> bool" where
  "empty_child p s = list_empty (PChild p) (lh s)"

definition insert_child :: "nat \<Rightarrow> nat \<Rightarrow> 'h kst \<Rightarrow> 'h kst" where
  "insert_child prnt p s =
     upd_lh (list_add (PSib p) (PChild prnt)) (upd_pcb p (\<lambda>q. q\<lparr>p_parent := Some prnt\<rparr>) s)"

definition remove_child :: "nat \<Rightarrow> (nat option, 'h) km" where
  "remove_child p = (\<lambda>s.
     if list_empty (PChild p) (lh s) then Ret None s
     else let tmp = list_next (PChild p) (lh s)
          in case container_p_sib tmp of
               None \<Rightarrow> Stop Wild s
             | Some first_child \<Rightarrow>
                 Ret (Some first_child)
                   (upd_pcb first_child (\<lambda>q. q\<lparr>p_parent := None\<rparr>) (upd_lh (list_del tmp) s)))"

definition out_child :: "nat \<Rightarrow> (nat option, 'h) km" where
  "out_child p = (\<lambda>s.
     if p_parent (pcbs s p) = None then Ret None s
     else Ret (Some p)
            (upd_pcb p (\<lambda>q. q\<lparr>p_parent := None\<rparr>) (upd_lh (list_del (PSib p)) s)))"

section \<open>What the queue operations do to the lists\<close>

lemma klist_for_each_run:
  assumes "lists_rep (lh s) L" and "L head = Some xs"
  shows "klist_for_each head body after s =
    (case first_some (\<lambda>iter. body iter s) xs of None \<Rightarrow> after s | Some r \<Rightarrow> r)"
  by (simp add: klist_for_each_def lists_rep_for_each[OF assms] split: option.split)

lemma empty_proc_q_iff:
  "lists_rep (lh s) L \<Longrightarrow> L head = Some xs \<Longrightarrow> empty_proc_q head s \<longleftrightarrow> xs = []"
  by (simp add: empty_proc_q_def lists_rep_empty_iff)

lemma insert_proc_q_rep:
  assumes "lists_rep (lh s) L" and "L head = Some xs" and "unlinked L (PList p)" and "PList p \<noteq> head"
  shows "lists_rep (lh (insert_proc_q head p s)) (L(PList p := None, head := Some (xs @ [PList p])))"
  using lx.add_tail_law[OF assms] by (simp add: insert_proc_q_def)

lemma head_proc_q_run:
  assumes "lists_rep (lh s) L" and "L head = Some (map PList ps)"
  shows "head_proc_q head s = Ret (case ps of [] \<Rightarrow> None | p # _ \<Rightarrow> Some p) s"
  using assms lists_rep_first[OF assms(1)] empty_proc_q_iff[OF assms]
  by (cases ps) (simp_all add: head_proc_q_def)

text \<open>Taking a process out of its queue leaves its own links pointing at itself.\<close>

definition unqueue :: "nat \<Rightarrow> 'h kst \<Rightarrow> 'h kst" where
  "unqueue p s = upd_lh (\<lambda>h. INIT_LIST_HEAD (PList p) (list_del (PList p) h)) s"

lemma remove_proc_q_empty:
  "lists_rep (lh s) L \<Longrightarrow> L head = Some [] \<Longrightarrow> remove_proc_q head s = Ret None s"
  by (simp add: remove_proc_q_def empty_proc_q_iff)

lemma remove_proc_q_run:
  assumes "lists_rep (lh s) L" and "L head = Some (map PList (p # ps))"
  shows "remove_proc_q head s = Ret (Some p) (unqueue p s)"
    and "lists_rep (lh (unqueue p s)) (L(head := Some (map PList ps), PList p := Some []))"
proof -
  show "remove_proc_q head s = Ret (Some p) (unqueue p s)"
    using empty_proc_q_iff[OF assms] head_proc_q_run[OF assms]
    by (simp add: remove_proc_q_def run_simps unqueue_def upd_lh_def)
  show "lists_rep (lh (unqueue p s)) (L(head := Some (map PList ps), PList p := Some []))"
    using lx.pop_front[of "lh s" L head "PList p" "map PList ps"] assms by (simp add: unqueue_def)
qed

lemma out_proc_q_found:
  assumes "lists_rep (lh s) L" and "L head = Some (map PList ps)" and "p \<in> set ps"
  shows "out_proc_q head p s = Ret (Some p) (unqueue p s)"
    and "lists_rep (lh (unqueue p s)) (L(head := Some (map PList (remove1 p ps)), PList p := Some []))"
proof -
  let ?f = "\<lambda>iter. if iter = PList p
     then Some (Ret (Some p) (upd_lh (INIT_LIST_HEAD iter) (upd_lh (list_del iter) s)) :: (stop, nat option, 'a kst) out)
     else None"
  have "first_some ?f (map PList ps) = Some (Ret (Some p) (unqueue p s))"
    using assms(3) by (intro first_some_unique[where x = "PList p"]) (auto simp: unqueue_def upd_lh_def)
  then show "out_proc_q head p s = Ret (Some p) (unqueue p s)"
    by (simp add: out_proc_q_def klist_for_each_run[OF assms(1,2)])
  have "inj PList" by (simp add: inj_def)
  then show "lists_rep (lh (unqueue p s)) (L(head := Some (map PList (remove1 p ps)), PList p := Some []))"
    using lx.take_out[of "lh s" L head "map PList ps" "PList p"] assms
    by (simp add: unqueue_def remove1_map_inj)
qed

lemma out_proc_q_absent:
  assumes "lists_rep (lh s) L" and "L head = Some (map PList ps)" and "p \<notin> set ps"
  shows "out_proc_q head p s = Ret None s"
proof -
  have "first_some (\<lambda>iter. if iter = PList p then Some (r iter) else None) (map PList ps) = None"
    for r :: "lref \<Rightarrow> (stop, nat option, 'a kst) out"
    using assms(3) by (auto simp: first_some_None_iff)
  then show ?thesis
    by (simp add: out_proc_q_def klist_for_each_run[OF assms(1,2)] run_simps)
qed

lemma unqueue_sel [simp]:
  "pcbs (unqueue p s) = pcbs s" "s_key (unqueue p s) = s_key s"
  "act_proc (unqueue p s) = act_proc s" "yielded_proc (unqueue p s) = yielded_proc s"
  "sb_procs (unqueue p s) = sb_procs s" "procs_count (unqueue p s) = procs_count s"
  "mem (unqueue p s) = mem s" "states (unqueue p s) = states s" "supports (unqueue p s) = supports s"
  "hw (unqueue p s) = hw s" "klogb (unqueue p s) = klogb s"
  by (simp_all add: unqueue_def)

section \<open>What the tree operations do to the lists\<close>

lemma remove_child_empty:
  "lists_rep (lh s) L \<Longrightarrow> L (PChild p) = Some [] \<Longrightarrow> remove_child p s = Ret None s"
  by (simp add: remove_child_def lists_rep_empty_iff)

definition orphan :: "nat \<Rightarrow> 'h kst \<Rightarrow> 'h kst" where
  "orphan c s = upd_pcb c (\<lambda>q. q\<lparr>p_parent := None\<rparr>) (upd_lh (list_del (PSib c)) s)"

lemma orphan_sel [simp]:
  "pcbs (orphan c s) = (pcbs s)(c := (pcbs s c)\<lparr>p_parent := None\<rparr>)" "s_key (orphan c s) = s_key s"
  "act_proc (orphan c s) = act_proc s" "yielded_proc (orphan c s) = yielded_proc s"
  "sb_procs (orphan c s) = sb_procs s" "procs_count (orphan c s) = procs_count s"
  "mem (orphan c s) = mem s" "states (orphan c s) = states s" "supports (orphan c s) = supports s"
  "hw (orphan c s) = hw s" "klogb (orphan c s) = klogb s"
  by (simp_all add: orphan_def)

lemma remove_child_run:
  assumes "lists_rep (lh s) L" and "L (PChild p) = Some (map PSib (c # cs))"
  shows "remove_child p s = Ret (Some c) (orphan c s)"
    and "lists_rep (lh (orphan c s)) (L(PChild p := Some (map PSib cs)))"
proof -
  show "remove_child p s = Ret (Some c) (orphan c s)"
    using assms lists_rep_empty_iff[OF assms] lists_rep_first[OF assms(1)]
    by (simp add: remove_child_def list_next_def orphan_def)
  show "lists_rep (lh (orphan c s)) (L(PChild p := Some (map PSib cs)))"
    using lx.del_law[of "lh s" L "PChild p" "map PSib (c # cs)" "PSib c"] assms
    by (simp add: orphan_def)
qed

lemma out_child_root: "p_parent (pcbs s p) = None \<Longrightarrow> out_child p s = Ret None s"
  by (simp add: out_child_def)

lemma out_child_run:
  assumes "lists_rep (lh s) L" and "L (PChild q) = Some (map PSib cs)" and "p \<in> set cs"
    and "p_parent (pcbs s p) \<noteq> None"
  shows "out_child p s = Ret (Some p) (orphan p s)"
    and "lists_rep (lh (orphan p s)) (L(PChild q := Some (map PSib (remove1 p cs))))"
proof -
  show "out_child p s = Ret (Some p) (orphan p s)"
    using assms(4) by (simp add: out_child_def orphan_def)
  have "inj PSib" by (simp add: inj_def)
  then show "lists_rep (lh (orphan p s)) (L(PChild q := Some (map PSib (remove1 p cs))))"
    using lx.del_law[of "lh s" L "PChild q" "map PSib cs" "PSib p"] assms
    by (simp add: orphan_def remove1_map_inj)
qed

lemma insert_child_rep:
  assumes "lists_rep (lh s) L" and "L (PChild prnt) = Some cs" and "unlinked L (PSib p)"
  shows "lists_rep (lh (insert_child prnt p s)) (L(PSib p := None, PChild prnt := Some (PSib p # cs)))"
  using lx.add_law[OF assms] by (simp add: insert_child_def)

lemma insert_child_sel [simp]:
  "pcbs (insert_child q p s) = (pcbs s)(p := (pcbs s p)\<lparr>p_parent := Some q\<rparr>)"
  "s_key (insert_child q p s) = s_key s"
  "act_proc (insert_child q p s) = act_proc s" "yielded_proc (insert_child q p s) = yielded_proc s"
  "sb_procs (insert_child q p s) = sb_procs s" "procs_count (insert_child q p s) = procs_count s"
  "mem (insert_child q p s) = mem s" "states (insert_child q p s) = states s"
  "supports (insert_child q p s) = supports s"
  "hw (insert_child q p s) = hw s" "klogb (insert_child q p s) = klogb s"
  by (simp_all add: insert_child_def)

lemma insert_proc_q_sel [simp]:
  "pcbs (insert_proc_q q p s) = pcbs s" "s_key (insert_proc_q q p s) = s_key s"
  "act_proc (insert_proc_q q p s) = act_proc s" "yielded_proc (insert_proc_q q p s) = yielded_proc s"
  "sb_procs (insert_proc_q q p s) = sb_procs s" "procs_count (insert_proc_q q p s) = procs_count s"
  "mem (insert_proc_q q p s) = mem s" "states (insert_proc_q q p s) = states s"
  "supports (insert_proc_q q p s) = supports s"
  "hw (insert_proc_q q p s) = hw s" "klogb (insert_proc_q q p s) = klogb s"
  by (simp_all add: insert_proc_q_def)

section \<open>What the pool operations do to the lists\<close>

lemma free_pcb_rep:
  assumes "lists_rep (lh s) L" and "L PcbFreeH = Some xs" and "unlinked L (PList p)"
  shows "lists_rep (lh (free_pcb p s)) (L(PList p := None, PcbFreeH := Some (PList p # xs)))"
  using lx.add_law[OF assms] by (simp add: free_pcb_def)

lemma free_pcb_sel [simp]:
  "pcbs (free_pcb p s) = (pcbs s)(p := (pcbs s p)\<lparr>p_semAdd := NULL\<rparr>)" "s_key (free_pcb p s) = s_key s"
  "act_proc (free_pcb p s) = act_proc s" "yielded_proc (free_pcb p s) = yielded_proc s"
  "sb_procs (free_pcb p s) = sb_procs s" "procs_count (free_pcb p s) = procs_count s"
  "mem (free_pcb p s) = mem s" "states (free_pcb p s) = states s" "supports (free_pcb p s) = supports s"
  "hw (free_pcb p s) = hw s" "klogb (free_pcb p s) = klogb s"
  by (simp_all add: free_pcb_def)

text \<open>The state \<open>alloc_pcb\<close> leaves when it hands out \<open>p\<close>.\<close>

definition alloc_st :: "'h plat \<Rightarrow> nat \<Rightarrow> 'h kst \<Rightarrow> 'h kst" where
  "alloc_st U p s =
     upd_pcb p (reset_pcb U)
       (upd_lh (\<lambda>h. INIT_LIST_HEAD (PSib p) (INIT_LIST_HEAD (PChild p)
          (INIT_LIST_HEAD (PList p) (list_del (PList p) h)))) s)"

lemma alloc_st_sel [simp]:
  "pcbs (alloc_st U p s) = (pcbs s)(p := reset_pcb U (pcbs s p))" "s_key (alloc_st U p s) = s_key s"
  "act_proc (alloc_st U p s) = act_proc s" "yielded_proc (alloc_st U p s) = yielded_proc s"
  "sb_procs (alloc_st U p s) = sb_procs s" "procs_count (alloc_st U p s) = procs_count s"
  "mem (alloc_st U p s) = mem s" "states (alloc_st U p s) = states s"
  "supports (alloc_st U p s) = supports s"
  "hw (alloc_st U p s) = hw s" "klogb (alloc_st U p s) = klogb s"
  by (simp_all add: alloc_st_def)

lemma alloc_pcb_exhausted:
  "lists_rep (lh s) L \<Longrightarrow> L PcbFreeH = Some [] \<Longrightarrow> alloc_pcb U s = Ret None s"
  by (simp add: alloc_pcb_def lists_rep_empty_iff)

lemma alloc_pcb_run:
  assumes rep: "lists_rep (lh s) L" and f: "L PcbFreeH = Some (map PList (p # ps))"
    and u: "unlinked L (PChild p)" "unlinked L (PSib p)"
  shows "alloc_pcb U s = Ret (Some p) (alloc_st U p s)"
    and "lists_rep (lh (alloc_st U p s))
      (L(PcbFreeH := Some (map PList ps), PList p := Some [], PChild p := Some [], PSib p := Some []))"
proof -
  show "alloc_pcb U s = Ret (Some p) (alloc_st U p s)"
    using lists_rep_empty_iff[OF rep f] lists_rep_first[OF rep] f
    by (simp add: alloc_pcb_def alloc_st_def upd_lh_def)
  let ?L1 = "L(PcbFreeH := Some (map PList ps), PList p := Some [])"
  have "lists_rep (INIT_LIST_HEAD (PList p) (list_del (PList p) (lh s))) ?L1"
    using lx.pop_front[of "lh s" L PcbFreeH "PList p" "map PList ps"] rep f by simp
  moreover have "unlinked ?L1 (PChild p)" "unlinked (?L1(PChild p := Some [])) (PSib p)"
    using u by (auto simp: unlinked_def)
  ultimately show "lists_rep (lh (alloc_st U p s))
      (L(PcbFreeH := Some (map PList ps), PList p := Some [], PChild p := Some [], PSib p := Some []))"
    by (auto simp: alloc_st_def intro!: lx.init_law)
qed

section \<open>The contracts the pool and the queues fulfil\<close>

text \<open>The process queue at \<open>head\<close> holds \<open>ps\<close>; a process fits when its link is in no list.\<close>

definition queue_holds :: "lref \<Rightarrow> nat list \<Rightarrow> 'h kst \<Rightarrow> bool" where
  "queue_holds head ps s \<longleftrightarrow>
     (\<forall>p. head \<noteq> PList p) \<and> (\<exists>L. lists_rep (lh s) L \<and> L head = Some (map PList ps))"

definition queue_fits :: "lref \<Rightarrow> nat \<Rightarrow> nat list \<Rightarrow> 'h kst \<Rightarrow> bool" where
  "queue_fits head p ps s \<longleftrightarrow>
     (\<forall>p. head \<noteq> PList p) \<and>
     (\<exists>L. lists_rep (lh s) L \<and> L head = Some (map PList ps) \<and> unlinked L (PList p))"

interpretation pq: fifo_queue queue_holds remove_proc_q queue_fits insert_proc_q
proof unfold_locales
  fix q :: lref and s :: "'a kst"
  assume "queue_holds q [] s"
  then show "remove_proc_q q s = Ret None s"
    using remove_proc_q_empty by (auto simp: queue_holds_def)
next
  fix q :: lref and s :: "'a kst" and x xs
  assume "queue_holds q (x # xs) s"
  then obtain L where L: "lists_rep (lh s) L" "L q = Some (map PList (x # xs))" and q: "\<forall>p. q \<noteq> PList p"
    by (auto simp: queue_holds_def)
  have "queue_holds q xs (unqueue x s)"
    unfolding queue_holds_def using q remove_proc_q_run(2)[OF L] by fastforce
  then show "\<exists>s'. remove_proc_q q s = Ret (Some x) s' \<and> queue_holds q xs s'"
    using remove_proc_q_run(1)[OF L] by blast
next
  fix q :: lref and s :: "'a kst" and x xs
  assume "queue_fits q x xs s"
  then obtain L where L: "lists_rep (lh s) L" "L q = Some (map PList xs)" "unlinked L (PList x)" and q: "\<forall>p. q \<noteq> PList p"
    by (auto simp: queue_fits_def)
  have "PList x \<noteq> q" using q by metis
  then show "queue_holds q (xs @ [x]) (insert_proc_q q x s)"
    unfolding queue_holds_def using q insert_proc_q_rep[OF L] by fastforce
qed

text \<open>On any heap, with what happens to the other lists: a process put in leaves after all that were in.\<close>

lemma proc_queue_fifo:
  assumes "lists_rep (lh s) L" and "L h = Some (map PList ps)" and "unlinked L (PList p)" and "PList p \<noteq> h"
    and "h \<noteq> PList (hd (ps @ [p]))"
  shows "\<exists>s'. remove_proc_q h (insert_proc_q h p s) = Ret (Some (hd (ps @ [p]))) s' \<and>
    lists_rep (lh s') (L(PList p := None, h := Some (map PList (tl (ps @ [p]))), PList (hd (ps @ [p])) := Some []))"
proof -
  have r: "lists_rep (lh (insert_proc_q h p s)) (L(PList p := None, h := Some (map PList ps @ [PList p])))"
    by (rule insert_proc_q_rep[OF assms(1-4)])
  obtain q qs where q: "ps @ [p] = q # qs" by (cases "ps @ [p]") auto
  have m: "map PList ps @ [PList p] = map PList (q # qs)" unfolding q[symmetric] by simp
  have "(L(PList p := None, h := Some (map PList ps @ [PList p]))) h = Some (map PList (q # qs))" unfolding m by simp
  note out = remove_proc_q_run[OF r this]
  have e: "(L(PList p := None, h := Some (map PList ps @ [PList p])))(h := Some (map PList qs), PList q := Some []) =
      L(PList p := None, h := Some (map PList qs), PList q := Some [])" by (simp only: fun_upd_upd)
  show ?thesis using out(1) out(2)[unfolded e] unfolding q list.sel by blast
qed

text \<open>The pool holds \<open>ps\<close>: they are in the free list, and the other links of theirs in none.\<close>

definition spare :: "lmap \<Rightarrow> nat list \<Rightarrow> bool" where
  "spare L ps \<longleftrightarrow> (\<forall>p\<in>set ps. unlinked L (PChild p) \<and> unlinked L (PSib p))"

definition pool_holds :: "'h plat \<Rightarrow> nat list \<Rightarrow> 'h kst \<Rightarrow> bool" where
  "pool_holds U ps s \<longleftrightarrow> (\<exists>L. lists_rep (lh s) L \<and> L PcbFreeH = Some (map PList ps) \<and> spare L ps)"

definition pool_owned :: "'h plat \<Rightarrow> nat \<Rightarrow> nat list \<Rightarrow> 'h kst \<Rightarrow> bool" where
  "pool_owned U p ps s \<longleftrightarrow>
     (\<exists>L. lists_rep (lh s) L \<and> L PcbFreeH = Some (map PList ps) \<and> unlinked L (PList p) \<and> spare L (p # ps))"

interpretation pool: lifo_pool pool_holds alloc_pcb pool_owned "\<lambda>U. free_pcb"
proof unfold_locales
  fix U :: "'a plat" and s :: "'a kst"
  assume "pool_holds U [] s"
  then show "alloc_pcb U s = Ret None s" using alloc_pcb_exhausted by (auto simp: pool_holds_def)
next
  fix U :: "'a plat" and s :: "'a kst" and x xs
  assume "pool_holds U (x # xs) s"
  then obtain L where L: "lists_rep (lh s) L" "L PcbFreeH = Some (map PList (x # xs))" and sp: "spare L (x # xs)"
    by (auto simp: pool_holds_def)
  have u: "unlinked L (PChild x)" "unlinked L (PSib x)" using sp by (simp_all add: spare_def)
  let ?L' = "L(PcbFreeH := Some (map PList xs), PList x := Some [], PChild x := Some [], PSib x := Some [])"
  have "x \<notin> set xs" using lists_rep_ring[OF L] by (auto simp: ring_def distinct_map)
  then have "spare ?L' xs" using sp by (auto simp: spare_def unlinked_def)
  then have "pool_holds U xs (alloc_st U x s)"
    unfolding pool_holds_def using alloc_pcb_run(2)[OF L u, of U] by fastforce
  then show "\<exists>s'. alloc_pcb U s = Ret (Some x) s' \<and> pool_holds U xs s'"
    using alloc_pcb_run(1)[OF L u] by blast
next
  fix U :: "'a plat" and s :: "'a kst" and x xs
  assume "pool_owned U x xs s"
  then obtain L where L: "lists_rep (lh s) L" "L PcbFreeH = Some (map PList xs)" "unlinked L (PList x)"
    and sp: "spare L (x # xs)"
    by (auto simp: pool_owned_def)
  have "spare (L(PList x := None, PcbFreeH := Some (PList x # map PList xs))) (x # xs)"
    using sp by (auto simp: spare_def unlinked_def)
  then show "pool_holds U (x # xs) (free_pcb x s)"
    unfolding pool_holds_def using free_pcb_rep[OF L] by fastforce
qed

end
