(* ===== verification/Kabs.thy ===== *)
theory Kabs
  imports Pcb "HOL-Library.Multiset"
begin

text \<open>
  The abstract kernel state: where each PCB and each semaphore descriptor is, and the
  process tree, as plain lists. \<open>krep\<close> relates it to the kernel state and is the
  structural part of the kernel invariant; \<open>kinv\<close> adds the two process counters.
\<close>

section \<open>The abstract state\<close>

record kabs =
  a_free :: "nat list"                  \<comment> \<open>the free PCBs, in the order of \<open>pcb_free_h\<close>\<close>
  a_lq :: "nat list"                    \<comment> \<open>the low priority ready queue\<close>
  a_hq :: "nat list"                    \<comment> \<open>the high priority ready queue\<close>
  a_asl :: "(nat \<times> nat list) list"      \<comment> \<open>the active descriptors, each with its queue\<close>
  a_sfree :: "nat list"                 \<comment> \<open>the free descriptors\<close>
  a_kids :: "nat \<Rightarrow> nat list"           \<comment> \<open>the children of each process\<close>
  a_det :: "nat list"                   \<comment> \<open>live processes in no queue: the running one\<close>

definition a_blocked :: "kabs \<Rightarrow> nat list" where
  "a_blocked A = concat (map snd (a_asl A))"

definition a_alive :: "kabs \<Rightarrow> nat list" where
  "a_alive A = a_lq A @ a_hq A @ a_blocked A @ a_det A"

text \<open>The lists of the heap an abstract state stands for.\<close>

fun L_of :: "kabs \<Rightarrow> lmap" where
  "L_of A PcbFreeH = Some (map PList (a_free A))"
| "L_of A LQueue = Some (map PList (a_lq A))"
| "L_of A HQueue = Some (map PList (a_hq A))"
| "L_of A SemdH = Some (map SLink (map fst (a_asl A)))"
| "L_of A SemdFree = Some (map SLink (a_sfree A))"
| "L_of A (SProcq i) =
     (case map_of (a_asl A) i of
        Some q \<Rightarrow> Some (map PList q)
      | None \<Rightarrow> if i \<in> set (a_sfree A) then Some [] else None)"
| "L_of A (PChild p) = (if p \<in> set (a_alive A) then Some (map PSib (a_kids A p)) else None)"
| "L_of A (PList p) = (if p \<in> set (a_det A) then Some [] else None)"
| "L_of A _ = None"

section \<open>The invariant\<close>

text \<open>Every PCB is in exactly one place, and every descriptor too; no active descriptor has
  an empty queue.\<close>

definition pcbs_wf :: "kabs \<Rightarrow> bool" where
  "pcbs_wf A \<longleftrightarrow> distinct (a_free A @ a_alive A) \<and> set (a_free A @ a_alive A) = {..<MAXPROC}"

definition semds_wf :: "kabs \<Rightarrow> bool" where
  "semds_wf A \<longleftrightarrow>
     distinct (map fst (a_asl A) @ a_sfree A) \<and> set (map fst (a_asl A) @ a_sfree A) = {..<MAXPROC} \<and>
     (\<forall>iq\<in>set (a_asl A). snd iq \<noteq> [])"

text \<open>The blocked processes, and only they, name the semaphore they wait on.\<close>

definition sem_ok :: "'h kst \<Rightarrow> kabs \<Rightarrow> bool" where
  "sem_ok s A \<longleftrightarrow>
     distinct (map (\<lambda>iq. s_key s (fst iq)) (a_asl A)) \<and>
     (\<forall>iq\<in>set (a_asl A). s_key s (fst iq) \<noteq> NULL \<and>
        (\<forall>p\<in>set (snd iq). p_semAdd (pcbs s p) = s_key s (fst iq))) \<and>
     (\<forall>p\<in>set (a_free A @ a_lq A @ a_hq A @ a_det A). p_semAdd (pcbs s p) = NULL)"

text \<open>Parent pointers and child lists agree, stay among the live processes, and make a forest.\<close>

definition tree_rel :: "'h kst \<Rightarrow> kabs \<Rightarrow> (nat \<times> nat) set" where
  "tree_rel s A = {(p, c). c \<in> set (a_alive A) \<and> p_parent (pcbs s c) = Some p}"

definition tree_ok :: "'h kst \<Rightarrow> kabs \<Rightarrow> bool" where
  "tree_ok s A \<longleftrightarrow>
     (\<forall>p\<in>set (a_alive A). \<forall>c. c \<in> set (a_kids A p) \<longleftrightarrow> (p, c) \<in> tree_rel s A) \<and>
     (\<forall>p c. (p, c) \<in> tree_rel s A \<longrightarrow> p \<in> set (a_alive A)) \<and>
     acyclic (tree_rel s A)"

text \<open>The PID of a live process is its address; a free PCB still has the PID of its last use,
  or the zero of a PCB never used.\<close>

definition pid_ok :: "'h plat \<Rightarrow> 'h kst \<Rightarrow> kabs \<Rightarrow> bool" where
  "pid_ok U s A \<longleftrightarrow>
     (\<forall>p\<in>set (a_alive A). p_pid (pcbs s p) = pcb_addr U p) \<and>
     (\<forall>p\<in>set (a_free A). p_pid (pcbs s p) \<in> {0, pcb_addr U p})"

definition krep :: "'h plat \<Rightarrow> 'h kst \<Rightarrow> kabs \<Rightarrow> bool" where
  "krep U s A \<longleftrightarrow> pcbs_wf A \<and> semds_wf A \<and> lists_rep (lh s) (L_of A) \<and> sem_ok s A \<and>
     tree_ok s A \<and> pid_ok U s A"

definition kcnt :: "'h kst \<Rightarrow> kabs \<Rightarrow> bool" where
  "kcnt s A \<longleftrightarrow> procs_count s = of_nat (length (a_alive A)) \<and> sb_procs s = of_nat (length (a_blocked A))"

text \<open>A ready process is in the queue of its priority.\<close>

definition prio_ok :: "'h kst \<Rightarrow> kabs \<Rightarrow> bool" where
  "prio_ok s A \<longleftrightarrow> (\<forall>p\<in>set (a_lq A). p_prio (pcbs s p) = PROCESS_PRIO_LOW) \<and>
     (\<forall>p\<in>set (a_hq A). p_prio (pcbs s p) = PROCESS_PRIO_HIGH)"

definition kinv :: "'h plat \<Rightarrow> 'h kst \<Rightarrow> kabs \<Rightarrow> bool" where
  "kinv U s A \<longleftrightarrow> krep U s A \<and> kcnt s A \<and> prio_ok s A"

text \<open>
  What the layout must give: the PCB table, and the address one past its end, fit in the
  address space above zero and below \<open>NULL\<close>, and \<open>p_s\<close> is inside the PCB.
\<close>

definition layout_ok :: "'h plat \<Rightarrow> bool" where
  "layout_ok U \<longleftrightarrow> 0 < unat (pcb_base U) \<and> 0 < unat (sizeof_pcb U) \<and>
     unat (pcb_base U) + MAXPROC * unat (sizeof_pcb U) < unat NULL \<and>
     unat (offset_p_s U) < unat (sizeof_pcb U)"

lemma layout_lt:
  assumes "layout_ok U" and "i \<le> MAXPROC"
  shows "unat (pcb_base U) + i * unat (sizeof_pcb U) < unat NULL"
  using assms(1) mult_le_mono1[OF assms(2), of "unat (sizeof_pcb U)"] unfolding layout_ok_def by linarith

lemma pcb_addr_unat:
  assumes "layout_ok U" and "i \<le> MAXPROC"
  shows "unat (pcb_addr U i) = unat (pcb_base U) + i * unat (sizeof_pcb U)"
proof -
  have lt: "unat (pcb_base U) + i * unat (sizeof_pcb U) < 2 ^ 32"
    using less_trans[OF layout_lt[OF assms] unsigned_less[of NULL]] by simp
  have "pcb_addr U i = of_nat (unat (pcb_base U) + i * unat (sizeof_pcb U))"
    by (simp add: pcb_addr_def)
  then have "unat (pcb_addr U i) = (unat (pcb_base U) + i * unat (sizeof_pcb U)) mod 2 ^ 32"
    by (simp only: unat_of_nat) simp
  then show ?thesis using lt by simp
qed

lemma pcb_addr_inj:
  assumes "layout_ok U" and "i \<le> MAXPROC" and "j \<le> MAXPROC" and "pcb_addr U i = pcb_addr U j"
  shows "i = j"
proof -
  have "i * unat (sizeof_pcb U) = j * unat (sizeof_pcb U)"
    using pcb_addr_unat[OF assms(1,2)] pcb_addr_unat[OF assms(1,3)] assms(4) by (metis add_left_cancel)
  moreover have "unat (sizeof_pcb U) \<noteq> 0" using assms(1) by (simp add: layout_ok_def)
  ultimately show ?thesis by (metis mult_cancel2)
qed

lemma pcb_addr_nonzero: "layout_ok U \<Longrightarrow> i \<le> MAXPROC \<Longrightarrow> pcb_addr U i \<noteq> 0"
  using pcb_addr_unat[of U i] by (auto simp: layout_ok_def)

lemma pcb_addr_not_NULL: "layout_ok U \<Longrightarrow> i \<le> MAXPROC \<Longrightarrow> pcb_addr U i \<noteq> NULL"
  using pcb_addr_unat[of U i] layout_lt[of U i] by (metis less_irrefl)

lemma pcb_field_not_NULL:
  assumes U: "layout_ok U" and i: "i < MAXPROC"
  shows "pcb_addr U i + offset_p_s U \<noteq> NULL"
proof -
  have a: "unat (pcb_addr U i) = unat (pcb_base U) + i * unat (sizeof_pcb U)"
    by (rule pcb_addr_unat[OF U]) (use i in simp)
  have b: "unat (pcb_base U) + Suc i * unat (sizeof_pcb U) < unat NULL"
    by (rule layout_lt[OF U]) (use i in simp)
  have c: "unat (offset_p_s U) < unat (sizeof_pcb U)" using U by (simp add: layout_ok_def)
  have lt: "unat (pcb_addr U i) + unat (offset_p_s U) < unat NULL" using a b c by simp
  then have "unat (pcb_addr U i) + unat (offset_p_s U) < 2 ^ 32"
    using less_trans[OF _ unsigned_less[of NULL]] by simp
  then have "unat (pcb_addr U i + offset_p_s U) = unat (pcb_addr U i) + unat (offset_p_s U)"
    by (simp add: unat_plus_if')
  with lt show ?thesis by (metis less_irrefl)
qed

section \<open>Facts about the abstract state\<close>

lemma krepD:
  assumes "krep U s A"
  shows "pcbs_wf A" "semds_wf A" "lists_rep (lh s) (L_of A)" "sem_ok s A" "tree_ok s A" "pid_ok U s A"
  using assms by (simp_all add: krep_def)

lemma submapI: "(\<And>h xs. L' h = Some xs \<Longrightarrow> L h = Some xs) \<Longrightarrow> L' \<subseteq>\<^sub>m L"
  by (auto simp: map_le_def)

lemma set_a_blocked: "set (a_blocked A) = (\<Union>iq\<in>set (a_asl A). set (snd iq))"
  by (simp add: a_blocked_def)

lemma set_a_alive:
  "set (a_alive A) = set (a_lq A) \<union> set (a_hq A) \<union> set (a_blocked A) \<union> set (a_det A)"
  by (auto simp: a_alive_def)

lemma alive_cases:
  assumes "p \<in> set (a_alive A)"
  obtains "p \<in> set (a_lq A)" | "p \<in> set (a_hq A)" | "p \<in> set (a_det A)"
    | i q where "(i, q) \<in> set (a_asl A)" "p \<in> set q"
  using assms by (auto simp: set_a_alive set_a_blocked)

lemma pcbs_wf_lt: "pcbs_wf A \<Longrightarrow> p \<in> set (a_alive A) \<union> set (a_free A) \<Longrightarrow> p < MAXPROC"
  unfolding pcbs_wf_def by auto

lemma pcbs_wf_free_alive: "pcbs_wf A \<Longrightarrow> p \<in> set (a_free A) \<Longrightarrow> p \<notin> set (a_alive A)"
  unfolding pcbs_wf_def by auto

lemma kids_alive: "tree_ok s A \<Longrightarrow> p \<in> set (a_alive A) \<Longrightarrow> c \<in> set (a_kids A p) \<Longrightarrow> c \<in> set (a_alive A)"
  unfolding tree_ok_def tree_rel_def by auto

text \<open>Moving PCBs around without changing which are free keeps each of them in one place.\<close>

lemma pcbs_wf_perm:
  assumes "pcbs_wf A" and "mset (a_free A' @ a_alive A') = mset (a_free A @ a_alive A)"
  shows "pcbs_wf A'"
  using assms mset_eq_imp_distinct_iff mset_eq_setD unfolding pcbs_wf_def by metis

lemma tree_ok_same:
  assumes "tree_ok s A" and "set (a_alive A') = set (a_alive A)" and "a_kids A' = a_kids A"
    and "\<And>c. c \<in> set (a_alive A) \<Longrightarrow> p_parent (pcbs s' c) = p_parent (pcbs s c)"
  shows "tree_ok s' A'"
proof -
  have "tree_rel s' A' = tree_rel s A" using assms(2,4) by (auto simp: tree_rel_def)
  with assms show ?thesis by (simp add: tree_ok_def)
qed

lemma pid_ok_same:
  assumes "pid_ok U s A" and "set (a_alive A') = set (a_alive A)" and "set (a_free A') = set (a_free A)"
    and "\<And>c. p_pid (pcbs s' c) = p_pid (pcbs s c)"
  shows "pid_ok U s' A'"
  using assms by (simp add: pid_ok_def)

text \<open>What a node can be linked to.\<close>

lemma L_of_PList_member:
  assumes "L_of A h = Some xs" and "PList p \<in> set xs"
  shows "p \<in> set (a_free A) \<union> set (a_lq A) \<union> set (a_hq A) \<union> set (a_blocked A)"
  using assms
  by (cases h) (auto simp: set_a_blocked split: if_splits option.splits dest!: map_of_SomeD
      intro: bexI[where x = "(_, _)"])

lemma det_unlinked:
  assumes "pcbs_wf A" and "p \<in> set (a_det A)"
  shows "unlinked (L_of A) (PList p)"
proof -
  have "p \<notin> set (a_free A) \<union> set (a_lq A) \<union> set (a_hq A) \<union> set (a_blocked A)"
    using assms unfolding pcbs_wf_def a_alive_def by auto
  then show ?thesis using L_of_PList_member by (fastforce simp: unlinked_def split: if_splits)
qed

lemma sib_unlinked:
  assumes "tree_ok s A" and "p \<notin> set (a_alive A)"
  shows "unlinked (L_of A) (PSib p)"
proof -
  have "PSib p \<notin> set xs" if "L_of A h = Some xs" for h xs
    using that assms kids_alive[OF assms(1)] by (cases h) (auto split: if_splits option.splits)
  then show ?thesis by (auto simp: unlinked_def)
qed

lemma child_unlinked: "p \<notin> set (a_alive A) \<Longrightarrow> unlinked (L_of A) (PChild p)"
proof -
  assume "p \<notin> set (a_alive A)"
  moreover have "PChild p \<notin> set xs" if "L_of A h = Some xs" for h xs
    using that by (cases h) (auto split: if_splits option.splits)
  ultimately show ?thesis by (auto simp: unlinked_def)
qed

text \<open>Updates of fields the invariant does not read.\<close>

lemma krep_cong:
  assumes "krep U s A" and "lh s' = lh s" and "s_key s' = s_key s"
    and "\<And>p. p_semAdd (pcbs s' p) = p_semAdd (pcbs s p)"
    and "\<And>p. p_parent (pcbs s' p) = p_parent (pcbs s p)"
    and "\<And>p. p_pid (pcbs s' p) = p_pid (pcbs s p)"
  shows "krep U s' A"
proof -
  have "tree_ok s' A" using assms(1,5) tree_ok_same krepD(5) by metis
  moreover have "pid_ok U s' A" using assms(1,6) pid_ok_same krepD(6) by metis
  moreover have "sem_ok s' A" using krepD(4)[OF assms(1)] assms(3,4) by (simp add: sem_ok_def)
  ultimately show ?thesis using assms(1,2) by (simp add: krep_def)
qed

lemma kinv_cong:
  assumes "kinv U s A" and "lh s' = lh s" and "s_key s' = s_key s"
    and "\<And>p. p_semAdd (pcbs s' p) = p_semAdd (pcbs s p)"
    and "\<And>p. p_parent (pcbs s' p) = p_parent (pcbs s p)"
    and "\<And>p. p_pid (pcbs s' p) = p_pid (pcbs s p)"
    and "\<And>p. p_prio (pcbs s' p) = p_prio (pcbs s p)"
    and "procs_count s' = procs_count s" and "sb_procs s' = sb_procs s"
  shows "kinv U s' A"
  using assms krep_cong[of U s A s'] by (simp add: kinv_def kcnt_def prio_ok_def)

end
