(* ===== verification/Asl.thy ===== *)
theory Asl
  imports Kabs
begin

text \<open>
  \<open>src/asl.c\<close>: the active semaphore list. A descriptor is active exactly while a process
  waits on its key. The operations are shown to act on the abstract state as on a map from
  keys to first-in first-out queues, and never to run out of descriptors.
\<close>

section \<open>The operations of asl.c\<close>

text \<open>\<open>semd_h\<close> and \<open>semd_free_h\<close> point to \<open>semd\<close> and \<open>semd_free\<close> from \<open>init_asl\<close> on.\<close>

definition get_semd :: "u32 \<Rightarrow> (nat option, 'h) km" where
  "get_semd key =
     klist_for_each SemdH
       (\<lambda>iter s. case container_s_link iter of
                   None \<Rightarrow> Some (Stop Wild s)
                 | Some tmp \<Rightarrow> if s_key s tmp = key then Some (Ret (Some tmp) s) else None)
       (kreturn None)"

definition set_key :: "nat \<Rightarrow> u32 \<Rightarrow> 'h kst \<Rightarrow> 'h kst" where
  "set_key i k s = s\<lparr>s_key := (s_key s)(i := k)\<rparr>"

definition insert_blocked :: "u32 \<Rightarrow> nat \<Rightarrow> (bool, 'h) km" where
  "insert_blocked semAdd p =
     kbind (get_semd semAdd) (\<lambda>sd s.
       let finish = (\<lambda>s. Ret False (upd_pcb p (\<lambda>q. q\<lparr>p_semAdd := semAdd\<rparr>) s))
       in case sd of
            None \<Rightarrow>
              if list_empty SemdFree (lh s) then Ret True s
              else (case container_s_link (nxt (lh s) SemdFree) of
                      None \<Rightarrow> Stop Wild s
                    | Some tmp \<Rightarrow>
                        let s1 = set_key tmp semAdd s;
                            s2 = upd_lh (list_del (nxt (lh s1) SemdFree)) s1;
                            s3 = upd_lh (list_add (SLink tmp) SemdH) s2;
                            s4 = upd_lh (INIT_LIST_HEAD (SProcq tmp)) s3
                        in finish (insert_proc_q (SProcq tmp) p s4))
          | Some sem \<Rightarrow> finish (insert_proc_q (SProcq sem) p s))"

definition remove_blocked :: "u32 \<Rightarrow> (nat option, 'h) km" where
  "remove_blocked semAdd =
     kbind (get_semd semAdd) (\<lambda>sd.
       case sd of
         None \<Rightarrow> kreturn None
       | Some sem \<Rightarrow>
           kbind (remove_proc_q (SProcq sem)) (\<lambda>pcb.
             case pcb of
               None \<Rightarrow> kstop Wild
             | Some p \<Rightarrow>
                 kseq (kmodify (upd_pcb p (\<lambda>q. q\<lparr>p_semAdd := NULL\<rparr>)))
                  (\<lambda>s. if list_empty (SProcq sem) (lh s)
                       then Ret (Some p)
                              (upd_lh (list_add (SLink sem) SemdFree) (upd_lh (list_del (SLink sem)) s))
                       else Ret (Some p) s)))"

definition out_blocked :: "nat option \<Rightarrow> (nat option, 'h) km" where
  "out_blocked po = (\<lambda>s.
     case po of
       None \<Rightarrow> Ret None s
     | Some p \<Rightarrow>
         if p_semAdd (pcbs s p) = NULL then Ret None s
         else kbind (get_semd (p_semAdd (pcbs s p))) (\<lambda>sd.
                case sd of
                  None \<Rightarrow> kreturn None
                | Some sem \<Rightarrow>
                    kseq (kmodify (upd_pcb p (\<lambda>q. q\<lparr>p_semAdd := NULL\<rparr>)))
                    (kbind (out_proc_q (SProcq sem) p) (\<lambda>pcb.
                      case pcb of
                        None \<Rightarrow> kreturn None
                      | Some r \<Rightarrow> (\<lambda>s.
                          if list_empty (SProcq sem) (lh s)
                          then Ret (Some r)
                                 (upd_lh (list_add_tail (SLink sem) SemdFree)
                                   (upd_lh (list_del (SLink sem)) s))
                          else Ret (Some r) s)))) s)"

definition head_blocked :: "u32 \<Rightarrow> (nat option, 'h) km" where
  "head_blocked semAdd =
     kbind (get_semd semAdd) (\<lambda>sd s.
       case sd of
         None \<Rightarrow> Ret None s
       | Some sem \<Rightarrow>
           if list_empty (SProcq sem) (lh s) then Ret None s
           else case container_p_list (nxt (lh s) (SProcq sem)) of
                  None \<Rightarrow> Stop Wild s
                | Some p \<Rightarrow> Ret (Some p) s)"

definition init_asl :: "'h kst \<Rightarrow> 'h kst" where
  "init_asl s =
     fold (\<lambda>i s. upd_lh (list_add_tail (SLink i) SemdFree)
                   (upd_lh (INIT_LIST_HEAD (SProcq i)) (upd_lh (INIT_LIST_HEAD (SLink i)) s)))
       [0..<MAXPROC] (upd_lh (INIT_LIST_HEAD SemdFree) (upd_lh (INIT_LIST_HEAD SemdH) s))"

lemma set_key_sel [simp]:
  "lh (set_key i k s) = lh s" "pcbs (set_key i k s) = pcbs s" "s_key (set_key i k s) = (s_key s)(i := k)"
  "act_proc (set_key i k s) = act_proc s" "yielded_proc (set_key i k s) = yielded_proc s"
  "sb_procs (set_key i k s) = sb_procs s" "procs_count (set_key i k s) = procs_count s"
  "mem (set_key i k s) = mem s" "states (set_key i k s) = states s" "supports (set_key i k s) = supports s"
  "hw (set_key i k s) = hw s" "klogb (set_key i k s) = klogb s"
  by (simp_all add: set_key_def)

text \<open>The fields of the kernel state that \<open>asl.c\<close> and \<open>pcb.c\<close> never write.\<close>

definition same_env :: "'h kst \<Rightarrow> 'h kst \<Rightarrow> bool" where
  "same_env s s' \<longleftrightarrow> act_proc s' = act_proc s \<and> yielded_proc s' = yielded_proc s \<and>
     sb_procs s' = sb_procs s \<and> procs_count s' = procs_count s \<and> mem s' = mem s \<and>
     states s' = states s \<and> supports s' = supports s \<and> hw s' = hw s \<and> klogb s' = klogb s"

section \<open>Association lists of queues\<close>

definition asl_upd :: "nat \<Rightarrow> (nat list \<Rightarrow> nat list) \<Rightarrow> (nat \<times> nat list) list \<Rightarrow> (nat \<times> nat list) list" where
  "asl_upd i f asl = map (\<lambda>(j, q). (j, if j = i then f q else q)) asl"

definition asl_del :: "nat \<Rightarrow> (nat \<times> nat list) list \<Rightarrow> (nat \<times> nat list) list" where
  "asl_del i asl = filter (\<lambda>iq. fst iq \<noteq> i) asl"

lemma asl_upd_fst [simp]: "map fst (asl_upd i f asl) = map fst asl"
  by (induction asl) (auto simp: asl_upd_def)

lemma map_of_asl_upd [simp]: "map_of (asl_upd i f asl) = (map_of asl)(i := map_option f (map_of asl i))"
  by (rule ext, induction asl) (auto simp: asl_upd_def)

lemma map_of_asl_del [simp]: "map_of (asl_del i asl) = (map_of asl)(i := None)"
  by (rule ext, induction asl) (auto simp: asl_del_def)

lemma asl_split:
  assumes "distinct (map fst asl)" and "(i, q) \<in> set asl"
  obtains as bs where "asl = as @ (i, q) # bs" and "i \<notin> fst ` set as" and "i \<notin> fst ` set bs"
    and "\<And>f. asl_upd i f asl = as @ (i, f q) # bs" and "asl_del i asl = as @ bs"
    and "map_of asl i = Some q"
proof -
  obtain as bs where s: "asl = as @ (i, q) # bs" using assms(2) by (meson split_list)
  with assms(1) have n: "i \<notin> fst ` set as" "i \<notin> fst ` set bs" by auto
  have "map (\<lambda>(j, r). (j, if j = i then f r else r)) xs = xs" if "i \<notin> fst ` set xs"
    for f :: "nat list \<Rightarrow> nat list" and xs :: "(nat \<times> nat list) list"
    using that by (intro map_idI) (auto simp: image_iff)
  then have u: "asl_upd i f asl = as @ (i, f q) # bs" for f using n by (simp add: s asl_upd_def)
  have "filter (\<lambda>iq. fst iq \<noteq> i) xs = xs" if "i \<notin> fst ` set xs" for xs :: "(nat \<times> nat list) list"
    using that by (auto simp: filter_id_conv)
  then have d: "asl_del i asl = as @ bs" using n by (simp add: s asl_del_def)
  have "map_of asl i = Some q" using assms by simp
  with s n u d that show ?thesis by blast
qed

section \<open>Finding a descriptor\<close>

definition semd_of :: "'h kst \<Rightarrow> kabs \<Rightarrow> u32 \<Rightarrow> (nat \<times> nat list) option" where
  "semd_of s A k = find (\<lambda>iq. s_key s (fst iq) = k) (a_asl A)"

text \<open>The abstract value of a semaphore key: its queue of waiting processes.\<close>

definition waiting :: "'h kst \<Rightarrow> kabs \<Rightarrow> u32 \<Rightarrow> nat list" where
  "waiting s A k = (case semd_of s A k of None \<Rightarrow> [] | Some iq \<Rightarrow> snd iq)"

lemma semd_of_None: "semd_of s A k = None \<longleftrightarrow> (\<forall>iq\<in>set (a_asl A). s_key s (fst iq) \<noteq> k)"
  by (auto simp: semd_of_def find_None_iff)

lemma semd_of_SomeD: "semd_of s A k = Some iq \<Longrightarrow> iq \<in> set (a_asl A) \<and> s_key s (fst iq) = k"
  by (auto simp: semd_of_def find_Some_iff)

lemma semd_of_member:
  assumes "sem_ok s A" and "iq \<in> set (a_asl A)"
  shows "semd_of s A (s_key s (fst iq)) = Some iq"
proof -
  have d: "distinct (map (\<lambda>iq. s_key s (fst iq)) (a_asl A))" using assms(1) by (simp add: sem_ok_def)
  obtain jr where jr: "semd_of s A (s_key s (fst iq)) = Some jr"
    using assms(2) by (cases "semd_of s A (s_key s (fst iq))") (auto simp: semd_of_None)
  then have "jr \<in> set (a_asl A)" "s_key s (fst jr) = s_key s (fst iq)" using semd_of_SomeD by fast+
  with d assms(2) have "jr = iq" by (simp add: distinct_map inj_on_def)
  with jr show ?thesis by simp
qed

lemma get_semd_run:
  assumes "krep U s A"
  shows "get_semd k s = Ret (map_option fst (semd_of s A k)) s"
proof -
  have h: "L_of A SemdH = Some (map (SLink \<circ> fst) (a_asl A))" by simp
  have fs: "first_some (\<lambda>iq. if s_key s (fst iq) = k then Some (Ret (Some (fst iq)) s) else None) xs
      = map_option (\<lambda>iq. Ret (Some (fst iq)) s) (find (\<lambda>iq. s_key s (fst iq) = k) xs)"
    for xs :: "(nat \<times> nat list) list"
    by (induction xs) auto
  show ?thesis
    unfolding get_semd_def klist_for_each_run[OF krepD(3)[OF assms] h]
    by (auto simp: first_some_map o_def semd_of_def fs run_simps split: option.split)
qed

section \<open>The pool of descriptors never runs out\<close>

lemma length_asl_le_blocked: "\<forall>iq\<in>set asl. snd iq \<noteq> [] \<Longrightarrow> length asl \<le> length (concat (map snd asl))"
proof (induction asl)
  case (Cons iq asl)
  then have "1 \<le> length (snd iq)" by (simp add: Suc_le_eq)
  with Cons show ?case by simp
qed simp

lemma sfree_nonempty:
  assumes "pcbs_wf A" and "semds_wf A" and "a_det A \<noteq> []"
  shows "a_sfree A \<noteq> []"
proof
  assume "a_sfree A = []"
  then have d: "distinct (map fst (a_asl A))" "set (map fst (a_asl A)) = {..<MAXPROC}"
    and ne: "\<forall>iq\<in>set (a_asl A). snd iq \<noteq> []"
    using assms(2) by (auto simp: semds_wf_def)
  have "length (map fst (a_asl A)) = MAXPROC" using distinct_card[OF d(1)] d(2) by simp
  then have "MAXPROC \<le> length (a_blocked A)"
    using length_asl_le_blocked[OF ne] by (simp add: a_blocked_def)
  moreover have "length (a_free A @ a_alive A) = MAXPROC"
    using distinct_card[of "a_free A @ a_alive A"] assms(1) by (simp only: pcbs_wf_def) simp
  moreover have "0 < length (a_det A)" using assms(3) by simp
  ultimately show False unfolding a_alive_def length_append by linarith
qed

section \<open>Blocking\<close>

definition a_block :: "'h kst \<Rightarrow> u32 \<Rightarrow> nat \<Rightarrow> kabs \<Rightarrow> kabs" where
  "a_block s k p A =
     (case semd_of s A k of
        Some iq \<Rightarrow> A\<lparr>a_asl := asl_upd (fst iq) (\<lambda>q. q @ [p]) (a_asl A), a_det := remove1 p (a_det A)\<rparr>
      | None \<Rightarrow> A\<lparr>a_asl := (hd (a_sfree A), [p]) # a_asl A, a_sfree := tl (a_sfree A),
                  a_det := remove1 p (a_det A)\<rparr>)"

lemma procq_not_member: "L_of A h = Some xs \<Longrightarrow> SProcq i \<notin> set xs"
  by (cases h) (auto split: if_splits option.splits)

lemma asl_queue_of:
  assumes "semds_wf A" and "iq \<in> set (a_asl A)"
  shows "L_of A (SProcq (fst iq)) = Some (map PList (snd iq))" and "fst iq \<notin> set (a_sfree A)"
proof -
  have "map_of (a_asl A) (fst iq) = Some (snd iq)"
    using assms by (intro map_of_is_SomeI) (auto simp: semds_wf_def)
  then show "L_of A (SProcq (fst iq)) = Some (map PList (snd iq))" by simp
  show "fst iq \<notin> set (a_sfree A)" using assms by (auto simp: semds_wf_def)
qed

text \<open>The abstract effect of blocking, on each part of the invariant.\<close>

lemma a_block_cases:
  assumes "semds_wf A" and "semd_of s A k = Some (i, q)"
  obtains as bs where "a_asl A = as @ (i, q) # bs" and "i \<notin> fst ` set as" and "i \<notin> fst ` set bs"
    and "a_asl (a_block s k p A) = as @ (i, q @ [p]) # bs"
proof (rule asl_split)
  show "distinct (map fst (a_asl A))" using assms(1) by (simp add: semds_wf_def)
  show "(i, q) \<in> set (a_asl A)" using semd_of_SomeD[OF assms(2)] by simp
  fix as bs
  assume "a_asl A = as @ (i, q) # bs" "i \<notin> fst ` set as" "i \<notin> fst ` set bs"
    and "\<And>f. asl_upd i f (a_asl A) = as @ (i, f q) # bs"
  then show ?thesis using that[of as bs] assms(2) by (simp add: a_block_def)
qed

lemma a_block_sel [simp]:
  "a_free (a_block s k p A) = a_free A" "a_lq (a_block s k p A) = a_lq A" "a_hq (a_block s k p A) = a_hq A"
  "a_kids (a_block s k p A) = a_kids A" "a_det (a_block s k p A) = remove1 p (a_det A)"
  by (simp_all add: a_block_def split: option.split)

lemma a_block_blocked:
  assumes "semds_wf A"
  shows "mset (a_blocked (a_block s k p A)) = add_mset p (mset (a_blocked A))"
proof (cases "semd_of s A k")
  case None
  then show ?thesis by (simp add: a_block_def a_blocked_def)
next
  case (Some iq)
  then obtain as bs where "a_asl A = as @ iq # bs" "a_asl (a_block s k p A) = as @ (fst iq, snd iq @ [p]) # bs"
    using a_block_cases[OF assms, of s k "fst iq" "snd iq" p] by (metis prod.collapse)
  then show ?thesis by (simp add: a_blocked_def)
qed

lemma a_block_alive:
  assumes "semds_wf A" and "p \<in> set (a_det A)"
  shows "mset (a_alive (a_block s k p A)) = mset (a_alive A)"
  using assms by (simp add: a_alive_def a_block_blocked mset_remove1)

lemma a_block_pcbs_wf: "pcbs_wf A \<Longrightarrow> semds_wf A \<Longrightarrow> p \<in> set (a_det A) \<Longrightarrow> pcbs_wf (a_block s k p A)"
  by (rule pcbs_wf_perm) (simp_all add: a_block_alive)

lemma a_block_semds_wf:
  assumes "pcbs_wf A" and "semds_wf A" and "p \<in> set (a_det A)"
  shows "semds_wf (a_block s k p A)"
proof (cases "semd_of s A k")
  case None
  have "a_det A \<noteq> []" using assms(3) by auto
  then have "a_sfree A \<noteq> []" by (rule sfree_nonempty[OF assms(1,2)])
  then obtain i sf where "a_sfree A = i # sf" by (cases "a_sfree A") auto
  with None assms(2) show ?thesis by (auto simp: a_block_def semds_wf_def)
next
  case (Some iq)
  then obtain as bs where "a_asl A = as @ (fst iq, snd iq) # bs"
    "a_asl (a_block s k p A) = as @ (fst iq, snd iq @ [p]) # bs"
    using a_block_cases[OF assms(2), of s k "fst iq" "snd iq" p] by (metis prod.collapse)
  moreover have "a_sfree (a_block s k p A) = a_sfree A" using Some by (simp add: a_block_def)
  ultimately show ?thesis using assms(2) by (simp add: semds_wf_def)
qed

lemma det_not_elsewhere:
  assumes "pcbs_wf A" and "p \<in> set (a_det A)"
  shows "p \<notin> set (a_free A)" "p \<notin> set (a_lq A)" "p \<notin> set (a_hq A)" "p \<notin> set (a_blocked A)"
    "set (remove1 p (a_det A)) = set (a_det A) - {p}" "p < MAXPROC" "p \<in> set (a_alive A)"
  using assms by (auto simp: pcbs_wf_def a_alive_def)

lemma sem_ok_block:
  assumes sem: "sem_ok s A" and wf: "pcbs_wf A" "semds_wf A" and p: "p \<in> set (a_det A)" and k: "k \<noteq> NULL"
    and keys: "s_key s' = (case semd_of s A k of None \<Rightarrow> (s_key s)(hd (a_sfree A) := k) | Some _ \<Rightarrow> s_key s)"
    and pcbs: "pcbs s' = (pcbs s)(p := (pcbs s p)\<lparr>p_semAdd := k\<rparr>)"
  shows "sem_ok s' (a_block s k p A)"
proof -
  note d = det_not_elsewhere[OF wf(1) p]
  have nb: "\<And>iq. iq \<in> set (a_asl A) \<Longrightarrow> p \<notin> set (snd iq)" using d(4) by (auto simp: set_a_blocked)
  have rest: "\<forall>x\<in>set (a_free A @ a_lq A @ a_hq A @ remove1 p (a_det A)). p_semAdd (pcbs s' x) = NULL"
  proof
    fix x assume x: "x \<in> set (a_free A @ a_lq A @ a_hq A @ remove1 p (a_det A))"
    then have "x \<noteq> p" using d by auto
    moreover have "x \<in> set (a_free A @ a_lq A @ a_hq A @ a_det A)" using x by (auto dest: notin_set_remove1)
    ultimately show "p_semAdd (pcbs s' x) = NULL" using sem by (simp add: pcbs sem_ok_def)
  qed
  show ?thesis
  proof (cases "semd_of s A k")
    case None
    have "a_det A \<noteq> []" using p by auto
    then have sf: "hd (a_sfree A) \<in> set (a_sfree A)" using sfree_nonempty[OF wf] by simp
    then have fresh: "\<And>iq. iq \<in> set (a_asl A) \<Longrightarrow> fst iq \<noteq> hd (a_sfree A)"
      using wf(2) asl_queue_of(2) by metis
    have same: "map (\<lambda>iq. s_key s' (fst iq)) (a_asl A) = map (\<lambda>iq. s_key s (fst iq)) (a_asl A)"
      and same': "\<And>iq. iq \<in> set (a_asl A) \<Longrightarrow> s_key s' (fst iq) = s_key s (fst iq)"
      using fresh None by (simp_all add: keys)
    have new: "s_key s' (hd (a_sfree A)) = k" using None by (simp add: keys)
    have nk: "\<forall>iq\<in>set (a_asl A). s_key s (fst iq) \<noteq> k" using None by (simp add: semd_of_None)
    have asl: "a_asl (a_block s k p A) = (hd (a_sfree A), [p]) # a_asl A"
      using None by (simp add: a_block_def)
    show ?thesis
      using sem k nb rest nk unfolding sem_ok_def asl
      by (auto simp: same same' new pcbs)
  next
    case (Some iq)
    then obtain as bs where dec: "a_asl A = as @ (fst iq, snd iq) # bs"
      "a_asl (a_block s k p A) = as @ (fst iq, snd iq @ [p]) # bs"
      using a_block_cases[OF wf(2), of s k "fst iq" "snd iq" p] by (metis prod.collapse)
    have "s_key s (fst iq) = k" using semd_of_SomeD[OF Some] by simp
    then show ?thesis
      using sem k nb rest Some unfolding sem_ok_def by (auto simp: dec keys pcbs)
  qed
qed

lemma tree_pid_block:
  assumes "tree_ok s A" and "pid_ok U s A" and "semds_wf A" and "p \<in> set (a_det A)"
    and "\<And>x. p_parent (pcbs s' x) = p_parent (pcbs s x)" and "\<And>x. p_pid (pcbs s' x) = p_pid (pcbs s x)"
  shows "tree_ok s' (a_block s k p A)" and "pid_ok U s' (a_block s k p A)"
proof -
  have al: "set (a_alive (a_block s k p A)) = set (a_alive A)"
    using a_block_alive[OF assms(3,4)] mset_eq_setD by blast
  show "tree_ok s' (a_block s k p A)" by (rule tree_ok_same[OF assms(1) al]) (simp_all add: assms)
  show "pid_ok U s' (a_block s k p A)" by (rule pid_ok_same[OF assms(2) al]) (simp_all add: assms)
qed

text \<open>The heap after the two ways of blocking.\<close>

lemma block_rep_old:
  assumes "krep U s A" and "p \<in> set (a_det A)" and "semd_of s A k = Some iq"
  shows "lists_rep (lh (insert_proc_q (SProcq (fst iq)) p s)) (L_of (a_block s k p A))"
proof -
  note wf = krepD(1,2)[OF assms(1)]
  have iq: "iq \<in> set (a_asl A)" using semd_of_SomeD[OF assms(3)] by simp
  have m: "map_of (a_asl A) (fst iq) = Some (snd iq)"
    using iq wf(2) by (intro map_of_is_SomeI) (auto simp: semds_wf_def)
  have rep: "lists_rep (lh (insert_proc_q (SProcq (fst iq)) p s))
      ((L_of A)(PList p := None, SProcq (fst iq) := Some (map PList (snd iq) @ [PList p])))"
    by (rule insert_proc_q_rep[OF krepD(3)[OF assms(1)] asl_queue_of(1)[OF wf(2) iq] det_unlinked[OF wf(1) assms(2)]]) simp
  have al: "set (a_alive (a_block s k p A)) = set (a_alive A)"
    using a_block_alive[OF wf(2) assms(2)] mset_eq_setD by blast
  show ?thesis
  proof (rule lists_rep_submap[OF rep], rule submapI)
    fix h xs assume h: "L_of (a_block s k p A) h = Some xs"
    show "((L_of A)(PList p := None, SProcq (fst iq) := Some (map PList (snd iq) @ [PList p]))) h = Some xs"
      using h m al assms(3) det_not_elsewhere(5)[OF wf(1) assms(2)]
      by (cases h) (auto simp: a_block_def split: if_splits option.splits)
  qed
qed

lemma block_rep_new:
  assumes k: "krep U s A" and p: "p \<in> set (a_det A)" and none: "semd_of s A k = None"
    and sf: "a_sfree A = i # sf"
  shows "lists_rep (lh (insert_proc_q (SProcq i) p (upd_lh (INIT_LIST_HEAD (SProcq i))
      (upd_lh (list_add (SLink i) SemdH) (upd_lh (list_del (SLink i)) s))))) (L_of (a_block s k p A))"
proof -
  note wf = krepD(1,2)[OF k]
  let ?L1 = "(L_of A)(SemdFree := Some (map SLink sf), SLink i := None, SemdH := Some (SLink i # map (SLink \<circ> fst) (a_asl A)))"
  have "lists_rep (list_add (SLink i) SemdH (list_del (SLink i) (lh s))) ?L1"
    using lx.move_front[of "lh s" "L_of A" SemdFree "map SLink (i # sf)" "SLink i" SemdH] krepD(3)[OF k] sf
    by simp
  moreover have "unlinked ?L1 (SProcq i)"
  proof -
    have "map_of (a_asl A) i = None" using asl_queue_of(2)[OF wf(2)] sf by (force simp: map_of_eq_None_iff)
    then show ?thesis using procq_not_member[of A _ _ i] by (auto simp: unlinked_def)
  qed
  ultimately have r2: "lists_rep (lh (upd_lh (INIT_LIST_HEAD (SProcq i))
      (upd_lh (list_add (SLink i) SemdH) (upd_lh (list_del (SLink i)) s)))) (?L1(SProcq i := Some []))"
    by (simp add: lx.init_law)
  have u: "unlinked (?L1(SProcq i := Some [])) (PList p)"
    using det_unlinked[OF wf(1) p] by (auto simp: unlinked_def)
  have rep: "lists_rep (lh (insert_proc_q (SProcq i) p (upd_lh (INIT_LIST_HEAD (SProcq i))
      (upd_lh (list_add (SLink i) SemdH) (upd_lh (list_del (SLink i)) s)))))
      (?L1(SProcq i := Some [], PList p := None, SProcq i := Some ([] @ [PList p])))"
    by (rule insert_proc_q_rep[OF r2 _ u]) simp_all
  have al: "set (a_alive (a_block s k p A)) = set (a_alive A)"
    using a_block_alive[OF wf(2) p] mset_eq_setD by blast
  show ?thesis
  proof (rule lists_rep_submap[OF rep], rule submapI)
    fix h xs assume h: "L_of (a_block s k p A) h = Some xs"
    show "(?L1(SProcq i := Some [], PList p := None, SProcq i := Some ([] @ [PList p]))) h = Some xs"
      using h al none sf det_not_elsewhere(5)[OF wf(1) p]
      by (cases h) (auto simp: a_block_def split: if_splits option.splits)
  qed
qed

theorem insert_blocked_refines:
  assumes k: "krep U s A" and p: "p \<in> set (a_det A)" and key: "k \<noteq> NULL"
  obtains s' where "insert_blocked k p s = Ret False s'" and "krep U s' (a_block s k p A)" and "same_env s s'"
    and "pcbs s' = (pcbs s)(p := (pcbs s p)\<lparr>p_semAdd := k\<rparr>)"
    and "s_key s' = (case semd_of s A k of None \<Rightarrow> (s_key s)(hd (a_sfree A) := k) | Some _ \<Rightarrow> s_key s)"
proof -
  note K = krepD[OF k] and concl = that
  have fin: "thesis" if run: "insert_blocked k p s = Ret False s'"
    and rep: "lists_rep (lh s') (L_of (a_block s k p A))" and env: "same_env s s'"
    and pc: "pcbs s' = (pcbs s)(p := (pcbs s p)\<lparr>p_semAdd := k\<rparr>)"
    and ks: "s_key s' = (case semd_of s A k of None \<Rightarrow> (s_key s)(hd (a_sfree A) := k) | Some _ \<Rightarrow> s_key s)" for s'
  proof -
    have "krep U s' (a_block s k p A)"
      unfolding krep_def using rep a_block_pcbs_wf[OF K(1,2) p, of s k] a_block_semds_wf[OF K(1,2) p, of s k]
        sem_ok_block[OF K(4,1,2) p key ks pc] tree_pid_block[OF K(5,6,2) p, of s' k] pc
      by simp
    then show thesis by (rule concl[OF run _ env pc ks])
  qed
  show thesis
  proof (cases "semd_of s A k")
    case None
    have "a_det A \<noteq> []" using p by auto
    then obtain i sf where sf: "a_sfree A = i # sf" using sfree_nonempty[OF K(1,2)] by (cases "a_sfree A") auto
    then have "\<not> list_empty SemdFree (lh s)" "nxt (lh s) SemdFree = SLink i"
      using lists_rep_empty_iff[OF K(3), of SemdFree] lists_rep_first[OF K(3), of SemdFree] by simp_all
    then show thesis using None sf block_rep_new[OF k p None sf]
      by (intro fin[of "upd_pcb p (\<lambda>q. q\<lparr>p_semAdd := k\<rparr>) (insert_proc_q (SProcq i) p (upd_lh (INIT_LIST_HEAD (SProcq i))
           (upd_lh (list_add (SLink i) SemdH) (upd_lh (list_del (SLink i)) (set_key i k s)))))"])
         (simp_all add: insert_blocked_def kbind_def get_semd_run[OF k] same_env_def insert_proc_q_def)
  next
    case (Some iq)
    then show thesis using block_rep_old[OF k p Some]
      by (intro fin[of "upd_pcb p (\<lambda>q. q\<lparr>p_semAdd := k\<rparr>) (insert_proc_q (SProcq (fst iq)) p s)"])
         (simp_all add: insert_blocked_def kbind_def get_semd_run[OF k] same_env_def)
  qed
qed

section \<open>Unblocking\<close>

text \<open>
  Process \<open>p\<close> leaves the queue of descriptor \<open>i\<close>; when the queue becomes empty the
  descriptor goes back to the free ones, which are then \<open>sf\<close>.
\<close>

definition a_unblock :: "nat \<Rightarrow> nat list \<Rightarrow> nat list \<Rightarrow> nat \<Rightarrow> kabs \<Rightarrow> kabs" where
  "a_unblock i q sf p A =
     (if remove1 p q = []
      then A\<lparr>a_asl := asl_del i (a_asl A), a_sfree := sf, a_det := p # a_det A\<rparr>
      else A\<lparr>a_asl := asl_upd i (remove1 p) (a_asl A), a_det := p # a_det A\<rparr>)"

lemma a_unblock_sel [simp]:
  "a_free (a_unblock i q sf p A) = a_free A" "a_lq (a_unblock i q sf p A) = a_lq A"
  "a_hq (a_unblock i q sf p A) = a_hq A" "a_kids (a_unblock i q sf p A) = a_kids A"
  "a_det (a_unblock i q sf p A) = p # a_det A"
  by (simp_all add: a_unblock_def)

lemma a_unblock_cases:
  assumes "semds_wf A" and "(i, q) \<in> set (a_asl A)"
  obtains as bs where "a_asl A = as @ (i, q) # bs" and "i \<notin> fst ` set as" and "i \<notin> fst ` set bs"
    and "a_asl (a_unblock i q sf p A) = as @ (if remove1 p q = [] then [] else [(i, remove1 p q)]) @ bs"
    and "map_of (a_asl A) i = Some q"
proof (rule asl_split)
  show "distinct (map fst (a_asl A))" using assms(1) by (simp add: semds_wf_def)
  show "(i, q) \<in> set (a_asl A)" by (rule assms(2))
  fix as bs
  assume "a_asl A = as @ (i, q) # bs" "i \<notin> fst ` set as" "i \<notin> fst ` set bs"
    and "\<And>f. asl_upd i f (a_asl A) = as @ (i, f q) # bs" and "asl_del i (a_asl A) = as @ bs"
    and "map_of (a_asl A) i = Some q"
  then show ?thesis using that[of as bs] by (simp add: a_unblock_def)
qed

lemma a_unblock_blocked:
  assumes "semds_wf A" and "(i, q) \<in> set (a_asl A)" and "p \<in> set q"
  shows "add_mset p (mset (a_blocked (a_unblock i q sf p A))) = mset (a_blocked A)"
proof (rule a_unblock_cases[OF assms(1,2), of sf p])
  fix as bs
  assume dec: "a_asl A = as @ (i, q) # bs"
    "a_asl (a_unblock i q sf p A) = as @ (if remove1 p q = [] then [] else [(i, remove1 p q)]) @ bs"
  have "mset q = add_mset p (mset (remove1 p q))" using assms(3) by simp
  then show ?thesis unfolding a_blocked_def dec
    by (cases "remove1 p q = []") (simp_all del: mset_remove1)
qed

lemma a_unblock_alive:
  assumes "semds_wf A" and "(i, q) \<in> set (a_asl A)" and "p \<in> set q"
  shows "mset (a_alive (a_unblock i q sf p A)) = mset (a_alive A)"
  using a_unblock_blocked[OF assms, of sf] by (simp add: a_alive_def flip: add_mset_add_single)

lemma blocked_not_elsewhere:
  assumes "pcbs_wf A" and "semds_wf A" and "(i, q) \<in> set (a_asl A)" and "p \<in> set q"
  shows "p \<notin> set (a_free A)" "p \<notin> set (a_lq A)" "p \<notin> set (a_hq A)" "p \<notin> set (a_det A)" "p \<in> set (a_alive A)"
    "\<And>j r. (j, r) \<in> set (a_asl A) \<Longrightarrow> p \<in> set r \<Longrightarrow> (j, r) = (i, q)" "distinct q"
proof -
  have b: "p \<in> set (a_blocked A)" using assms(3,4) by (auto simp: set_a_blocked intro!: bexI[of _ "(i, q)"])
  then show "p \<notin> set (a_free A)" "p \<notin> set (a_lq A)" "p \<notin> set (a_hq A)" "p \<notin> set (a_det A)" "p \<in> set (a_alive A)"
    using assms(1) by (auto simp: pcbs_wf_def a_alive_def)
  obtain as bs where dec: "a_asl A = as @ (i, q) # bs" using assms(3) by (meson split_list)
  have d: "distinct (a_blocked A)" using assms(1) by (simp add: pcbs_wf_def a_alive_def)
  show "distinct q" using d by (simp add: a_blocked_def dec)
  show "(j, r) = (i, q)" if "(j, r) \<in> set (a_asl A)" "p \<in> set r" for j r
    using d that assms(4) by (force simp: a_blocked_def dec)
qed

lemma a_unblock_semds_wf:
  assumes "semds_wf A" and "(i, q) \<in> set (a_asl A)" and "mset sf = mset (i # a_sfree A)"
  shows "semds_wf (a_unblock i q sf p A)"
proof (rule a_unblock_cases[OF assms(1,2), of sf p])
  fix as bs
  assume dec: "a_asl A = as @ (i, q) # bs"
    "a_asl (a_unblock i q sf p A) = as @ (if remove1 p q = [] then [] else [(i, remove1 p q)]) @ bs"
  have sf: "set sf = insert i (set (a_sfree A))" "distinct sf \<longleftrightarrow> i \<notin> set (a_sfree A) \<and> distinct (a_sfree A)"
    using mset_eq_setD[OF assms(3)] mset_eq_imp_distinct_iff[OF assms(3)] by auto
  show ?thesis
  proof (cases "remove1 p q = []")
    case True
    then have "a_sfree (a_unblock i q sf p A) = sf" by (simp add: a_unblock_def)
    with True show ?thesis using assms(1) sf by (auto simp: semds_wf_def dec)
  next
    case False
    then have "a_sfree (a_unblock i q sf p A) = a_sfree A" by (simp add: a_unblock_def)
    with False show ?thesis using assms(1) by (auto simp: semds_wf_def dec)
  qed
qed

lemma sem_ok_unblock:
  assumes sem: "sem_ok s A" and wf: "pcbs_wf A" "semds_wf A" and iq: "(i, q) \<in> set (a_asl A)" and p: "p \<in> set q"
    and keys: "s_key s' = s_key s" and pcbs: "pcbs s' = (pcbs s)(p := (pcbs s p)\<lparr>p_semAdd := NULL\<rparr>)"
  shows "sem_ok s' (a_unblock i q sf p A)"
proof (rule a_unblock_cases[OF wf(2) iq, of sf p])
  note e = blocked_not_elsewhere[OF wf iq p]
  fix as bs
  assume dec: "a_asl A = as @ (i, q) # bs" "i \<notin> fst ` set as" "i \<notin> fst ` set bs"
    "a_asl (a_unblock i q sf p A) = as @ (if remove1 p q = [] then [] else [(i, remove1 p q)]) @ bs"
  have other: "p \<notin> set (snd jr)" if "jr \<in> set as \<union> set bs" for jr
  proof
    assume "p \<in> set (snd jr)"
    moreover have "jr \<in> set (a_asl A)" using that dec(1) by auto
    ultimately have "jr = (i, q)" using e(6)[of "fst jr" "snd jr"] by simp
    with that dec(2,3) show False by force
  qed
  have new: "p_semAdd (pcbs s' x) = (if x = p then NULL else p_semAdd (pcbs s x))" for x
    by (simp add: pcbs)
  have q: "x \<noteq> p \<and> x \<in> set q" if "x \<in> set (remove1 p q)" for x
    using that e(7) by simp
  have "\<forall>jr\<in>set (a_asl (a_unblock i q sf p A)). s_key s' (fst jr) \<noteq> NULL \<and>
      (\<forall>x\<in>set (snd jr). p_semAdd (pcbs s' x) = s_key s' (fst jr))"
  proof (intro ballI conjI)
    fix jr assume jr: "jr \<in> set (a_asl (a_unblock i q sf p A))"
    then show "s_key s' (fst jr) \<noteq> NULL"
      using sem by (auto simp: sem_ok_def dec(1,4) keys split: if_splits)
    fix x assume x: "x \<in> set (snd jr)"
    show "p_semAdd (pcbs s' x) = s_key s' (fst jr)"
    proof (cases "jr \<in> set as \<union> set bs")
      case True
      then show ?thesis using other[OF True] x sem by (auto simp: sem_ok_def dec(1) keys new)
    next
      case False
      then have jr: "jr = (i, remove1 p q)" using jr unfolding dec(4) by (simp split: if_splits)
      then have "x \<in> set (remove1 p q)" using x by simp
      then have "x \<noteq> p" "x \<in> set q" by (blast dest: q)+
      moreover have "\<forall>x\<in>set q. p_semAdd (pcbs s x) = s_key s i"
        using sem iq unfolding sem_ok_def by fastforce
      ultimately show ?thesis by (simp add: jr new keys)
    qed
  qed
  moreover have "distinct (map (\<lambda>iq. s_key s' (fst iq)) (a_asl (a_unblock i q sf p A)))"
  proof -
    have "distinct (map (\<lambda>iq. s_key s (fst iq)) (as @ (i, q) # bs))"
      using sem unfolding sem_ok_def dec(1) by blast
    then show ?thesis unfolding dec(4) keys by simp
  qed
  moreover have "\<forall>x\<in>set (a_free (a_unblock i q sf p A) @ a_lq (a_unblock i q sf p A) @
      a_hq (a_unblock i q sf p A) @ a_det (a_unblock i q sf p A)). p_semAdd (pcbs s' x) = NULL"
  proof
    fix x assume x: "x \<in> set (a_free (a_unblock i q sf p A) @ a_lq (a_unblock i q sf p A) @
      a_hq (a_unblock i q sf p A) @ a_det (a_unblock i q sf p A))"
    show "p_semAdd (pcbs s' x) = NULL"
    proof (cases "x = p")
      case False
      then have "x \<in> set (a_free A @ a_lq A @ a_hq A @ a_det A)" using x by simp
      then show ?thesis using sem False unfolding sem_ok_def new by simp
    qed (simp add: new)
  qed
  ultimately show ?thesis unfolding sem_ok_def by blast
qed

lemma unblock_rep:
  assumes k: "krep U s A" and iq: "(i, q) \<in> set (a_asl A)" and p: "p \<in> set q"
  shows "remove1 p q \<noteq> [] \<Longrightarrow> lists_rep (lh (unqueue p s)) (L_of (a_unblock i q sf p A))"
    and "remove1 p q = [] \<Longrightarrow>
      lists_rep (list_add (SLink i) SemdFree (list_del (SLink i) (lh (unqueue p s)))) (L_of (a_unblock i q (i # a_sfree A) p A))"
    and "remove1 p q = [] \<Longrightarrow>
      lists_rep (list_add_tail (SLink i) SemdFree (list_del (SLink i) (lh (unqueue p s)))) (L_of (a_unblock i q (a_sfree A @ [i]) p A))"
    and "list_empty (SProcq i) (lh (unqueue p s)) \<longleftrightarrow> remove1 p q = []"
proof -
  note K = krepD[OF k]
  let ?L1 = "(L_of A)(SProcq i := Some (map PList (remove1 p q)), PList p := Some [])"
  have qi: "L_of A (SProcq i) = Some (map PList q)" using asl_queue_of(1)[OF K(2) iq] by simp
  have r1: "lists_rep (lh (unqueue p s)) ?L1" by (rule out_proc_q_found(2)[OF K(3) qi p])
  show "list_empty (SProcq i) (lh (unqueue p s)) \<longleftrightarrow> remove1 p q = []"
    using lists_rep_empty_iff[OF r1, of "SProcq i"] by simp
  have al: "set (a_alive (a_unblock i q sf p A)) = set (a_alive A)" for sf
    using a_unblock_alive[OF K(2) iq p] mset_eq_setD by blast
  obtain as bs where dec: "a_asl A = as @ (i, q) # bs" "i \<notin> fst ` set as" "i \<notin> fst ` set bs"
    and m: "map_of (a_asl A) i = Some q" and del: "asl_del i (a_asl A) = as @ bs"
    using asl_split[of "a_asl A" i q] K(2) iq unfolding semds_wf_def by (metis distinct_append)
  show "lists_rep (lh (unqueue p s)) (L_of (a_unblock i q sf p A))" if ne: "remove1 p q \<noteq> []"
  proof (rule lists_rep_submap[OF r1], rule submapI)
    fix h xs assume "L_of (a_unblock i q sf p A) h = Some xs"
    then show "?L1 h = Some xs"
      using m al[of sf] ne by (cases h) (auto simp: a_unblock_def split: if_splits option.splits)
  qed
  assume e: "remove1 p q = []"
  let ?sl = "map SLink (map fst (a_asl A))"
  have rm: "remove1 (SLink i) ?sl = map SLink (map fst (as @ bs))"
    using dec by (auto simp: dec(1) remove1_append)
  have mem: "SLink i \<in> set ?sl" by (simp add: dec(1))
  have sub: "L_of (a_unblock i q sf p A) \<subseteq>\<^sub>m
      ?L1(SemdH := Some (remove1 (SLink i) ?sl), SLink i := None, SemdFree := Some (map SLink sf))"
    if sf: "set sf = insert i (set (a_sfree A))" for sf
  proof (rule submapI)
    fix h xs assume "L_of (a_unblock i q sf p A) h = Some xs"
    then show "(?L1(SemdH := Some (remove1 (SLink i) ?sl), SLink i := None, SemdFree := Some (map SLink sf))) h = Some xs"
      using m al[of sf] e rm sf unfolding del[symmetric]
      by (cases h) (auto simp: a_unblock_def split: if_splits option.splits)
  qed
  have L1: "?L1 SemdH = Some ?sl" "?L1 SemdFree = Some (map SLink (a_sfree A))" by simp_all
  have ne: "SemdH \<noteq> SemdFree" by simp
  show "lists_rep (list_add (SLink i) SemdFree (list_del (SLink i) (lh (unqueue p s)))) (L_of (a_unblock i q (i # a_sfree A) p A))"
  proof (rule lists_rep_submap[OF _ sub])
    show "lists_rep (list_add (SLink i) SemdFree (list_del (SLink i) (lh (unqueue p s))))
        (?L1(SemdH := Some (remove1 (SLink i) ?sl), SLink i := None, SemdFree := Some (map SLink (i # a_sfree A))))"
      using lx.move_front[OF r1 L1(1) mem L1(2) ne] by (simp only: list.map)
  qed simp
  show "lists_rep (list_add_tail (SLink i) SemdFree (list_del (SLink i) (lh (unqueue p s)))) (L_of (a_unblock i q (a_sfree A @ [i]) p A))"
  proof (rule lists_rep_submap[OF _ sub])
    show "lists_rep (list_add_tail (SLink i) SemdFree (list_del (SLink i) (lh (unqueue p s))))
        (?L1(SemdH := Some (remove1 (SLink i) ?sl), SLink i := None, SemdFree := Some (map SLink (a_sfree A @ [i]))))"
      using lx.move_tail[OF r1 L1(1) mem L1(2) ne] by (simp only: list.map map_append)
  qed simp
qed

lemma unblock_krep:
  assumes k: "krep U s A" and iq: "(i, q) \<in> set (a_asl A)" and p: "p \<in> set q"
    and sf: "mset sf = mset (i # a_sfree A)" and rep: "lists_rep (lh s') (L_of (a_unblock i q sf p A))"
    and keys: "s_key s' = s_key s" and pcbs: "pcbs s' = (pcbs s)(p := (pcbs s p)\<lparr>p_semAdd := NULL\<rparr>)"
  shows "krep U s' (a_unblock i q sf p A)"
proof -
  note K = krepD[OF k]
  have al: "mset (a_alive (a_unblock i q sf p A)) = mset (a_alive A)" by (rule a_unblock_alive[OF K(2) iq p])
  have "pcbs_wf (a_unblock i q sf p A)" by (rule pcbs_wf_perm[OF K(1)]) (simp add: al)
  moreover have "tree_ok s' (a_unblock i q sf p A)"
    by (rule tree_ok_same[OF K(5) mset_eq_setD[OF al]]) (simp_all add: pcbs)
  moreover have "pid_ok U s' (a_unblock i q sf p A)"
    by (rule pid_ok_same[OF K(6) mset_eq_setD[OF al]]) (simp_all add: pcbs)
  ultimately show ?thesis
    unfolding krep_def using rep a_unblock_semds_wf[OF K(2) iq sf] sem_ok_unblock[OF K(4,1,2) iq p keys pcbs]
    by blast
qed

text \<open>\<open>remove_blocked\<close>: the first waiter, or \<open>NULL\<close> when nobody waits.\<close>

theorem remove_blocked_none:
  "krep U s A \<Longrightarrow> semd_of s A k = None \<Longrightarrow> remove_blocked k s = Ret None s"
  by (simp add: remove_blocked_def kbind_def get_semd_run run_simps)

theorem remove_blocked_refines:
  assumes k: "krep U s A" and sd: "semd_of s A key = Some (i, p # ps)"
  obtains s' where "remove_blocked key s = Ret (Some p) s'"
    and "krep U s' (a_unblock i (p # ps) (i # a_sfree A) p A)" and "same_env s s'" and "s_key s' = s_key s"
    and "pcbs s' = (pcbs s)(p := (pcbs s p)\<lparr>p_semAdd := NULL\<rparr>)"
proof -
  note K = krepD[OF k]
  have iq: "(i, p # ps) \<in> set (a_asl A)" using semd_of_SomeD[OF sd] by simp
  have run: "remove_proc_q (SProcq i) s = Ret (Some p) (unqueue p s)"
    using remove_proc_q_run(1)[OF K(3)] asl_queue_of(1)[OF K(2) iq] by simp
  note r = unblock_rep[OF k iq list.set_intros(1)]
  let ?s1 = "upd_pcb p (\<lambda>q. q\<lparr>p_semAdd := NULL\<rparr>) (unqueue p s)"
  let ?s' = "if ps = [] then upd_lh (list_add (SLink i) SemdFree) (upd_lh (list_del (SLink i)) ?s1) else ?s1"
  have "remove_blocked key s = Ret (Some p) ?s'"
    using r(4) by (simp add: remove_blocked_def kbind_def kseq_def get_semd_run[OF k] sd run kmodify_def)
  moreover have "krep U ?s' (a_unblock i (p # ps) (i # a_sfree A) p A)"
    by (rule unblock_krep[OF k iq]) (use r(1,2) in auto)
  moreover have "same_env s ?s'" "s_key ?s' = s_key s" "pcbs ?s' = (pcbs s)(p := (pcbs s p)\<lparr>p_semAdd := NULL\<rparr>)"
    by (simp_all add: same_env_def)
  ultimately show thesis by (rule that)
qed

text \<open>\<open>out_blocked\<close>: a given waiter, from anywhere in its queue.\<close>

theorem out_blocked_refines:
  assumes k: "krep U s A" and iq: "(i, q) \<in> set (a_asl A)" and p: "p \<in> set q"
  obtains s' where "out_blocked (Some p) s = Ret (Some p) s'"
    and "krep U s' (a_unblock i q (a_sfree A @ [i]) p A)" and "same_env s s'" and "s_key s' = s_key s"
    and "pcbs s' = (pcbs s)(p := (pcbs s p)\<lparr>p_semAdd := NULL\<rparr>)"
proof -
  note K = krepD[OF k]
  have key: "p_semAdd (pcbs s p) = s_key s i" "s_key s i \<noteq> NULL" using K(4) iq p by (force simp: sem_ok_def)+
  have sd: "semd_of s A (s_key s i) = Some (i, q)" using semd_of_member[OF K(4) iq] by simp
  let ?s0 = "upd_pcb p (\<lambda>q. q\<lparr>p_semAdd := NULL\<rparr>) s"
  have run: "out_proc_q (SProcq i) p ?s0 = Ret (Some p) (unqueue p ?s0)"
    by (rule out_proc_q_found(1)[of ?s0 "L_of A"]) (use K(3) asl_queue_of(1)[OF K(2) iq] p in simp_all)
  note r = unblock_rep[OF k iq p]
  have lh0: "lh (unqueue p ?s0) = lh (unqueue p s)" by (simp add: unqueue_def)
  let ?s1 = "unqueue p ?s0"
  let ?s' = "if remove1 p q = [] then upd_lh (list_add_tail (SLink i) SemdFree) (upd_lh (list_del (SLink i)) ?s1) else ?s1"
  have "out_blocked (Some p) s = Ret (Some p) ?s'"
    using r(4) lh0
    by (simp add: out_blocked_def key kbind_def kseq_def get_semd_run[OF k] sd run kmodify_def)
  moreover have "krep U ?s' (a_unblock i q (a_sfree A @ [i]) p A)"
    by (rule unblock_krep[OF k iq p]) (use r(1,3) lh0 in auto)
  moreover have "same_env s ?s'" "s_key ?s' = s_key s" "pcbs ?s' = (pcbs s)(p := (pcbs s p)\<lparr>p_semAdd := NULL\<rparr>)"
    by (simp_all add: same_env_def)
  ultimately show thesis by (rule that)
qed

theorem head_blocked_run:
  assumes k: "krep U s A"
  shows "head_blocked key s = Ret (case waiting s A key of [] \<Rightarrow> None | p # _ \<Rightarrow> Some p) s"
proof (cases "semd_of s A key")
  case None
  then show ?thesis by (simp add: head_blocked_def kbind_def get_semd_run[OF k] waiting_def)
next
  case (Some iq)
  note K = krepD[OF k]
  have iq: "iq \<in> set (a_asl A)" using semd_of_SomeD[OF Some] by simp
  then have L: "L_of A (SProcq (fst iq)) = Some (map PList (snd iq))" "snd iq \<noteq> []"
    using asl_queue_of(1)[OF K(2)] K(2) by (auto simp: semds_wf_def)
  then obtain p ps where q: "snd iq = p # ps" by (cases "snd iq") auto
  then show ?thesis
    using Some L lists_rep_empty_iff[OF K(3) L(1)] lists_rep_first[OF K(3)]
    by (simp add: head_blocked_def kbind_def get_semd_run[OF k] waiting_def)
qed

end
