(* ===== verification/Kmoves.thy ===== *)
theory Kmoves
  imports Asl
begin

text \<open>
  The moves of a process between the places the abstract state has for it: out of a ready
  queue and into one, out of the free pool and back, into the process tree and out of it.
  Each lemma says that one routine of \<open>pcb.c\<close> carries \<open>krep\<close> from an abstract state to the
  moved one. The scheduler and the system calls are compositions of these moves.
\<close>

section \<open>Into and out of the ready queues\<close>

definition a_enq :: "u32 \<Rightarrow> nat \<Rightarrow> kabs \<Rightarrow> kabs" where
  "a_enq prio p A =
     (if prio = PROCESS_PRIO_HIGH then A\<lparr>a_hq := a_hq A @ [p], a_det := remove1 p (a_det A)\<rparr>
      else if prio = PROCESS_PRIO_LOW then A\<lparr>a_lq := a_lq A @ [p], a_det := remove1 p (a_det A)\<rparr>
      else A)"

definition a_deq :: "nat \<Rightarrow> kabs \<Rightarrow> kabs" where
  "a_deq p A =
     A\<lparr>a_lq := remove1 p (a_lq A), a_hq := remove1 p (a_hq A), a_det := p # a_det A\<rparr>"

lemma prio_distinct [simp]: "PROCESS_PRIO_LOW \<noteq> PROCESS_PRIO_HIGH" "PROCESS_PRIO_HIGH \<noteq> PROCESS_PRIO_LOW"
  by (simp_all add: PROCESS_PRIO_LOW_def PROCESS_PRIO_HIGH_def)

lemma a_enq_sel [simp]:
  "a_free (a_enq pr p A) = a_free A" "a_asl (a_enq pr p A) = a_asl A" "a_sfree (a_enq pr p A) = a_sfree A"
  "a_kids (a_enq pr p A) = a_kids A" "a_blocked (a_enq pr p A) = a_blocked A"
  "a_hq (a_enq PROCESS_PRIO_HIGH p A) = a_hq A @ [p]" "a_lq (a_enq PROCESS_PRIO_HIGH p A) = a_lq A"
  "a_lq (a_enq PROCESS_PRIO_LOW p A) = a_lq A @ [p]" "a_hq (a_enq PROCESS_PRIO_LOW p A) = a_hq A"
  "a_det (a_enq PROCESS_PRIO_HIGH p A) = remove1 p (a_det A)"
  "a_det (a_enq PROCESS_PRIO_LOW p A) = remove1 p (a_det A)"
  by (simp_all add: a_enq_def a_blocked_def)

lemma a_deq_sel [simp]:
  "a_free (a_deq p A) = a_free A" "a_asl (a_deq p A) = a_asl A" "a_sfree (a_deq p A) = a_sfree A"
  "a_kids (a_deq p A) = a_kids A" "a_blocked (a_deq p A) = a_blocked A"
  "a_lq (a_deq p A) = remove1 p (a_lq A)" "a_hq (a_deq p A) = remove1 p (a_hq A)"
  "a_det (a_deq p A) = p # a_det A"
  by (simp_all add: a_deq_def a_blocked_def)

lemma a_enq_alive: "p \<in> set (a_det A) \<Longrightarrow> mset (a_alive (a_enq pr p A)) = mset (a_alive A)"
  unfolding a_alive_def a_enq_sel by (simp add: a_enq_def mset_remove1)

lemma sem_ok_cong:
  assumes "sem_ok s A" and "a_asl A' = a_asl A" and "s_key s' = s_key s"
    and "set (a_free A' @ a_lq A' @ a_hq A' @ a_det A') = set (a_free A @ a_lq A @ a_hq A @ a_det A)"
    and "\<And>x. p_semAdd (pcbs s' x) = p_semAdd (pcbs s x)"
  shows "sem_ok s' A'"
  using assms unfolding sem_ok_def by (simp only:) blast

lemma semds_wf_cong: "semds_wf A \<Longrightarrow> a_asl A' = a_asl A \<Longrightarrow> a_sfree A' = a_sfree A \<Longrightarrow> semds_wf A'"
  by (simp add: semds_wf_def)

text \<open>Any change of the ready queues and the detached processes that keeps their union.\<close>

lemma krep_requeue:
  assumes k: "krep U s A" and lh: "lists_rep (lh s') (L_of A')"
    and al: "mset (a_lq A' @ a_hq A' @ a_det A') = mset (a_lq A @ a_hq A @ a_det A)"
    and same: "a_free A' = a_free A" "a_asl A' = a_asl A" "a_sfree A' = a_sfree A" "a_kids A' = a_kids A"
    and keys: "s_key s' = s_key s" and pcbs: "pcbs s' = pcbs s"
  shows "krep U s' A'"
proof -
  note K = krepD[OF k]
  have b: "a_blocked A' = a_blocked A" by (simp add: a_blocked_def same)
  have m: "mset (a_alive A') = mset (a_alive A)"
    using al by (simp add: a_alive_def b ac_simps)
  have "set (a_lq A' @ a_hq A' @ a_det A') = set (a_lq A @ a_hq A @ a_det A)" by (rule mset_eq_setD[OF al])
  then have "set (a_free A' @ a_lq A' @ a_hq A' @ a_det A') = set (a_free A @ a_lq A @ a_hq A @ a_det A)"
    by (simp add: same)
  then have "sem_ok s' A'" by (rule sem_ok_cong[OF K(4) same(2) keys]) (simp add: pcbs)
  moreover have "pcbs_wf A'" by (rule pcbs_wf_perm[OF K(1)]) (simp add: same m)
  moreover have "tree_ok s' A'" by (rule tree_ok_same[OF K(5) mset_eq_setD[OF m] same(4)]) (simp add: pcbs)
  moreover have "pid_ok U s' A'" by (rule pid_ok_same[OF K(6) mset_eq_setD[OF m]]) (simp_all add: pcbs same)
  ultimately show ?thesis using semds_wf_cong[OF K(2) same(2,3)] lh by (simp add: krep_def)
qed

lemma enqueue_krep:
  assumes k: "krep U s A" and p: "p \<in> set (a_det A)"
  shows "krep U (insert_proc_q HQueue p s) (a_enq PROCESS_PRIO_HIGH p A)"
    and "krep U (insert_proc_q LQueue p s) (a_enq PROCESS_PRIO_LOW p A)"
proof -
  note K = krepD[OF k]
  have u: "unlinked (L_of A) (PList p)" by (rule det_unlinked[OF K(1) p])
  have al: "set (a_alive (a_enq pr p A)) = set (a_alive A)" for pr
    using a_enq_alive[OF p] mset_eq_setD by blast
  have m: "mset (a_det A) = add_mset p (mset (remove1 p (a_det A)))" using p by simp
  note d = det_not_elsewhere(5)[OF K(1) p]
  have h: "lists_rep (lh (insert_proc_q HQueue p s)) ((L_of A)(PList p := None, HQueue := Some (map PList (a_hq A) @ [PList p])))"
    by (rule insert_proc_q_rep[OF K(3) _ u]) simp_all
  have "lists_rep (lh (insert_proc_q HQueue p s)) (L_of (a_enq PROCESS_PRIO_HIGH p A))"
  proof (rule lists_rep_submap[OF h], rule submapI)
    fix h xs assume "L_of (a_enq PROCESS_PRIO_HIGH p A) h = Some xs"
    then show "((L_of A)(PList p := None, HQueue := Some (map PList (a_hq A) @ [PList p]))) h = Some xs"
      using al d by (cases h) (auto split: if_splits)
  qed
  then show "krep U (insert_proc_q HQueue p s) (a_enq PROCESS_PRIO_HIGH p A)"
    by (rule krep_requeue[OF k]) (use m in simp_all)
  have l: "lists_rep (lh (insert_proc_q LQueue p s)) ((L_of A)(PList p := None, LQueue := Some (map PList (a_lq A) @ [PList p])))"
    by (rule insert_proc_q_rep[OF K(3) _ u]) simp_all
  have "lists_rep (lh (insert_proc_q LQueue p s)) (L_of (a_enq PROCESS_PRIO_LOW p A))"
  proof (rule lists_rep_submap[OF l], rule submapI)
    fix h xs assume "L_of (a_enq PROCESS_PRIO_LOW p A) h = Some xs"
    then show "((L_of A)(PList p := None, LQueue := Some (map PList (a_lq A) @ [PList p]))) h = Some xs"
      using al d by (cases h) (auto split: if_splits)
  qed
  then show "krep U (insert_proc_q LQueue p s) (a_enq PROCESS_PRIO_LOW p A)"
    by (rule krep_requeue[OF k]) (use m in simp_all)
qed

lemma ready_not_elsewhere:
  assumes "pcbs_wf A"
  shows "p \<in> set (a_hq A) \<Longrightarrow> p \<notin> set (a_lq A)" "p \<in> set (a_lq A) \<Longrightarrow> p \<notin> set (a_hq A)"
    "p \<in> set (a_hq A) \<or> p \<in> set (a_lq A) \<Longrightarrow>
       p \<notin> set (a_free A) \<and> p \<notin> set (a_blocked A) \<and> p \<notin> set (a_det A) \<and> p \<in> set (a_alive A)"
  using assms by (auto simp: pcbs_wf_def a_alive_def)

lemma a_deq_alive:
  assumes "pcbs_wf A" and "p \<in> set (a_hq A) \<or> p \<in> set (a_lq A)"
  shows "mset (a_lq (a_deq p A) @ a_hq (a_deq p A) @ a_det (a_deq p A)) = mset (a_lq A @ a_hq A @ a_det A)"
    and "mset (a_alive (a_deq p A)) = mset (a_alive A)"
proof -
  show m: "mset (a_lq (a_deq p A) @ a_hq (a_deq p A) @ a_det (a_deq p A)) = mset (a_lq A @ a_hq A @ a_det A)"
    using assms(2) ready_not_elsewhere(1,2)[OF assms(1), of p]
    by (auto simp: remove1_idem)
  show "mset (a_alive (a_deq p A)) = mset (a_alive A)"
    using m by (simp add: a_alive_def ac_simps)
qed

lemma dequeue_krep:
  assumes k: "krep U s A"
  shows "p \<in> set (a_hq A) \<Longrightarrow> out_proc_q HQueue p s = Ret (Some p) (unqueue p s) \<and> krep U (unqueue p s) (a_deq p A)"
    and "p \<in> set (a_lq A) \<Longrightarrow> out_proc_q LQueue p s = Ret (Some p) (unqueue p s) \<and> krep U (unqueue p s) (a_deq p A)"
proof -
  note K = krepD[OF k]
  show "out_proc_q HQueue p s = Ret (Some p) (unqueue p s) \<and> krep U (unqueue p s) (a_deq p A)" if p: "p \<in> set (a_hq A)"
  proof
    have h: "L_of A HQueue = Some (map PList (a_hq A))" by simp
    note al = mset_eq_setD[OF a_deq_alive(2)[OF K(1) disjI1[OF p]]]
    show "out_proc_q HQueue p s = Ret (Some p) (unqueue p s)" by (rule out_proc_q_found(1)[OF K(3) h p])
    have "lists_rep (lh (unqueue p s)) (L_of (a_deq p A))"
    proof (rule lists_rep_submap[OF out_proc_q_found(2)[OF K(3) h p]], rule submapI)
      fix h xs assume "L_of (a_deq p A) h = Some xs"
      then show "((L_of A)(HQueue := Some (map PList (remove1 p (a_hq A))), PList p := Some [])) h = Some xs"
        using al ready_not_elsewhere(1)[OF K(1) p]
        by (cases h) (auto simp: remove1_idem split: if_splits)
    qed
    then show "krep U (unqueue p s) (a_deq p A)"
      by (rule krep_requeue[OF k]) (use a_deq_alive(1)[OF K(1) disjI1[OF p]] in simp_all)
  qed
  show "out_proc_q LQueue p s = Ret (Some p) (unqueue p s) \<and> krep U (unqueue p s) (a_deq p A)" if p: "p \<in> set (a_lq A)"
  proof
    have h: "L_of A LQueue = Some (map PList (a_lq A))" by simp
    note al = mset_eq_setD[OF a_deq_alive(2)[OF K(1) disjI2[OF p]]]
    show "out_proc_q LQueue p s = Ret (Some p) (unqueue p s)" by (rule out_proc_q_found(1)[OF K(3) h p])
    have "lists_rep (lh (unqueue p s)) (L_of (a_deq p A))"
    proof (rule lists_rep_submap[OF out_proc_q_found(2)[OF K(3) h p]], rule submapI)
      fix h xs assume "L_of (a_deq p A) h = Some xs"
      then show "((L_of A)(LQueue := Some (map PList (remove1 p (a_lq A))), PList p := Some [])) h = Some xs"
        using al ready_not_elsewhere(2)[OF K(1) p]
        by (cases h) (auto simp: remove1_idem split: if_splits)
    qed
    then show "krep U (unqueue p s) (a_deq p A)"
      by (rule krep_requeue[OF k]) (use a_deq_alive(1)[OF K(1) disjI2[OF p]] in simp_all)
  qed
qed

section \<open>Out of the process tree and into it\<close>

lemma kids_parent:
  assumes "tree_ok s A" and "p \<in> set (a_alive A)"
  shows "c \<in> set (a_kids A p) \<longleftrightarrow> c \<in> set (a_alive A) \<and> p_parent (pcbs s c) = Some p"
  using assms by (simp add: tree_ok_def tree_rel_def)

lemma parent_alive:
  assumes "tree_ok s A" and "c \<in> set (a_alive A)" and "p_parent (pcbs s c) = Some p"
  shows "p \<in> set (a_alive A)" and "c \<in> set (a_kids A p)" and "c \<noteq> p"
proof -
  have r: "(p, c) \<in> tree_rel s A" using assms(2,3) by (simp add: tree_rel_def)
  then show "p \<in> set (a_alive A)" using assms(1) by (auto simp: tree_ok_def)
  then show "c \<in> set (a_kids A p)" using assms by (simp add: kids_parent)
  show "c \<noteq> p" using r assms(1) by (auto simp: tree_ok_def acyclic_def)
qed

text \<open>Child lists have no repetition: the rings of the heap have none.\<close>

lemma kids_distinct:
  assumes "krep U s A" and "p \<in> set (a_alive A)"
  shows "distinct (a_kids A p)"
proof -
  have "L_of A (PChild p) = Some (map PSib (a_kids A p))" using assms(2) by simp
  then have "ring (lh s) (PChild p) (map PSib (a_kids A p))" by (rule lists_rep_ring[OF krepD(3)[OF assms(1)]])
  then show ?thesis by (simp add: ring_def distinct_map)
qed

definition a_orphan :: "nat \<Rightarrow> nat \<Rightarrow> kabs \<Rightarrow> kabs" where
  "a_orphan q c A = A\<lparr>a_kids := (a_kids A)(q := remove1 c (a_kids A q))\<rparr>"

lemma a_orphan_sel [simp]:
  "a_free (a_orphan q c A) = a_free A" "a_asl (a_orphan q c A) = a_asl A" "a_sfree (a_orphan q c A) = a_sfree A"
  "a_lq (a_orphan q c A) = a_lq A" "a_hq (a_orphan q c A) = a_hq A" "a_det (a_orphan q c A) = a_det A"
  "a_blocked (a_orphan q c A) = a_blocked A" "a_alive (a_orphan q c A) = a_alive A"
  "a_kids (a_orphan q c A) = (a_kids A)(q := remove1 c (a_kids A q))"
  by (simp_all add: a_orphan_def a_blocked_def a_alive_def)

lemma tree_rel_orphan:
  "pcbs s' = (pcbs s)(c := (pcbs s c)\<lparr>p_parent := None\<rparr>) \<Longrightarrow> set (a_alive A') = set (a_alive A) \<Longrightarrow>
    tree_rel s' A' = {(a, b) \<in> tree_rel s A. b \<noteq> c}"
  by (auto simp: tree_rel_def)

lemma orphan_krep:
  assumes k: "krep U s A" and c: "c \<in> set (a_alive A)" and par: "p_parent (pcbs s c) = Some q"
  shows "out_child c s = Ret (Some c) (orphan c s)" and "krep U (orphan c s) (a_orphan q c A)"
proof -
  note K = krepD[OF k] and pa = parent_alive[OF krepD(5)[OF k] c par]
  have L: "L_of A (PChild q) = Some (map PSib (a_kids A q))" using pa(1) by simp
  have ne: "p_parent (pcbs s c) \<noteq> None" by (simp add: par)
  show "out_child c s = Ret (Some c) (orphan c s)" by (rule out_child_run(1)[OF K(3) L pa(2) ne])
  have rep: "lists_rep (lh (orphan c s)) (L_of (a_orphan q c A))"
  proof (rule lists_rep_submap[OF out_child_run(2)[OF K(3) L pa(2) ne]], rule submapI)
    fix h xs assume "L_of (a_orphan q c A) h = Some xs"
    then show "((L_of A)(PChild q := Some (map PSib (remove1 c (a_kids A q))))) h = Some xs"
      using pa(1) by (cases h) (auto split: if_splits)
  qed
  have rel: "tree_rel (orphan c s) (a_orphan q c A) = {(a, b) \<in> tree_rel s A. b \<noteq> c}"
    by (rule tree_rel_orphan) simp_all
  have "tree_ok (orphan c s) (a_orphan q c A)"
    unfolding tree_ok_def rel
  proof (intro conjI ballI allI impI)
    fix p b assume p: "p \<in> set (a_alive (a_orphan q c A))"
    show "b \<in> set (a_kids (a_orphan q c A) p) \<longleftrightarrow> (p, b) \<in> {(a, b) \<in> tree_rel s A. b \<noteq> c}"
      using p c kids_parent[OF K(5)] kids_distinct[OF k, of q] pa(1) par
      by (auto simp: tree_rel_def)
  next
    show "acyclic {(a, b) \<in> tree_rel s A. b \<noteq> c}"
      by (rule acyclic_subset[of "tree_rel s A"]) (use K(5) in \<open>auto simp: tree_ok_def\<close>)
  qed (use K(5) in \<open>auto simp: tree_ok_def\<close>)
  moreover have "sem_ok (orphan c s) (a_orphan q c A)" by (rule sem_ok_cong[OF K(4)]) simp_all
  moreover have "pid_ok U (orphan c s) (a_orphan q c A)" by (rule pid_ok_same[OF K(6)]) simp_all
  moreover have "pcbs_wf (a_orphan q c A)" by (rule pcbs_wf_perm[OF K(1)]) simp
  ultimately show "krep U (orphan c s) (a_orphan q c A)"
    using rep semds_wf_cong[OF K(2)] by (simp add: krep_def)
qed

text \<open>\<open>remove_child\<close> takes the first child; \<open>insert_child\<close> adds in front.\<close>

lemma remove_child_krep:
  assumes k: "krep U s A" and p: "p \<in> set (a_alive A)"
  shows "a_kids A p = [] \<Longrightarrow> remove_child p s = Ret None s"
    and "a_kids A p = c # cs \<Longrightarrow> remove_child p s = Ret (Some c) (orphan c s) \<and>
      c \<in> set (a_alive A) \<and> p_parent (pcbs s c) = Some p \<and> krep U (orphan c s) (a_orphan p c A)"
proof -
  note K = krepD[OF k]
  show "remove_child p s = Ret None s" if "a_kids A p = []"
    using that p by (intro remove_child_empty[OF K(3)]) simp
  assume cs: "a_kids A p = c # cs"
  then have c: "c \<in> set (a_alive A)" "p_parent (pcbs s c) = Some p"
    using kids_parent[OF K(5) p, of c] by simp_all
  have "remove_child p s = Ret (Some c) (orphan c s)"
    by (rule remove_child_run(1)[OF K(3)]) (use p cs in simp)
  with c orphan_krep(2)[OF k c] show "remove_child p s = Ret (Some c) (orphan c s) \<and>
      c \<in> set (a_alive A) \<and> p_parent (pcbs s c) = Some p \<and> krep U (orphan c s) (a_orphan p c A)"
    by blast
qed

definition a_adopt :: "nat \<Rightarrow> nat \<Rightarrow> kabs \<Rightarrow> kabs" where
  "a_adopt q c A = A\<lparr>a_kids := (a_kids A)(q := c # a_kids A q)\<rparr>"

lemma a_adopt_sel [simp]:
  "a_free (a_adopt q c A) = a_free A" "a_asl (a_adopt q c A) = a_asl A" "a_sfree (a_adopt q c A) = a_sfree A"
  "a_lq (a_adopt q c A) = a_lq A" "a_hq (a_adopt q c A) = a_hq A" "a_det (a_adopt q c A) = a_det A"
  "a_blocked (a_adopt q c A) = a_blocked A" "a_alive (a_adopt q c A) = a_alive A"
  "a_kids (a_adopt q c A) = (a_kids A)(q := c # a_kids A q)"
  by (simp_all add: a_adopt_def a_blocked_def a_alive_def)

lemma root_unlinked:
  assumes "tree_ok s A" and "p_parent (pcbs s p) = None"
  shows "unlinked (L_of A) (PSib p)"
proof -
  have "PSib p \<notin> set xs" if "L_of A h = Some xs" for h xs
    using that assms kids_parent[OF assms(1)] by (cases h) (auto split: if_splits option.splits)
  then show ?thesis by (auto simp: unlinked_def)
qed

lemma insert_child_krep:
  assumes k: "krep U s A" and c: "c \<in> set (a_alive A)" "p_parent (pcbs s c) = None" "a_kids A c = []"
    and q: "q \<in> set (a_alive A)" "q \<noteq> c"
  shows "krep U (insert_child q c s) (a_adopt q c A)"
proof -
  note K = krepD[OF k]
  have "lists_rep (lh (insert_child q c s)) (L_of (a_adopt q c A))"
  proof (rule lists_rep_submap[OF insert_child_rep[OF K(3) _ root_unlinked[OF K(5) c(2)]]], simp add: q, rule submapI)
    fix h xs assume "L_of (a_adopt q c A) h = Some xs"
    then show "((L_of A)(PSib c := None, PChild q := Some (PSib c # map PSib (a_kids A q)))) h = Some xs"
      using q by (cases h) (auto split: if_splits)
  qed
  moreover have rel: "tree_rel (insert_child q c s) (a_adopt q c A) = insert (q, c) (tree_rel s A)"
    using c by (auto simp: tree_rel_def)
  have no: "(c, b) \<notin> tree_rel s A" for b
    using kids_parent[OF K(5) c(1), of b] c(3) by (simp add: tree_rel_def)
  have "tree_ok (insert_child q c s) (a_adopt q c A)"
    unfolding tree_ok_def rel
  proof (intro conjI ballI allI impI)
    fix p b assume p: "p \<in> set (a_alive (a_adopt q c A))"
    show "b \<in> set (a_kids (a_adopt q c A) p) \<longleftrightarrow> (p, b) \<in> insert (q, c) (tree_rel s A)"
      using p c kids_parent[OF K(5)] q by (auto simp: tree_rel_def)
  next
    have "(c, q) \<notin> (tree_rel s A)\<^sup>*" using no q(2) by (metis converse_rtranclE)
    then show "acyclic (insert (q, c) (tree_rel s A))" using K(5) by (simp add: tree_ok_def)
  qed (use K(5) q in \<open>auto simp: tree_ok_def\<close>)
  moreover have "sem_ok (insert_child q c s) (a_adopt q c A)" by (rule sem_ok_cong[OF K(4)]) simp_all
  moreover have "pid_ok U (insert_child q c s) (a_adopt q c A)" by (rule pid_ok_same[OF K(6)]) simp_all
  moreover have "pcbs_wf (a_adopt q c A)" by (rule pcbs_wf_perm[OF K(1)]) simp
  ultimately show ?thesis using semds_wf_cong[OF K(2)] by (simp add: krep_def)
qed

section \<open>Into the free pool and out of it\<close>

definition a_release :: "nat \<Rightarrow> kabs \<Rightarrow> kabs" where
  "a_release p A = A\<lparr>a_free := p # a_free A, a_det := remove1 p (a_det A)\<rparr>"

lemma a_release_sel [simp]:
  "a_free (a_release p A) = p # a_free A" "a_asl (a_release p A) = a_asl A" "a_sfree (a_release p A) = a_sfree A"
  "a_lq (a_release p A) = a_lq A" "a_hq (a_release p A) = a_hq A" "a_det (a_release p A) = remove1 p (a_det A)"
  "a_blocked (a_release p A) = a_blocked A" "a_kids (a_release p A) = a_kids A"
  by (simp_all add: a_release_def a_blocked_def)

lemma a_release_alive:
  assumes "pcbs_wf A" and "p \<in> set (a_det A)"
  shows "mset (a_alive A) = add_mset p (mset (a_alive (a_release p A)))"
    and "set (a_alive (a_release p A)) = set (a_alive A) - {p}"
proof -
  have "mset (a_det A) = add_mset p (mset (remove1 p (a_det A)))" using assms(2) by simp
  then show "mset (a_alive A) = add_mset p (mset (a_alive (a_release p A)))"
    unfolding a_alive_def a_release_sel by (simp del: mset_remove1)
  show "set (a_alive (a_release p A)) = set (a_alive A) - {p}"
    using det_not_elsewhere[OF assms] unfolding set_a_alive by auto
qed

lemma free_krep:
  assumes k: "krep U s A" and p: "p \<in> set (a_det A)" and root: "p_parent (pcbs s p) = None"
    and nokids: "a_kids A p = []"
  shows "krep U (free_pcb p s) (a_release p A)"
proof -
  note K = krepD[OF k] and al = a_release_alive[OF krepD(1)[OF k] p] and d = det_not_elsewhere[OF krepD(1)[OF k] p]
  have "lists_rep (lh (free_pcb p s)) ((L_of A)(PList p := None, PcbFreeH := Some (PList p # map PList (a_free A))))"
    by (rule free_pcb_rep[OF K(3) _ det_unlinked[OF K(1) p]]) simp
  then have rep: "lists_rep (lh (free_pcb p s)) (L_of (a_release p A))"
  proof (rule lists_rep_submap, intro submapI)
    fix h xs assume "L_of (a_release p A) h = Some xs"
    then show "((L_of A)(PList p := None, PcbFreeH := Some (PList p # map PList (a_free A)))) h = Some xs"
      using al(2) d(5) by (cases h) (auto split: if_splits)
  qed
  have wf: "pcbs_wf (a_release p A)"
    by (rule pcbs_wf_perm[OF K(1)]) (use al(1) in simp)
  have null: "p_semAdd (pcbs s p) = NULL" using K(4) p by (simp add: sem_ok_def)
  have "set (a_free (a_release p A) @ a_lq (a_release p A) @ a_hq (a_release p A) @ a_det (a_release p A)) =
      set (a_free A @ a_lq A @ a_hq A @ a_det A)" using d p by auto
  then have sem: "sem_ok (free_pcb p s) (a_release p A)"
    by (rule sem_ok_cong[OF K(4), rotated 2]) (simp_all add: null)
  have rel: "tree_rel (free_pcb p s) (a_release p A) = tree_rel s A"
    using root by (auto simp: tree_rel_def al(2))
  have no: "(p, b) \<notin> tree_rel s A" for b
    using kids_parent[OF K(5) d(7), of b] nokids by (simp add: tree_rel_def)
  have tree: "tree_ok (free_pcb p s) (a_release p A)"
    using K(5) no unfolding tree_ok_def rel al(2) by auto
  have "pid_ok U (free_pcb p s) (a_release p A)"
    using K(6) d(7) unfolding pid_ok_def al(2) by auto
  with rep wf sem tree semds_wf_cong[OF K(2)] show ?thesis by (simp add: krep_def)
qed

definition a_take :: "nat \<Rightarrow> kabs \<Rightarrow> kabs" where
  "a_take p A = A\<lparr>a_free := remove1 p (a_free A), a_det := p # a_det A, a_kids := (a_kids A)(p := [])\<rparr>"

lemma a_take_sel [simp]:
  "a_free (a_take p A) = remove1 p (a_free A)" "a_asl (a_take p A) = a_asl A" "a_sfree (a_take p A) = a_sfree A"
  "a_lq (a_take p A) = a_lq A" "a_hq (a_take p A) = a_hq A" "a_det (a_take p A) = p # a_det A"
  "a_blocked (a_take p A) = a_blocked A" "a_kids (a_take p A) = (a_kids A)(p := [])"
  by (simp_all add: a_take_def a_blocked_def)

lemma a_take_alive:
  "mset (a_alive (a_take p A)) = add_mset p (mset (a_alive A))"
  "set (a_alive (a_take p A)) = insert p (set (a_alive A))"
  by (auto simp: a_alive_def)

lemma alloc_krep:
  assumes k: "krep U s A" and f: "a_free A = p # ps"
    and g: "\<And>x. p_parent (g x) = p_parent x" "\<And>x. p_semAdd (g x) = p_semAdd x" "\<And>x. p_pid (g x) = pcb_addr U p"
  shows "alloc_pcb U s = Ret (Some p) (alloc_st U p s)"
    and "krep U (upd_pcb p g (alloc_st U p s)) (a_take p A)"
proof -
  note K = krepD[OF k]
  let ?s' = "upd_pcb p g (alloc_st U p s)"
  have na: "p \<notin> set (a_alive A)" "p \<notin> set ps" using K(1) f by (auto simp: pcbs_wf_def)
  have L: "L_of A PcbFreeH = Some (map PList (p # ps))" by (simp add: f)
  note u = child_unlinked[OF na(1)] sib_unlinked[OF K(5) na(1)]
  show "alloc_pcb U s = Ret (Some p) (alloc_st U p s)" by (rule alloc_pcb_run(1)[OF K(3) L u])
  have lh: "lh ?s' = lh (alloc_st U p s)" by simp
  have rep: "lists_rep (lh ?s') (L_of (a_take p A))" unfolding lh
  proof (rule lists_rep_submap[OF alloc_pcb_run(2)[OF K(3) L u]], rule submapI)
    fix h xs assume "L_of (a_take p A) h = Some xs"
    then show "((L_of A)(PcbFreeH := Some (map PList ps), PList p := Some [], PChild p := Some [], PSib p := Some [])) h = Some xs"
      using f na a_take_alive(2)[of p A] by (cases h) (auto split: if_splits)
  qed
  have wf: "pcbs_wf (a_take p A)"
    by (rule pcbs_wf_perm[OF K(1)]) (simp add: f a_take_alive)
  have fields: "p_parent (pcbs ?s' x) = (if x = p then None else p_parent (pcbs s x))"
    "p_semAdd (pcbs ?s' x) = (if x = p then NULL else p_semAdd (pcbs s x))"
    "p_pid (pcbs ?s' x) = (if x = p then pcb_addr U p else p_pid (pcbs s x))" for x
    by (simp_all add: g reset_pcb_def)
  have null: "p_semAdd (pcbs s p) = NULL" using K(4) f by (simp add: sem_ok_def)
  have "set (a_free (a_take p A) @ a_lq (a_take p A) @ a_hq (a_take p A) @ a_det (a_take p A)) =
      set (a_free A @ a_lq A @ a_hq A @ a_det A)" by (auto simp: f)
  then have sem: "sem_ok ?s' (a_take p A)"
    by (rule sem_ok_cong[OF K(4), rotated 2]) (simp_all only: fields a_take_sel, simp_all add: null)
  have rel: "tree_rel ?s' (a_take p A) = tree_rel s A"
    unfolding tree_rel_def fields a_take_alive(2) using na by (auto split: if_splits)
  have no: "(p, b) \<notin> tree_rel s A" for b using K(5) na(1) by (auto simp: tree_ok_def)
  have tree: "tree_ok ?s' (a_take p A)"
    using K(5) no unfolding tree_ok_def rel a_take_alive(2) by auto
  have "pid_ok U ?s' (a_take p A)"
    using K(6) f na unfolding pid_ok_def fields a_take_alive(2) by auto
  with rep wf sem tree semds_wf_cong[OF K(2)] show "krep U ?s' (a_take p A)" by (simp add: krep_def)
qed

lemma alloc_none:
  assumes "krep U s A" and "a_free A = []"
  shows "alloc_pcb U s = Ret None s"
  by (rule alloc_pcb_exhausted[OF krepD(3)[OF assms(1)]]) (simp add: assms(2))

section \<open>The queues of the semaphores, by key\<close>

lemma waiting_member: "sem_ok s A \<Longrightarrow> (i, q) \<in> set (a_asl A) \<Longrightarrow> waiting s A (s_key s i) = q"
  using semd_of_member[of s A "(i, q)"] by (simp add: waiting_def)

lemma waiting_none: "\<forall>iq\<in>set (a_asl A). s_key s (fst iq) \<noteq> k \<Longrightarrow> waiting s A k = []"
  using semd_of_None[of s A k] by (simp add: waiting_def)

lemma waiting_cong: "a_asl A' = a_asl A \<Longrightarrow> s_key s' = s_key s \<Longrightarrow> waiting s' A' k = waiting s A k"
  by (simp add: waiting_def semd_of_def)

lemma waiting_cases:
  assumes "sem_ok s A"
  obtains "waiting s A k = []" and "\<forall>iq\<in>set (a_asl A). s_key s (fst iq) \<noteq> k"
    | i where "(i, waiting s A k) \<in> set (a_asl A)" and "s_key s i = k"
proof (cases "semd_of s A k")
  case None
  then show ?thesis using that(1) semd_of_None[of s A k] by (simp add: waiting_def)
next
  case (Some iq)
  then show ?thesis using that(2)[of "fst iq"] semd_of_SomeD[OF Some] by (simp add: waiting_def)
qed

lemma waiting_blocked:
  assumes "sem_ok s A" and "p \<in> set (waiting s A k)"
  shows "p \<in> set (a_blocked A)" and "p_semAdd (pcbs s p) = k"
proof -
  show "p \<in> set (a_blocked A)"
  proof (rule waiting_cases[OF assms(1), of k])
    fix i assume "(i, waiting s A k) \<in> set (a_asl A)"
    with assms(2) show ?thesis by (auto simp: set_a_blocked intro!: bexI[of _ "(i, waiting s A k)"])
  qed (use assms(2) in simp)
  show "p_semAdd (pcbs s p) = k"
  proof (rule waiting_cases[OF assms(1), of k])
    fix i assume i: "(i, waiting s A k) \<in> set (a_asl A)" "s_key s i = k"
    have "\<forall>x\<in>set (waiting s A k). p_semAdd (pcbs s x) = s_key s i"
      using assms(1) i(1) unfolding sem_ok_def by fastforce
    with assms(2) i(2) show ?thesis by simp
  qed (use assms(2) in simp)
qed

lemma waiting_unblock:
  assumes wf: "pcbs_wf A" "semds_wf A" and sem: "sem_ok s A" and iq: "(i, q) \<in> set (a_asl A)" and p: "p \<in> set q"
    and keys: "s_key s' = s_key s" and sem': "sem_ok s' (a_unblock i q sf p A)"
  shows "waiting s' (a_unblock i q sf p A) k = filter (\<lambda>x. x \<noteq> p) (waiting s A k)"
proof (rule a_unblock_cases[OF wf(2) iq, of sf p])
  note e = blocked_not_elsewhere[OF wf iq p]
  fix as bs
  assume dec: "a_asl A = as @ (i, q) # bs" "i \<notin> fst ` set as" "i \<notin> fst ` set bs"
    "a_asl (a_unblock i q sf p A) = as @ (if remove1 p q = [] then [] else [(i, remove1 p q)]) @ bs"
  have rm: "filter (\<lambda>x. x \<noteq> p) q = remove1 p q" using e(7) by (simp add: distinct_remove1_removeAll removeAll_filter_not_eq eq_commute)
  show ?thesis
  proof (rule waiting_cases[OF sem, of k])
    assume none: "waiting s A k = []" "\<forall>iq\<in>set (a_asl A). s_key s (fst iq) \<noteq> k"
    then have "\<forall>iq\<in>set (a_asl (a_unblock i q sf p A)). s_key s' (fst iq) \<noteq> k"
      unfolding dec(1,4) keys by auto
    with none(1) show ?thesis by (simp add: waiting_none)
  next
    fix j assume j: "(j, waiting s A k) \<in> set (a_asl A)" "s_key s j = k"
    have keyd: "distinct (map (\<lambda>iq. s_key s (fst iq)) (as @ (i, q) # bs))"
      using sem unfolding sem_ok_def dec(1) by blast
    show ?thesis
    proof (cases "j = i")
      case True
      then have w: "waiting s A k = q" using waiting_member[OF sem iq] j(2) by simp
      show ?thesis
      proof (cases "remove1 p q = []")
        case True
        have "\<forall>iq\<in>set (as @ bs). s_key s' (fst iq) \<noteq> k"
        proof
          fix jr assume "jr \<in> set (as @ bs)"
          then have "s_key s (fst jr) \<in> (\<lambda>iq. s_key s (fst iq)) ` set (as @ bs)" by (rule imageI)
          moreover have "s_key s i \<notin> (\<lambda>iq. s_key s (fst iq)) ` set (as @ bs)" using keyd by (simp add: image_Un)
          ultimately have "s_key s (fst jr) \<noteq> s_key s i" by metis
          then show "s_key s' (fst jr) \<noteq> k" using \<open>j = i\<close> j(2) keys by simp
        qed
        then have "waiting s' (a_unblock i q sf p A) k = []"
          by (intro waiting_none) (simp add: dec(4) True)
        then show ?thesis using True by (simp add: w rm)
      next
        case False
        then have "(i, remove1 p q) \<in> set (a_asl (a_unblock i q sf p A))" by (simp add: dec(4))
        then have "waiting s' (a_unblock i q sf p A) k = remove1 p q"
          using waiting_member[OF sem'] \<open>j = i\<close> j(2) keys by metis
        then show ?thesis by (simp add: w rm)
      qed
    next
      case False
      then have m: "(j, waiting s A k) \<in> set (a_asl (a_unblock i q sf p A))"
        using j(1) unfolding dec(1,4) by auto
      then have "waiting s' (a_unblock i q sf p A) k = waiting s A k"
        using waiting_member[OF sem' m] j(2) keys by simp
      moreover have "p \<notin> set (waiting s A k)" using e(6)[OF j(1)] False by blast
      then have "\<forall>x\<in>set (waiting s A k). x \<noteq> p" by metis
      then have "filter (\<lambda>x. x \<noteq> p) (waiting s A k) = waiting s A k" by (rule filter_True)
      ultimately show ?thesis by simp
    qed
  qed
qed

lemma waiting_block:
  assumes wf: "pcbs_wf A" "semds_wf A" and sem: "sem_ok s A" and p: "p \<in> set (a_det A)"
    and keys: "s_key s' = (case semd_of s A k of None \<Rightarrow> (s_key s)(hd (a_sfree A) := k) | Some _ \<Rightarrow> s_key s)"
    and sem': "sem_ok s' (a_block s k p A)"
  shows "waiting s' (a_block s k p A) j = (if j = k then waiting s A k @ [p] else waiting s A j)"
proof (cases "semd_of s A k")
  case None
  have sf: "hd (a_sfree A) \<in> set (a_sfree A)" using sfree_nonempty[OF wf] p by (cases "a_det A") auto
  then have fresh: "\<And>iq. iq \<in> set (a_asl A) \<Longrightarrow> fst iq \<noteq> hd (a_sfree A)"
    using wf(2) asl_queue_of(2) by metis
  have asl: "a_asl (a_block s k p A) = (hd (a_sfree A), [p]) # a_asl A" using None by (simp add: a_block_def)
  have key': "s_key s' = (s_key s)(hd (a_sfree A) := k)" using keys None by simp
  show ?thesis
  proof (cases "j = k")
    case True
    then show ?thesis using None asl key' by (simp add: waiting_def semd_of_def)
  next
    case False
    have "find (\<lambda>iq. s_key s' (fst iq) = j) xs = find (\<lambda>iq. s_key s (fst iq) = j) xs" if "set xs \<subseteq> set (a_asl A)" for xs
      using that fresh by (induction xs) (auto simp: key')
    then show ?thesis using False by (simp add: waiting_def semd_of_def asl key')
  qed
next
  case (Some iq)
  obtain i q where iq: "iq = (i, q)" by (cases iq)
  have k: "s_key s i = k" using semd_of_SomeD[OF Some] iq by simp
  have key': "s_key s' = s_key s" using keys Some by simp
  obtain as bs where dec: "a_asl A = as @ (i, q) # bs" "i \<notin> fst ` set as" "i \<notin> fst ` set bs"
    "a_asl (a_block s k p A) = as @ (i, q @ [p]) # bs"
    using a_block_cases[OF wf(2) Some[unfolded iq], of p] by metis
  have w: "waiting s A k = q" using Some iq by (simp add: waiting_def)
  show ?thesis
  proof (cases "j = k")
    case True
    have "(i, q @ [p]) \<in> set (a_asl (a_block s k p A))" by (simp add: dec(4))
    then show ?thesis using waiting_member[OF sem', of i "q @ [p]"] True k key' w by simp
  next
    case False
    then have "find (\<lambda>iq. s_key s' (fst iq) = j) (as @ (i, q @ [p]) # bs) = find (\<lambda>iq. s_key s (fst iq) = j) (as @ (i, q) # bs)"
      using k key' by (induction as) auto
    then show ?thesis using False by (simp add: waiting_def semd_of_def dec(1,4))
  qed
qed

lemma semAdd_blocked:
  assumes "krep U s A" and "p \<in> set (a_alive A)"
  shows "p_semAdd (pcbs s p) \<noteq> NULL \<longleftrightarrow> p \<in> set (a_blocked A)"
proof -
  note K = krepD[OF assms(1)]
  show ?thesis
  proof
    assume "p_semAdd (pcbs s p) \<noteq> NULL"
    then have "p \<notin> set (a_free A @ a_lq A @ a_hq A @ a_det A)" using K(4) unfolding sem_ok_def by blast
    then show "p \<in> set (a_blocked A)" using assms(2) by (auto simp: set_a_alive)
  next
    assume "p \<in> set (a_blocked A)"
    then obtain iq where "iq \<in> set (a_asl A)" "p \<in> set (snd iq)" by (auto simp: set_a_blocked)
    then show "p_semAdd (pcbs s p) \<noteq> NULL" using K(4) by (auto simp: sem_ok_def)
  qed
qed

section \<open>A semaphore hands out its waiters in order\<close>

lemma remove_blocked_empty:
  assumes k: "krep U s A" and w: "waiting s A key = []"
  shows "remove_blocked key s = Ret None s"
proof -
  have "semd_of s A key = None"
  proof (rule ccontr)
    assume "semd_of s A key \<noteq> None"
    then obtain iq where iq: "semd_of s A key = Some iq" by blast
    then have "snd iq \<noteq> []" using semd_of_SomeD[OF iq] krepD(2)[OF k] by (auto simp: semds_wf_def)
    with w iq show False by (simp add: waiting_def)
  qed
  then show ?thesis by (rule remove_blocked_none[OF k])
qed

lemma waiting_semd:
  assumes "krep U s A" and "waiting s A k = t # ts"
  obtains i where "semd_of s A k = Some (i, t # ts)" and "(i, t # ts) \<in> set (a_asl A)"
  using assms(2) semd_of_SomeD[of s A k] by (auto simp: waiting_def split: option.splits)

text \<open>Taking the first waiter of \<open>key\<close>: the queue loses its head and no other queue changes.\<close>

lemma remove_blocked_first:
  assumes k: "krep U s A" and w: "waiting s A key = t # ts"
  obtains i s' where "(i, t # ts) \<in> set (a_asl A)" and "remove_blocked key s = Ret (Some t) s'"
    and "krep U s' (a_unblock i (t # ts) (i # a_sfree A) t A)" and "same_env s s'"
    and "pcbs s' = (pcbs s)(t := (pcbs s t)\<lparr>p_semAdd := NULL\<rparr>)"
    and "\<And>j. waiting s' (a_unblock i (t # ts) (i # a_sfree A) t A) j = (if j = key then ts else waiting s A j)"
proof -
  note K = krepD[OF k]
  obtain i where i: "semd_of s A key = Some (i, t # ts)" "(i, t # ts) \<in> set (a_asl A)" by (rule waiting_semd[OF k w])
  obtain s' where s': "remove_blocked key s = Ret (Some t) s'"
    "krep U s' (a_unblock i (t # ts) (i # a_sfree A) t A)" "same_env s s'" "s_key s' = s_key s"
    "pcbs s' = (pcbs s)(t := (pcbs s t)\<lparr>p_semAdd := NULL\<rparr>)"
    by (rule remove_blocked_refines[OF k i(1)])
  note wu = waiting_unblock[OF K(1,2,4) i(2) list.set_intros(1) s'(4) krepD(4)[OF s'(2)]]
  have d: "distinct (t # ts)" by (rule blocked_not_elsewhere(7)[OF K(1,2) i(2) list.set_intros(1)])
  have "filter (\<lambda>x. x \<noteq> t) (waiting s A key) = ts" using d unfolding w by (auto intro: filter_True)
  moreover have "filter (\<lambda>x. x \<noteq> t) (waiting s A j) = waiting s A j" if "j \<noteq> key" for j
  proof -
    have "t \<notin> set (waiting s A j)"
      using that waiting_blocked(2)[OF K(4), of t j] waiting_blocked(2)[OF K(4), of t key] w by auto
    then show ?thesis by (auto intro: filter_True)
  qed
  ultimately have "waiting s' (a_unblock i (t # ts) (i # a_sfree A) t A) j = (if j = key then ts else waiting s A j)" for j
    by (simp add: wu)
  then show thesis by (rule that[OF i(2) s'(1-3,5)])
qed

definition sem_holds :: "u32 \<Rightarrow> nat list \<Rightarrow> 'h kst \<Rightarrow> bool" where
  "sem_holds key ps s \<longleftrightarrow> (\<exists>(U :: 'h plat) A. krep U s A \<and> waiting s A key = ps)"

definition sem_fits :: "u32 \<Rightarrow> nat \<Rightarrow> nat list \<Rightarrow> 'h kst \<Rightarrow> bool" where
  "sem_fits key p ps s \<longleftrightarrow>
     key \<noteq> NULL \<and> (\<exists>(U :: 'h plat) A. krep U s A \<and> waiting s A key = ps \<and> p \<in> set (a_det A))"

interpretation sq: fifo_queue sem_holds remove_blocked sem_fits "\<lambda>key p s. out_st (insert_blocked key p s)"
proof unfold_locales
  fix q :: u32 and s :: "'a kst"
  assume "sem_holds q [] s"
  then show "remove_blocked q s = Ret None s" using remove_blocked_empty by (auto simp: sem_holds_def)
next
  fix q :: u32 and s :: "'a kst" and x xs
  assume "sem_holds q (x # xs) s"
  then obtain U :: "'a plat" and A where A: "krep U s A" "waiting s A q = x # xs" by (auto simp: sem_holds_def)
  obtain i s' where "remove_blocked q s = Ret (Some x) s'" "krep U s' (a_unblock i (x # xs) (i # a_sfree A) x A)"
    "waiting s' (a_unblock i (x # xs) (i # a_sfree A) x A) q = xs" using remove_blocked_first[OF A] by metis
  then show "\<exists>s'. remove_blocked q s = Ret (Some x) s' \<and> sem_holds q xs s'" by (auto simp: sem_holds_def)
next
  fix q :: u32 and s :: "'a kst" and x xs
  assume "sem_fits q x xs s"
  then obtain U :: "'a plat" and A where A: "krep U s A" "waiting s A q = xs" "x \<in> set (a_det A)" "q \<noteq> NULL"
    by (auto simp: sem_fits_def)
  note K = krepD[OF A(1)]
  obtain s1 where s1: "insert_blocked q x s = Ret False s1" "krep U s1 (a_block s q x A)"
    "s_key s1 = (case semd_of s A q of None \<Rightarrow> (s_key s)(hd (a_sfree A) := q) | Some _ \<Rightarrow> s_key s)"
    by (rule insert_blocked_refines[OF A(1,3,4)])
  have "waiting s1 (a_block s q x A) q = xs @ [x]"
    using waiting_block[OF K(1,2,4) A(3) s1(3) krepD(4)[OF s1(2)], of q] A(2) by simp
  then show "sem_holds q (xs @ [x]) (out_st (insert_blocked q x s))"
    unfolding sem_holds_def using s1(1,2) by auto
qed

end
