(* ===== verification/Scheduler.thy ===== *)
theory Scheduler
  imports Kmoves
begin

text \<open>
  \<open>src/scheduler.c\<close>: the two ready queues, the creation and the killing of a process, and
  the choice of the next one to run.
\<close>

section \<open>The operations of scheduler.c\<close>

definition set_act_proc :: "nat option \<Rightarrow> 'h kst \<Rightarrow> 'h kst" where
  "set_act_proc p s = s\<lparr>act_proc := p\<rparr>"

definition set_yielded :: "nat option \<Rightarrow> 'h kst \<Rightarrow> 'h kst" where
  "set_yielded p s = s\<lparr>yielded_proc := p\<rparr>"

definition upd_count :: "(u32 \<Rightarrow> u32) \<Rightarrow> 'h kst \<Rightarrow> 'h kst" where
  "upd_count f s = s\<lparr>procs_count := f (procs_count s)\<rparr>"

definition upd_sb :: "(u32 \<Rightarrow> u32) \<Rightarrow> 'h kst \<Rightarrow> 'h kst" where
  "upd_sb f s = s\<lparr>sb_procs := f (sb_procs s)\<rparr>"

definition init_scheduler :: "'h kst \<Rightarrow> 'h kst" where
  "init_scheduler s =
     mk_empty_proc_q HQueue (mk_empty_proc_q LQueue
       (set_act_proc None (upd_sb (\<lambda>_. 0) (upd_count (\<lambda>_. 0) s))))"

definition RAMTOP :: "'h kst \<Rightarrow> u32" where
  "RAMTOP s = mem s RAMBASEADDR + mem s RAMBASESIZE"

definition enqueue_proc :: "nat \<Rightarrow> u32 \<Rightarrow> 'h kst \<Rightarrow> 'h kst" where
  "enqueue_proc pcb priority s =
     (if priority = PROCESS_PRIO_HIGH then insert_proc_q HQueue pcb s
      else if priority = PROCESS_PRIO_LOW then insert_proc_q LQueue pcb s
      else s)"

definition dequeue_proc :: "u32 \<Rightarrow> (nat option, 'h) km" where
  "dequeue_proc priority =
     (if priority = PROCESS_PRIO_HIGH then remove_proc_q HQueue
      else if priority = PROCESS_PRIO_LOW then remove_proc_q LQueue
      else kreturn None)"

definition create_init_proc :: "'h plat \<Rightarrow> u32 \<Rightarrow> (unit, 'h) km" where
  "create_init_proc U entry_point =
     kbind (alloc_pcb U) (\<lambda>proc.
       case proc of
         None \<Rightarrow> kseq (kmodify (LOG ''S'' ''Impossible to allocate init process'')) PANIC
       | Some p \<Rightarrow> (\<lambda>s.
           Ret () (insert_proc_q LQueue p
             (upd_count (\<lambda>c. c + 1)
               (upd_pcb p (\<lambda>q. q\<lparr>p_s := (set_reg (reg_sp U) (RAMTOP s)
                                          (set_reg (reg_t9 U) entry_point (p_s q)))
                                        \<lparr>pc_epc := entry_point,
                                         status := ALLOFF OR STATUS_TE U OR STATUS_IM_MASK U
                                                     OR STATUS_KUc U OR STATUS_IEp U\<rparr>,
                                 p_prio := PROCESS_PRIO_LOW,
                                 p_pid := pcb_addr U p\<rparr>) s)))))"

definition plt_value :: "'h kst \<Rightarrow> u32" where
  "plt_value s = TIMESLICE * mem s TIMESCALEADDR"

text \<open>\<open>yielded_proc\<close> goes back to its queue, if there is one.\<close>

definition requeue_yielded :: "'h kst \<Rightarrow> 'h kst" where
  "requeue_yielded s =
     (case yielded_proc s of
        None \<Rightarrow> s
      | Some y \<Rightarrow> set_yielded None (enqueue_proc y (p_prio (pcbs s y)) s))"

definition read_tod :: "'h plat \<Rightarrow> (u32, 'h) km" where
  "read_tod U = (\<lambda>s. case STCK U (hw s) of (now, h) \<Rightarrow> Ret now (s\<lparr>hw := h\<rparr>))"

definition load_proc :: "'h plat \<Rightarrow> nat option \<Rightarrow> (unit, 'h) km" where
  "load_proc U pcb =
     (case pcb of
        None \<Rightarrow> kmodify (LOG ''S'' ''Attempt to load NULL pcb'')
      | Some p \<Rightarrow>
          kseq (kmodify requeue_yielded)
         (kseq (kmodify (set_act_proc (Some p)))
         (kseq (kmodify (\<lambda>s. upd_hw (setTIMER U (plt_value s)) s))
         (kseq (kmodify (upd_pcb p (\<lambda>q. q\<lparr>p_s := (p_s q)\<lparr>status := status (p_s q) OR (STATUS_IEp U OR STATUS_TE U)\<rparr>\<rparr>)))
         (kseq (kmodify (\<lambda>s. if p_prio (pcbs s p) = PROCESS_PRIO_HIGH
                             then upd_pcb p (\<lambda>q. q\<lparr>p_s := (p_s q)\<lparr>status := status (p_s q) XOR STATUS_TE U\<rparr>\<rparr>) s
                             else s))
         (kbind (read_tod U) (\<lambda>now.
          kseq (kmodify (upd_pcb p (\<lambda>q. q\<lparr>p_tm_updt := now\<rparr>)))
               (kread (\<lambda>s. kstop (Ldst (p_s (pcbs s p))))))))))))"

text \<open>
  The call of \<open>scheduler_next\<close> that follows \<open>WAIT\<close> in the source is reached only if the
  processor wakes without taking the interrupt; it is a step of the machine in \<open>Kernel\<close>.
\<close>

definition scheduler_wait :: "'h plat \<Rightarrow> (unit, 'h) km" where
  "scheduler_wait U =
     kseq (kmodify requeue_yielded)
    (kseq (kmodify (set_act_proc None))
    (kseq (kmodify (\<lambda>s. upd_hw (setTIMER U (plt_value s)) s))
    (kseq (kmodify (\<lambda>s. upd_hw (setSTATUS U ((getSTATUS U (hw s) OR STATUS_IEc U OR STATUS_TE U) XOR STATUS_TE U)) s))
    (kseq (kmodify (LOG ''S'' ''No ready process available: waiting...''))
          (kstop Wait)))))"

definition load_next :: "'h plat \<Rightarrow> u32 \<Rightarrow> string \<Rightarrow> (unit, 'h) km" where
  "load_next U prio msg =
     kbind (dequeue_proc prio) (\<lambda>next_proc.
       if pcb_word U next_proc + offset_p_s U = NULL
       then kseq (kmodify (LOG ''S'' msg)) PANIC
       else load_proc U next_proc)"

definition scheduler_next :: "'h plat \<Rightarrow> (unit, 'h) km" where
  "scheduler_next U = (\<lambda>s.
     if \<not> empty_proc_q HQueue s then
       load_next U PROCESS_PRIO_HIGH (''Something wrong with high prior queue. Panicing...'' @ [CHR 0x0A]) s
     else if \<not> empty_proc_q LQueue s then
       load_next U PROCESS_PRIO_LOW (''Something wrong with low prior queue. Panicing...'' @ [CHR 0x0A]) s
     else if procs_count s = 0 then
       kseq (kmodify (LOG ''S'' ''No process alive: halting'')) (kstop Halt) s
     else if procs_count s > 0 \<and> sb_procs s > 0 then scheduler_wait U s
     else if procs_count s > 0 \<and> sb_procs s = 0 then
       kseq (kmodify (LOG ''S'' ''DEADLOCK: panicing'')) PANIC s
     else kseq (kmodify (LOG ''S'' ''SCHEDULER PANIC'')) PANIC s)"

definition mk_proc :: "'h plat \<Rightarrow> u32 \<Rightarrow> u32 \<Rightarrow> u32 \<Rightarrow> (nat option, 'h) km" where
  "mk_proc U statep prio supportp =
     kbind (alloc_pcb U) (\<lambda>result.
       case result of
         None \<Rightarrow> kreturn None
       | Some r \<Rightarrow>
           kseq (kmodify (\<lambda>s. upd_pcb r (\<lambda>q. q\<lparr>p_supportStruct := supportp, p_prio := prio,
                                              p_s := states s statep, p_pid := pcb_addr U r\<rparr>) s))
           (\<lambda>s. case act_proc s of
                  None \<Rightarrow> Stop Wild s
                | Some a \<Rightarrow>
                    Ret (Some r) (enqueue_proc r prio (upd_count (\<lambda>c. c + 1) (insert_child a r s)))))"

definition kill_proc :: "nat option \<Rightarrow> (unit, 'h) km" where
  "kill_proc po =
     (case po of
        None \<Rightarrow> kseq (kmodify (LOG ''S'' ''Attempt to kill a NULL proc'')) PANIC
      | Some p \<Rightarrow>
          kseq (kmodify (upd_count (\<lambda>c. c - 1)))
         (kseq (\<lambda>s. if p_parent (pcbs s p) \<noteq> None
                    then kbind (out_child p) (\<lambda>r.
                           if r \<noteq> Some p then kseq (kmodify (LOG ''S'' ''HOPE'')) PANIC else kreturn ()) s
                    else Ret () s)
         (kseq (\<lambda>s. if p_semAdd (pcbs s p) \<noteq> NULL
                    then kseq (kmodify (upd_sb (\<lambda>c. c - 1)))
                          (kbind (out_blocked (Some p)) (\<lambda>r.
                             if r = None
                             then kseq (kread (\<lambda>s. kmodify (LOGi ''S'' ''Could not remove process from semaphore '' (p_pid (pcbs s p)))))
                                       PANIC
                             else kreturn ())) s
                    else Ret () s)
         (kseq (\<lambda>s. if p_prio (pcbs s p) = PROCESS_PRIO_HIGH
                    then kseq (out_proc_q HQueue p) (kreturn ()) s
                    else if p_prio (pcbs s p) = PROCESS_PRIO_LOW
                    then kseq (out_proc_q LQueue p) (kreturn ()) s
                    else Ret () s)
               (kmodify (free_pcb p))))))"

lemma set_act_proc_sel [simp]:
  "lh (set_act_proc a s) = lh s" "pcbs (set_act_proc a s) = pcbs s" "s_key (set_act_proc a s) = s_key s"
  "act_proc (set_act_proc a s) = a" "yielded_proc (set_act_proc a s) = yielded_proc s"
  "sb_procs (set_act_proc a s) = sb_procs s" "procs_count (set_act_proc a s) = procs_count s"
  "mem (set_act_proc a s) = mem s" "states (set_act_proc a s) = states s"
  "supports (set_act_proc a s) = supports s" "hw (set_act_proc a s) = hw s" "klogb (set_act_proc a s) = klogb s"
  by (simp_all add: set_act_proc_def)

lemma set_yielded_sel [simp]:
  "lh (set_yielded a s) = lh s" "pcbs (set_yielded a s) = pcbs s" "s_key (set_yielded a s) = s_key s"
  "act_proc (set_yielded a s) = act_proc s" "yielded_proc (set_yielded a s) = a"
  "sb_procs (set_yielded a s) = sb_procs s" "procs_count (set_yielded a s) = procs_count s"
  "mem (set_yielded a s) = mem s" "states (set_yielded a s) = states s"
  "supports (set_yielded a s) = supports s" "hw (set_yielded a s) = hw s" "klogb (set_yielded a s) = klogb s"
  by (simp_all add: set_yielded_def)

lemma upd_count_sel [simp]:
  "lh (upd_count f s) = lh s" "pcbs (upd_count f s) = pcbs s" "s_key (upd_count f s) = s_key s"
  "act_proc (upd_count f s) = act_proc s" "yielded_proc (upd_count f s) = yielded_proc s"
  "sb_procs (upd_count f s) = sb_procs s" "procs_count (upd_count f s) = f (procs_count s)"
  "mem (upd_count f s) = mem s" "states (upd_count f s) = states s"
  "supports (upd_count f s) = supports s" "hw (upd_count f s) = hw s" "klogb (upd_count f s) = klogb s"
  by (simp_all add: upd_count_def)

lemma upd_sb_sel [simp]:
  "lh (upd_sb f s) = lh s" "pcbs (upd_sb f s) = pcbs s" "s_key (upd_sb f s) = s_key s"
  "act_proc (upd_sb f s) = act_proc s" "yielded_proc (upd_sb f s) = yielded_proc s"
  "sb_procs (upd_sb f s) = f (sb_procs s)" "procs_count (upd_sb f s) = procs_count s"
  "mem (upd_sb f s) = mem s" "states (upd_sb f s) = states s"
  "supports (upd_sb f s) = supports s" "hw (upd_sb f s) = hw s" "klogb (upd_sb f s) = klogb s"
  by (simp_all add: upd_sb_def)

lemma enqueue_proc_sel [simp]:
  "pcbs (enqueue_proc p pr s) = pcbs s" "s_key (enqueue_proc p pr s) = s_key s"
  "act_proc (enqueue_proc p pr s) = act_proc s" "yielded_proc (enqueue_proc p pr s) = yielded_proc s"
  "sb_procs (enqueue_proc p pr s) = sb_procs s" "procs_count (enqueue_proc p pr s) = procs_count s"
  "mem (enqueue_proc p pr s) = mem s" "states (enqueue_proc p pr s) = states s"
  "supports (enqueue_proc p pr s) = supports s" "hw (enqueue_proc p pr s) = hw s" "klogb (enqueue_proc p pr s) = klogb s"
  by (simp_all add: enqueue_proc_def)

section \<open>Ready queues\<close>

lemma prio_okD:
  assumes "prio_ok s A"
  shows "p \<in> set (a_lq A) \<Longrightarrow> p_prio (pcbs s p) = PROCESS_PRIO_LOW"
    and "p \<in> set (a_hq A) \<Longrightarrow> p_prio (pcbs s p) = PROCESS_PRIO_HIGH"
  using assms by (simp_all add: prio_ok_def)

lemma enqueue_proc_krep:
  "krep U s A \<Longrightarrow> p \<in> set (a_det A) \<Longrightarrow> krep U (enqueue_proc p pr s) (a_enq pr p A)"
  using enqueue_krep[of U s A p] by (simp add: enqueue_proc_def a_enq_def)

lemma enqueue_proc_kinv:
  assumes k: "kinv U s A" and p: "p \<in> set (a_det A)"
  shows "kinv U (enqueue_proc p (p_prio (pcbs s p)) s) (a_enq (p_prio (pcbs s p)) p A)"
proof -
  have r: "krep U s A" "kcnt s A" "prio_ok s A" using k by (simp_all add: kinv_def)
  have "length (a_alive (a_enq pr p A)) = length (a_alive A)" for pr
    using a_enq_alive[OF p, of pr] by (metis size_mset)
  then have "kcnt (enqueue_proc p (p_prio (pcbs s p)) s) (a_enq (p_prio (pcbs s p)) p A)"
    using r(2) by (simp add: kcnt_def)
  moreover have "prio_ok (enqueue_proc p (p_prio (pcbs s p)) s) (a_enq (p_prio (pcbs s p)) p A)"
    using r(3) by (auto simp: prio_ok_def a_enq_def)
  ultimately show ?thesis using enqueue_proc_krep[OF r(1) p] by (simp add: kinv_def)
qed

lemma dequeue_proc_run:
  assumes "krep U s A"
  shows "a_hq A = p # ps \<Longrightarrow> dequeue_proc PROCESS_PRIO_HIGH s = Ret (Some p) (unqueue p s) \<and> krep U (unqueue p s) (a_deq p A)"
    and "a_lq A = p # ps \<Longrightarrow> dequeue_proc PROCESS_PRIO_LOW s = Ret (Some p) (unqueue p s) \<and> krep U (unqueue p s) (a_deq p A)"
  using dequeue_krep[OF assms, of p] remove_proc_q_run(1)[OF krepD(3)[OF assms], of HQueue p ps]
    remove_proc_q_run(1)[OF krepD(3)[OF assms], of LQueue p ps]
  by (simp_all add: dequeue_proc_def)

lemma a_deq_kinv:
  assumes k: "kinv U s A" and p: "p \<in> set (a_hq A) \<or> p \<in> set (a_lq A)" and r: "krep U (unqueue p s) (a_deq p A)"
  shows "kinv U (unqueue p s) (a_deq p A)"
proof -
  have "krep U s A" "kcnt s A" "prio_ok s A" using k by (simp_all add: kinv_def)
  moreover have "length (a_alive (a_deq p A)) = length (a_alive A)"
    using a_deq_alive(2)[OF krepD(1)[OF \<open>krep U s A\<close>] p] by (metis size_mset)
  ultimately show ?thesis using r by (auto simp: kinv_def kcnt_def prio_ok_def dest: notin_set_remove1)
qed

section \<open>Killing\<close>

text \<open>What no operation on processes touches: the running process, memory and the processor.\<close>

definition same_user :: "'h kst \<Rightarrow> 'h kst \<Rightarrow> bool" where
  "same_user s s' \<longleftrightarrow> act_proc s' = act_proc s \<and> yielded_proc s' = yielded_proc s \<and> mem s' = mem s \<and>
     states s' = states s \<and> supports s' = supports s \<and> hw s' = hw s \<and> klogb s' = klogb s"

text \<open>
  The processes \<open>D\<close> have died and nothing else has changed: the others keep their PCB, their
  place in the ready queue or in the queue of their semaphore, and their family.
\<close>

definition killed :: "nat set \<Rightarrow> 'h kst \<Rightarrow> kabs \<Rightarrow> 'h kst \<Rightarrow> kabs \<Rightarrow> bool" where
  "killed D s A s' A' \<longleftrightarrow>
     set (a_alive A') = set (a_alive A) - D \<and>
     a_lq A' = filter (\<lambda>x. x \<notin> D) (a_lq A) \<and>
     a_hq A' = filter (\<lambda>x. x \<notin> D) (a_hq A) \<and>
     a_det A' = filter (\<lambda>x. x \<notin> D) (a_det A) \<and>
     (\<forall>k. waiting s' A' k = filter (\<lambda>x. x \<notin> D) (waiting s A k)) \<and>
     tree_rel s' A' = {(a, b) \<in> tree_rel s A. b \<notin> D} \<and>
     (\<forall>x. x \<notin> D \<longrightarrow> pcbs s' x = pcbs s x) \<and>
     same_user s s'"

lemma killed_trans:
  assumes "killed D s A s' A'" and "killed E s' A' s'' A''"
  shows "killed (D \<union> E) s A s'' A''"
  using assms unfolding killed_def same_user_def by (auto simp: conj_ac)

lemma killed_orphan:
  assumes "killed D (orphan c s) (a_orphan q c A) s' A'" and "c \<in> D"
  shows "killed D s A s' A'"
proof -
  have "tree_rel (orphan c s) (a_orphan q c A) = {(a, b) \<in> tree_rel s A. b \<noteq> c}"
    by (rule tree_rel_orphan) simp_all
  moreover have "waiting (orphan c s) (a_orphan q c A) k = waiting s A k" for k by (rule waiting_cong) simp_all
  ultimately show ?thesis using assms unfolding killed_def same_user_def by auto
qed

lemma out_proc_q_ready:
  assumes k: "krep U s A" and p: "p \<in> set (a_det A)"
  shows "out_proc_q HQueue p s = Ret None s" and "out_proc_q LQueue p s = Ret None s"
  using det_not_elsewhere[OF krepD(1)[OF k] p] out_proc_q_absent[OF krepD(3)[OF k], of HQueue "a_hq A" p]
    out_proc_q_absent[OF krepD(3)[OF k], of LQueue "a_lq A" p] by simp_all

lemma filter_neq_remove1: "distinct xs \<Longrightarrow> filter (\<lambda>x. x \<noteq> p) xs = remove1 p xs"
  by (simp add: distinct_remove1_removeAll removeAll_filter_not_eq eq_commute)

lemma filter_neq_id: "p \<notin> set xs \<Longrightarrow> filter (\<lambda>x. x \<noteq> p) xs = xs"
  by (rule filter_True) metis

text \<open>The tail of \<open>kill_proc\<close>, once the process is out of the tree and out of its semaphore.\<close>

definition kill_tail :: "nat \<Rightarrow> (unit, 'h) km" where
  "kill_tail p =
     kseq (\<lambda>s. if p_prio (pcbs s p) = PROCESS_PRIO_HIGH
               then kseq (out_proc_q HQueue p) (kreturn ()) s
               else if p_prio (pcbs s p) = PROCESS_PRIO_LOW
               then kseq (out_proc_q LQueue p) (kreturn ()) s
               else Ret () s)
          (kmodify (free_pcb p))"

lemma distinct_places:
  assumes "pcbs_wf A"
  shows "distinct (a_lq A)" "distinct (a_hq A)" "distinct (a_det A)" "distinct (a_free A)"
  using assms by (simp_all add: pcbs_wf_def a_alive_def)

lemma kill_tail_det:
  assumes k: "krep U s A" and p: "p \<in> set (a_det A)" and root: "p_parent (pcbs s p) = None" and kids: "a_kids A p = []"
  shows "kill_tail p s = Ret () (free_pcb p s) \<and> krep U (free_pcb p s) (a_release p A) \<and>
    killed {p} s A (free_pcb p s) (a_release p A)"
proof -
  note d = det_not_elsewhere[OF krepD(1)[OF k] p] and dp = distinct_places[OF krepD(1)[OF k]]
  have "kill_tail p s = Ret () (free_pcb p s)"
    using out_proc_q_ready[OF k p] by (simp add: kill_tail_def run_simps)
  moreover have "waiting (free_pcb p s) (a_release p A) key = waiting s A key" for key by (rule waiting_cong) simp_all
  moreover have "p \<notin> set (waiting s A key)" for key
    using waiting_blocked(1)[OF krepD(4)[OF k]] d(4) by blast
  moreover have "tree_rel (free_pcb p s) (a_release p A) = tree_rel s A"
    using root by (auto simp: tree_rel_def a_release_alive(2)[OF krepD(1)[OF k] p])
  then have "tree_rel (free_pcb p s) (a_release p A) = {(a, b) \<in> tree_rel s A. b \<noteq> p}"
    using root by (auto simp: tree_rel_def)
  ultimately show ?thesis
    using free_krep[OF k p root kids] d dp a_release_alive(2)[OF krepD(1)[OF k] p]
    by (simp add: killed_def same_user_def filter_neq_id filter_neq_remove1)
qed

lemma kill_tail_ready:
  assumes k: "krep U s A" and pr: "prio_ok s A" and p: "p \<in> set (a_hq A) \<or> p \<in> set (a_lq A)"
    and root: "p_parent (pcbs s p) = None" and kids: "a_kids A p = []"
  shows "kill_tail p s = Ret () (free_pcb p (unqueue p s)) \<and>
    krep U (free_pcb p (unqueue p s)) (a_release p (a_deq p A)) \<and>
    killed {p} s A (free_pcb p (unqueue p s)) (a_release p (a_deq p A))"
proof -
  note K = krepD[OF k] and dp = distinct_places[OF krepD(1)[OF k]]
  have k': "krep U (unqueue p s) (a_deq p A)" and run: "kill_tail p s = Ret () (free_pcb p (unqueue p s))"
    using p dequeue_krep[OF k, of p] prio_okD[OF pr, of p] by (auto simp: kill_tail_def run_simps)
  have p': "p \<in> set (a_det (a_deq p A))" by simp
  have out: "p \<notin> set (a_det A)" "p \<notin> set (a_blocked A)" using ready_not_elsewhere(3)[OF K(1) p] by simp_all
  have al: "set (a_alive (a_deq p A)) = set (a_alive A)" by (rule mset_eq_setD[OF a_deq_alive(2)[OF K(1) p]])
  have "waiting (free_pcb p (unqueue p s)) (a_release p (a_deq p A)) key = waiting s A key" for key
    by (rule waiting_cong) simp_all
  moreover have "p \<notin> set (waiting s A key)" for key using waiting_blocked(1)[OF K(4)] out(2) by blast
  moreover have "tree_rel (free_pcb p (unqueue p s)) (a_release p (a_deq p A)) = {(a, b) \<in> tree_rel s A. b \<noteq> p}"
    using root by (auto simp: tree_rel_def a_release_alive(2)[OF krepD(1)[OF k'] p'] al)
  ultimately show ?thesis
    using run free_krep[OF k' p'] root kids a_release_alive(2)[OF krepD(1)[OF k'] p'] al out dp
    by (simp add: killed_def same_user_def filter_neq_id filter_neq_remove1)
qed

lemma pcbs_wf_blocked:
  "pcbs_wf A \<Longrightarrow> set (a_blocked A) = set (a_alive A) - set (a_lq A) - set (a_hq A) - set (a_det A)"
  by (auto simp: pcbs_wf_def a_alive_def)

lemma killed_blocked:
  assumes "killed D s A s' A'" and "pcbs_wf A" and "pcbs_wf A'"
  shows "set (a_blocked A') = set (a_blocked A) - D"
  unfolding pcbs_wf_blocked[OF assms(2)] pcbs_wf_blocked[OF assms(3)]
  using assms(1) by (auto simp: killed_def)

lemma pcbs_wf_lengths:
  assumes "pcbs_wf A"
  shows "length (a_alive A) = card (set (a_alive A))" and "length (a_blocked A) = card (set (a_blocked A))"
proof -
  have d: "distinct (a_alive A)" using assms by (simp add: pcbs_wf_def)
  then show "length (a_alive A) = card (set (a_alive A))" by (simp add: distinct_card)
  have "distinct (a_blocked A)" using d by (simp add: a_alive_def)
  then show "length (a_blocked A) = card (set (a_blocked A))" by (simp add: distinct_card)
qed

lemma of_nat_card_diff: "finite S \<Longrightarrow> p \<in> S \<Longrightarrow> (of_nat (card S) :: u32) - 1 = of_nat (card (S - {p}))"
  by (metis Diff_insert_absorb add_diff_cancel_left' card.remove of_nat_Suc)

text \<open>The counters after one process has died.\<close>

lemma killed_one_kinv:
  assumes k: "kinv U s A" and k': "krep U s' A'" and kd: "killed {p} s A s' A'" and p: "p \<in> set (a_alive A)"
    and pc: "procs_count s' = procs_count s - 1"
    and sb: "sb_procs s' = (if p \<in> set (a_blocked A) then sb_procs s - 1 else sb_procs s)"
  shows "kinv U s' A'"
proof -
  have r: "krep U s A" "kcnt s A" "prio_ok s A" using k by (simp_all add: kinv_def)
  note wf = krepD(1)[OF r(1)] krepD(1)[OF k']
  note len = pcbs_wf_lengths[OF wf(1)] pcbs_wf_lengths[OF wf(2)]
  have al: "set (a_alive A') = set (a_alive A) - {p}" using kd by (simp add: killed_def)
  have bl: "set (a_blocked A') = set (a_blocked A) - {p}" by (rule killed_blocked[OF kd wf])
  have "kcnt s' A'"
    using r(2) p of_nat_card_diff[of "set (a_alive A)" p] of_nat_card_diff[of "set (a_blocked A)" p]
    unfolding kcnt_def len al bl pc sb by auto
  moreover have "prio_ok s' A'" using r(3) kd by (auto simp: prio_ok_def killed_def)
  ultimately show ?thesis using k' by (simp add: kinv_def)
qed

lemma killed_unblock:
  assumes k: "krep U s A" and iq: "(i, q) \<in> set (a_asl A)" and p: "p \<in> set q"
    and k1: "krep U s1 (a_unblock i q sf p A)" and env: "same_user s s1" and keys: "s_key s1 = s_key s"
    and pc: "pcbs s1 = (pcbs s)(p := (pcbs s p)\<lparr>p_semAdd := NULL\<rparr>)"
    and kd: "killed {p} s1 (a_unblock i q sf p A) s' A'"
  shows "killed {p} s A s' A'"
proof -
  note K = krepD[OF k]
  have "waiting s1 (a_unblock i q sf p A) key = filter (\<lambda>x. x \<noteq> p) (waiting s A key)" for key
    by (rule waiting_unblock[OF K(1,2,4) iq p keys krepD(4)[OF k1]])
  moreover have al: "set (a_alive (a_unblock i q sf p A)) = set (a_alive A)"
    by (rule mset_eq_setD[OF a_unblock_alive[OF K(2) iq p]])
  moreover have "tree_rel s1 (a_unblock i q sf p A) = tree_rel s A"
    using al by (auto simp: tree_rel_def pc)
  ultimately show ?thesis using kd env by (simp add: killed_def same_user_def pc)
qed

lemma kill_proc_kinv:
  assumes k: "kinv U s A" and p: "p \<in> set (a_alive A)" and kids: "a_kids A p = []"
  obtains s' A' where "kill_proc (Some p) s = Ret () s'" and "kinv U s' A'" and "killed {p} s A s' A'"
proof -
  note concl = that
  have r: "krep U s A" "kcnt s A" "prio_ok s A" using k by (simp_all add: kinv_def)
  let ?s1 = "upd_count (\<lambda>c. c - 1) s"
  have k1: "krep U ?s1 A" by (rule krep_cong[OF r(1)]) simp_all
  have kd1: "killed D s A s' A'" if "killed D ?s1 A s' A'" for D s' A'
  proof -
    have "tree_rel ?s1 A = tree_rel s A" by (simp add: tree_rel_def)
    then show ?thesis using that waiting_cong[of A A ?s1 s] by (simp add: killed_def same_user_def)
  qed
  define s2 where "s2 = (case p_parent (pcbs s p) of None \<Rightarrow> ?s1 | Some q \<Rightarrow> orphan p ?s1)"
  define A2 where "A2 = (case p_parent (pcbs s p) of None \<Rightarrow> A | Some q \<Rightarrow> a_orphan q p A)"
  have run2: "(if p_parent (pcbs ?s1 p) \<noteq> None
        then kbind (out_child p) (\<lambda>r. if r \<noteq> Some p then kseq (kmodify (LOG ''S'' ''HOPE'')) PANIC else kreturn ()) ?s1
        else Ret () ?s1) = Ret () s2"
    using orphan_krep(1)[OF k1 p] by (auto simp: s2_def kbind_def run_simps split: option.split)
  have k2: "krep U s2 A2"
    using k1 orphan_krep(2)[OF k1 p] by (simp add: s2_def A2_def split: option.split)
  have kd2: "killed D s A s' A'" if "killed D s2 A2 s' A'" "p \<in> D" for D s' A'
    using that kd1 killed_orphan[of D p ?s1 _ A s' A'] by (auto simp: s2_def A2_def split: option.splits)
  have same2: "a_alive A2 = a_alive A" "a_blocked A2 = a_blocked A" "a_kids A2 p = []" "a_lq A2 = a_lq A"
    "a_hq A2 = a_hq A" "a_det A2 = a_det A" "a_asl A2 = a_asl A"
    and f2: "p_parent (pcbs s2 p) = None" "\<And>x. p_prio (pcbs s2 x) = p_prio (pcbs s x)"
      "\<And>x. p_semAdd (pcbs s2 x) = p_semAdd (pcbs s x)" "sb_procs s2 = sb_procs s" "procs_count s2 = procs_count s - 1"
    using kids by (auto simp: A2_def s2_def split: option.split)
  have pr2: "prio_ok s2 A2" using r(3) same2 f2 by (simp add: prio_ok_def)
  have p2: "p \<in> set (a_alive A2)" using p same2 by simp
  have fin: thesis if run: "kill_proc (Some p) s = Ret () s'" and kk: "krep U s' A'" and kd: "killed {p} s2 A2 s' A'"
    and pc: "procs_count s' = procs_count s - 1"
    and sb: "sb_procs s' = (if p \<in> set (a_blocked A) then sb_procs s - 1 else sb_procs s)" for s' A'
    by (rule concl[OF run killed_one_kinv[OF k kk kd2[OF kd] p pc sb] kd2[OF kd]]) simp_all
  show thesis
  proof (cases "p \<in> set (a_blocked A2)")
    case False
    then have ns: "p_semAdd (pcbs s2 p) = NULL" using semAdd_blocked[OF k2 p2] by blast
    have run: "kill_proc (Some p) s = kill_tail p s2"
      using run2 ns by (simp add: kill_proc_def kill_tail_def kseq_def kbind_def kmodify_def)
    consider "p \<in> set (a_det A2)" | "p \<in> set (a_hq A2) \<or> p \<in> set (a_lq A2)"
      using p2 False by (auto simp: set_a_alive)
    then show thesis
    proof cases
      case 1
      show thesis using kill_tail_det[OF k2 1 f2(1) same2(3)] run False same2 f2
        by (intro fin[of "free_pcb p s2" "a_release p A2"]) simp_all
    next
      case 2
      show thesis using kill_tail_ready[OF k2 pr2 2 f2(1) same2(3)] run False same2 f2
        by (intro fin[of "free_pcb p (unqueue p s2)" "a_release p (a_deq p A2)"]) simp_all
    qed
  next
    case True
    then obtain i q where iq: "(i, q) \<in> set (a_asl A2)" "p \<in> set q" by (auto simp: set_a_blocked)
    let ?s3 = "upd_sb (\<lambda>c. c - 1) s2"
    have ns: "p_semAdd (pcbs s2 p) \<noteq> NULL" using True semAdd_blocked[OF k2 p2] by blast
    have k3: "krep U ?s3 A2" by (rule krep_cong[OF k2]) simp_all
    obtain s4 where s4: "out_blocked (Some p) ?s3 = Ret (Some p) s4"
      "krep U s4 (a_unblock i q (a_sfree A2 @ [i]) p A2)" "same_env ?s3 s4" "s_key s4 = s_key ?s3"
      "pcbs s4 = (pcbs ?s3)(p := (pcbs ?s3 p)\<lparr>p_semAdd := NULL\<rparr>)"
      by (rule out_blocked_refines[OF k3 iq])
    let ?A4 = "a_unblock i q (a_sfree A2 @ [i]) p A2"
    have run: "kill_proc (Some p) s = kill_tail p s4"
      using run2 ns s4(1) by (simp add: kill_proc_def kill_tail_def kseq_def kbind_def kmodify_def kreturn_def)
    have t: "kill_tail p s4 = Ret () (free_pcb p s4) \<and> krep U (free_pcb p s4) (a_release p ?A4) \<and>
        killed {p} s4 ?A4 (free_pcb p s4) (a_release p ?A4)"
      by (rule kill_tail_det[OF s4(2)]) (simp_all add: s4(5) f2 same2)
    have "killed {p} s2 A2 (free_pcb p s4) (a_release p ?A4)"
      by (rule killed_unblock[OF k2 iq s4(2)]) (use s4 t in \<open>auto simp: same_env_def same_user_def\<close>)
    then show thesis using t run True same2 f2 s4(3) 
      by (intro fin[of "free_pcb p s4" "a_release p ?A4"]) (simp_all add: same_env_def)
  qed
qed

section \<open>Creating\<close>

lemma length_alive_le: "pcbs_wf A \<Longrightarrow> length (a_free A) + length (a_alive A) = MAXPROC"
  using distinct_card[of "a_free A @ a_alive A"] by (simp only: pcbs_wf_def length_append) simp

definition a_create :: "u32 \<Rightarrow> nat \<Rightarrow> nat \<Rightarrow> kabs \<Rightarrow> kabs" where
  "a_create prio parent p A = a_enq prio p (a_adopt parent p (a_take p A))"

definition new_pcb :: "'h plat \<Rightarrow> 'h kst \<Rightarrow> nat \<Rightarrow> u32 \<Rightarrow> u32 \<Rightarrow> u32 \<Rightarrow> nat \<Rightarrow> pcb_t" where
  "new_pcb U s parent statep prio supportp p =
     \<lparr>p_parent = Some parent, p_s = states s statep, p_time = 0, p_tm_updt = 0, p_semAdd = NULL,
      p_supportStruct = supportp, p_prio = prio, p_pid = pcb_addr U p\<rparr>"

lemma mk_proc_none:
  "krep U s A \<Longrightarrow> a_free A = [] \<Longrightarrow> mk_proc U statep prio supportp s = Ret None s"
  by (simp add: mk_proc_def alloc_none kbind_def run_simps)

lemma a_create_alive:
  assumes "pcbs_wf A"
  shows "mset (a_alive (a_create prio parent p A)) = add_mset p (mset (a_alive A))"
    and "a_blocked (a_create prio parent p A) = a_blocked A"
  using a_enq_alive[of p "a_adopt parent p (a_take p A)" prio] a_take_alive(1)[of p A]
  by (simp_all add: a_create_def)

lemma mk_proc_kinv:
  assumes k: "kinv U s A" and act: "act_proc s = Some a" and a: "a \<in> set (a_alive A)" and f: "a_free A = p # ps"
  obtains s' where "mk_proc U statep prio supportp s = Ret (Some p) s'"
    and "kinv U s' (a_create prio a p A)" and "same_user s s'" and "s_key s' = s_key s"
    and "pcbs s' = (pcbs s)(p := new_pcb U s a statep prio supportp p)"
proof -
  have r: "krep U s A" "kcnt s A" "prio_ok s A" using k by (simp_all add: kinv_def)
  note K = krepD[OF r(1)]
  have na: "p \<notin> set (a_alive A)" using K(1) f by (auto simp: pcbs_wf_def)
  let ?g = "\<lambda>q. q\<lparr>p_supportStruct := supportp, p_prio := prio, p_s := states s statep, p_pid := pcb_addr U p\<rparr>"
  let ?s1 = "upd_pcb p ?g (alloc_st U p s)"
  let ?s' = "enqueue_proc p prio (upd_count (\<lambda>c. c + 1) (insert_child a p ?s1))"
  let ?A2 = "a_adopt a p (a_take p A)"
  have k1: "krep U ?s1 (a_take p A)" by (rule alloc_krep(2)[OF r(1) f]) simp_all
  have "krep U (insert_child a p ?s1) ?A2"
    by (rule insert_child_krep[OF k1]) (use a na in \<open>auto simp: a_take_alive reset_pcb_def\<close>)
  then have "krep U (upd_count (\<lambda>c. c + 1) (insert_child a p ?s1)) ?A2" by (rule krep_cong) simp_all
  then have k': "krep U ?s' (a_create prio a p A)"
    unfolding a_create_def by (rule enqueue_proc_krep) simp
  have al: "alloc_pcb U s = Ret (Some p) (alloc_st U p s)"
    by (rule alloc_krep(1)[OF r(1) f, of ?g]) simp_all
  have run: "mk_proc U statep prio supportp s = Ret (Some p) ?s'"
    by (simp add: mk_proc_def kbind_def kseq_def kmodify_def al act)
  have pc: "pcbs ?s' = (pcbs s)(p := new_pcb U s a statep prio supportp p)"
    by (cases "pcbs s p") (simp add: new_pcb_def reset_pcb_def)
  have "length (a_alive (a_create prio a p A)) = Suc (length (a_alive A))"
    using a_create_alive(1)[OF K(1)] by (metis size_add_mset size_mset)
  then have "kcnt ?s' (a_create prio a p A)"
    using r(2) by (simp add: kcnt_def a_create_alive(2)[OF K(1)])
  moreover have "p \<notin> set (a_lq A)" "p \<notin> set (a_hq A)" using na by (simp_all add: set_a_alive)
  then have "prio_ok ?s' (a_create prio a p A)"
    using r(3) unfolding prio_ok_def pc by (auto simp: a_create_def a_enq_def new_pcb_def)
  ultimately have "kinv U ?s' (a_create prio a p A)" using k' by (simp add: kinv_def)
  with run pc show thesis by (intro that[of ?s']) (simp_all add: same_user_def)
qed

section \<open>Dispatching\<close>

definition a_requeue :: "'h kst \<Rightarrow> kabs \<Rightarrow> kabs" where
  "a_requeue s A = (case yielded_proc s of None \<Rightarrow> A | Some y \<Rightarrow> a_enq (p_prio (pcbs s y)) y A)"

definition yielded_ok :: "'h kst \<Rightarrow> kabs \<Rightarrow> bool" where
  "yielded_ok s A \<longleftrightarrow> (\<forall>y. yielded_proc s = Some y \<longrightarrow> y \<in> set (a_det A))"

lemma requeue_yielded_sel [simp]:
  "pcbs (requeue_yielded s) = pcbs s" "s_key (requeue_yielded s) = s_key s"
  "act_proc (requeue_yielded s) = act_proc s" "yielded_proc (requeue_yielded s) = None"
  "sb_procs (requeue_yielded s) = sb_procs s" "procs_count (requeue_yielded s) = procs_count s"
  "mem (requeue_yielded s) = mem s" "states (requeue_yielded s) = states s"
  "supports (requeue_yielded s) = supports s" "hw (requeue_yielded s) = hw s" "klogb (requeue_yielded s) = klogb s"
  by (simp_all add: requeue_yielded_def split: option.split)

lemma requeue_yielded_kinv:
  assumes k: "kinv U s A" and y: "yielded_ok s A"
  shows "kinv U (requeue_yielded s) (a_requeue s A)"
proof (cases "yielded_proc s")
  case None
  then show ?thesis using k by (simp add: requeue_yielded_def a_requeue_def)
next
  case (Some y')
  then have "kinv U (enqueue_proc y' (p_prio (pcbs s y')) s) (a_enq (p_prio (pcbs s y')) y' A)"
    using enqueue_proc_kinv[OF k] y by (simp add: yielded_ok_def)
  then have "kinv U (set_yielded None (enqueue_proc y' (p_prio (pcbs s y')) s)) (a_enq (p_prio (pcbs s y')) y' A)"
    by (rule kinv_cong) simp_all
  then show ?thesis using Some by (simp add: requeue_yielded_def a_requeue_def)
qed

lemma a_enq_det_other: "x \<noteq> y \<Longrightarrow> x \<in> set (a_det (a_enq pr y A)) \<longleftrightarrow> x \<in> set (a_det A)"
  by (simp add: a_enq_def)

lemma a_requeue_det: "x \<in> set (a_det A) \<Longrightarrow> yielded_proc s \<noteq> Some x \<Longrightarrow> x \<in> set (a_det (a_requeue s A))"
  by (auto simp: a_requeue_def a_enq_det_other split: option.split)

text \<open>The processor state \<open>load_proc\<close> loads, and the PCB it leaves.\<close>

definition loaded_status :: "'h plat \<Rightarrow> pcb_t \<Rightarrow> u32" where
  "loaded_status U q =
     (let st = status (p_s q) OR (STATUS_IEp U OR STATUS_TE U)
      in if p_prio q = PROCESS_PRIO_HIGH then st XOR STATUS_TE U else st)"

definition loaded_pcb :: "'h plat \<Rightarrow> 'h kst \<Rightarrow> pcb_t \<Rightarrow> pcb_t" where
  "loaded_pcb U s q = q\<lparr>p_s := (p_s q)\<lparr>status := loaded_status U q\<rparr>,
     p_tm_updt := fst (STCK U (setTIMER U (plt_value s) (hw s)))\<rparr>"

lemma loaded_pcb_sel [simp]:
  "p_parent (loaded_pcb U s q) = p_parent q" "p_semAdd (loaded_pcb U s q) = p_semAdd q"
  "p_pid (loaded_pcb U s q) = p_pid q" "p_prio (loaded_pcb U s q) = p_prio q" "p_time (loaded_pcb U s q) = p_time q"
  "p_supportStruct (loaded_pcb U s q) = p_supportStruct q"
  by (simp_all add: loaded_pcb_def)

text \<open>
  A low priority process is loaded with the timer on, a high priority one with the timer off, and
  both with interrupts on, whatever its status was.
\<close>

lemma loaded_timer:
  assumes "STATUS_IEp U AND STATUS_TE U = 0"
  shows "status (p_s (loaded_pcb U s q)) AND STATUS_TE U = (if p_prio q = PROCESS_PRIO_HIGH then 0 else STATUS_TE U) \<and>
    status (p_s (loaded_pcb U s q)) AND STATUS_IEp U = STATUS_IEp U"
proof -
  have b: "\<not> (bit (STATUS_IEp U) n \<and> bit (STATUS_TE U) n)" for n
    using arg_cong[OF assms, of "\<lambda>w. bit w n"] by (simp add: bit_and_iff)
  show ?thesis
    by (auto simp: loaded_pcb_def loaded_status_def Let_def bit_eq_iff bit_and_iff bit_or_iff bit_xor_iff b)
       (use b in auto)
qed

lemma load_proc_kinv:
  assumes k: "kinv U s A" and y: "yielded_ok s A" and p: "p \<in> set (a_det A)" and ne: "yielded_proc s \<noteq> Some p"
  obtains s' where "load_proc U (Some p) s = Stop (Ldst (p_s (loaded_pcb U s (pcbs s p)))) s'"
    and "kinv U s' (a_requeue s A)" and "act_proc s' = Some p" and "yielded_proc s' = None"
    and "p \<in> set (a_det (a_requeue s A))"
    and "pcbs s' = (pcbs s)(p := loaded_pcb U s (pcbs s p))" and "s_key s' = s_key s"
    and "mem s' = mem s" and "states s' = states s" and "supports s' = supports s"
proof -
  let ?s1 = "requeue_yielded s"
  obtain now h where stck: "STCK U (setTIMER U (plt_value s) (hw s)) = (now, h)" by fastforce
  let ?s' = "?s1\<lparr>act_proc := Some p, hw := h, pcbs := (pcbs s)(p := loaded_pcb U s (pcbs s p))\<rparr>"
  have plt: "plt_value (?s1\<lparr>act_proc := Some p\<rparr>) = plt_value s" by (simp add: plt_value_def)
  have "load_proc U (Some p) s = Stop (Ldst (p_s (loaded_pcb U s (pcbs s p)))) ?s'"
    by (simp add: load_proc_def kseq_def kbind_def kmodify_def kread_def kstop_def read_tod_def plt stck
        loaded_pcb_def loaded_status_def Let_def set_act_proc_def upd_pcb_def upd_hw_def)
  moreover have "kinv U ?s' (a_requeue s A)"
    by (rule kinv_cong[OF requeue_yielded_kinv[OF k y]]) simp_all
  ultimately show thesis using a_requeue_det[OF p ne] by (intro that[of ?s']) simp_all
qed

text \<open>The state in which process \<open>p\<close> runs: the kernel invariant holds and \<open>p\<close> is in no queue.\<close>

definition running :: "'h plat \<Rightarrow> nat \<Rightarrow> 'h kst \<Rightarrow> kabs \<Rightarrow> bool" where
  "running U p s A \<longleftrightarrow> kinv U s A \<and> act_proc s = Some p \<and> yielded_proc s = None \<and> p \<in> set (a_det A)"

definition dispatched :: "'h plat \<Rightarrow> nat \<Rightarrow> 'h kst \<Rightarrow> kabs \<Rightarrow> 'h kst \<Rightarrow> bool" where
  "dispatched U p s A s' \<longleftrightarrow>
     running U p s' (a_requeue s (a_deq p A)) \<and>
     pcbs s' = (pcbs s)(p := loaded_pcb U s (pcbs s p)) \<and> s_key s' = s_key s \<and>
     mem s' = mem s \<and> states s' = states s \<and> supports s' = supports s"

lemma load_next_run:
  assumes k: "kinv U s A" and y: "yielded_ok s A" and U: "layout_ok U"
    and deq: "dequeue_proc prio s = Ret (Some p) (unqueue p s)" "krep U (unqueue p s) (a_deq p A)"
    and p: "p \<in> set (a_hq A) \<or> p \<in> set (a_lq A)"
  obtains s' where "load_next U prio msg s = Stop (Ldst (p_s (loaded_pcb U s (pcbs s p)))) s'"
    and "dispatched U p s A s'"
proof -
  have r: "krep U s A" using k by (simp add: kinv_def)
  note ne = ready_not_elsewhere(3)[OF krepD(1)[OF r] p]
  have "p < MAXPROC" using pcbs_wf_lt[OF krepD(1)[OF r]] ne by blast
  then have nn: "pcb_word U (Some p) + offset_p_s U \<noteq> NULL"
    using pcb_field_not_NULL[OF U] by (simp add: pcb_word_def)
  have k1: "kinv U (unqueue p s) (a_deq p A)" by (rule a_deq_kinv[OF k p deq(2)])
  have y1: "yielded_ok (unqueue p s) (a_deq p A)" using y by (simp add: yielded_ok_def)
  have yp: "yielded_proc (unqueue p s) \<noteq> Some p" using y ne by (auto simp: yielded_ok_def)
  have lp: "loaded_pcb U (unqueue p s) q = loaded_pcb U s q" for q
    by (simp add: loaded_pcb_def plt_value_def)
  have aq: "a_requeue (unqueue p s) A' = a_requeue s A'" for A'
    by (simp add: a_requeue_def split: option.split)
  have pd: "p \<in> set (a_det (a_deq p A))" by simp
  obtain s' where s': "load_proc U (Some p) (unqueue p s) = Stop (Ldst (p_s (loaded_pcb U s (pcbs s p)))) s'"
    "kinv U s' (a_requeue s (a_deq p A))" "act_proc s' = Some p" "yielded_proc s' = None"
    "p \<in> set (a_det (a_requeue s (a_deq p A)))"
    "pcbs s' = (pcbs s)(p := loaded_pcb U s (pcbs s p))" "s_key s' = s_key s"
    "mem s' = mem s" "states s' = states s" "supports s' = supports s"
    using load_proc_kinv[OF k1 y1 pd yp] by (simp add: lp aq) metis
  show thesis
    by (rule that[of s']) (use s' nn in \<open>simp_all add: load_next_def kbind_def deq(1) dispatched_def running_def\<close>)
qed

lemma scheduler_next_ready:
  assumes k: "kinv U s A" and y: "yielded_ok s A" and U: "layout_ok U"
    and ready: "a_hq A @ a_lq A = p # ps"
  obtains s' where "scheduler_next U s = Stop (Ldst (p_s (loaded_pcb U s (pcbs s p)))) s'"
    and "dispatched U p s A s'"
proof -
  have r: "krep U s A" using k by (simp add: kinv_def)
  have e: "empty_proc_q HQueue s \<longleftrightarrow> a_hq A = []" "empty_proc_q LQueue s \<longleftrightarrow> a_lq A = []"
    using empty_proc_q_iff[OF krepD(3)[OF r], of HQueue] empty_proc_q_iff[OF krepD(3)[OF r], of LQueue] by simp_all
  show thesis
  proof (cases "a_hq A")
    case Nil
    then have lq: "a_lq A = p # ps" using ready by simp
    then have p: "p \<in> set (a_hq A) \<or> p \<in> set (a_lq A)" by simp
    note d = dequeue_proc_run(2)[OF r lq]
    show thesis
      by (rule load_next_run[OF k y U conjunct1[OF d] conjunct2[OF d] p], rule that)
         (simp_all add: scheduler_next_def e Nil lq)
  next
    case (Cons p' ps')
    then have hq: "a_hq A = p # ps'" using ready by simp
    then have p: "p \<in> set (a_hq A) \<or> p \<in> set (a_lq A)" by simp
    note d = dequeue_proc_run(1)[OF r hq]
    show thesis
      by (rule load_next_run[OF k y U conjunct1[OF d] conjunct2[OF d] p], rule that)
         (simp_all add: scheduler_next_def e hq)
  qed
qed

lemma kcnt_zero:
  assumes "krep U s A" and "kcnt s A"
  shows "procs_count s = 0 \<longleftrightarrow> a_alive A = []" and "sb_procs s = 0 \<longleftrightarrow> a_blocked A = []"
proof -
  have l: "length (a_alive A) \<le> MAXPROC" using length_alive_le[OF krepD(1)[OF assms(1)]] by simp
  have b: "length (a_blocked A) \<le> length (a_alive A)" by (simp add: a_alive_def)
  have z: "(of_nat n :: u32) = 0 \<longleftrightarrow> n = 0" if "n \<le> MAXPROC" for n
    using that by (auto simp: MAXPROC_def word_of_nat_eq_0_iff dest: dvd_imp_le)
  show "procs_count s = 0 \<longleftrightarrow> a_alive A = []" using assms(2) z[OF l] by (simp add: kcnt_def)
  show "sb_procs s = 0 \<longleftrightarrow> a_blocked A = []" using assms(2) z[OF le_trans[OF b l]] by (simp add: kcnt_def)
qed

lemma scheduler_next_idle:
  assumes k: "kinv U s A" and y: "yielded_ok s A" and idle: "a_hq A = []" "a_lq A = []"
  shows "a_alive A = [] \<Longrightarrow> scheduler_next U s = Stop Halt (LOG ''S'' ''No process alive: halting'' s)"
    and "a_alive A \<noteq> [] \<Longrightarrow> a_blocked A = [] \<Longrightarrow> scheduler_next U s = Stop Panic (LOG ''S'' ''DEADLOCK: panicing'' s)"
    and "a_blocked A \<noteq> [] \<Longrightarrow> \<exists>s'. scheduler_next U s = Stop Wait s' \<and> kinv U s' (a_requeue s A) \<and>
      act_proc s' = None \<and> yielded_proc s' = None \<and> mem s' = mem s \<and> s_key s' = s_key s \<and> pcbs s' = pcbs s"
proof -
  have r: "krep U s A" "kcnt s A" using k by (simp_all add: kinv_def)
  have e: "empty_proc_q HQueue s" "empty_proc_q LQueue s"
    using empty_proc_q_iff[OF krepD(3)[OF r(1)], of HQueue] empty_proc_q_iff[OF krepD(3)[OF r(1)], of LQueue] idle
    by simp_all
  note z = kcnt_zero[OF r]
  show "scheduler_next U s = Stop Halt (LOG ''S'' ''No process alive: halting'' s)" if "a_alive A = []"
    using that e z by (simp add: scheduler_next_def kseq_def kbind_def kmodify_def kstop_def)
  have pos: "x > 0 \<longleftrightarrow> x \<noteq> 0" for x :: u32 by (simp add: word_gt_0)
  show "scheduler_next U s = Stop Panic (LOG ''S'' ''DEADLOCK: panicing'' s)" if "a_alive A \<noteq> []" "a_blocked A = []"
    using that e z by (simp add: scheduler_next_def pos kseq_def kbind_def kmodify_def kstop_def PANIC_def)
  assume b: "a_blocked A \<noteq> []"
  then have al: "a_alive A \<noteq> []" by (simp add: a_alive_def)
  let ?s1 = "set_act_proc None (requeue_yielded s)"
  let ?s2 = "upd_hw (setTIMER U (plt_value ?s1)) ?s1"
  let ?s3 = "upd_hw (setSTATUS U ((getSTATUS U (hw ?s2) OR STATUS_IEc U OR STATUS_TE U) XOR STATUS_TE U)) ?s2"
  let ?s' = "LOG ''S'' ''No ready process available: waiting...'' ?s3"
  have "scheduler_next U s = Stop Wait ?s'"
    using b al e z by (simp add: scheduler_next_def scheduler_wait_def pos kseq_def kbind_def kmodify_def kstop_def)
  moreover have "kinv U ?s' (a_requeue s A)" by (rule kinv_cong[OF requeue_yielded_kinv[OF k y]]) simp_all
  ultimately show "\<exists>s'. scheduler_next U s = Stop Wait s' \<and> kinv U s' (a_requeue s A) \<and>
      act_proc s' = None \<and> yielded_proc s' = None \<and> mem s' = mem s \<and> s_key s' = s_key s \<and> pcbs s' = pcbs s"
    by (intro exI[of _ ?s']) simp
qed

end
