(* ===== verification/Exclusion.thy ===== *)
theory Exclusion
  imports Prelude
begin

text \<open>
  What processes that follow the protocol of a mutex rely on: the contract of a binary semaphore,
  the runs of processes that do a P before their critical section and a V after it, and mutual
  exclusion, proved once from the contract. \<open>Syscalls\<close> interprets the contract on the
  semaphores of the kernel.
\<close>

section \<open>The protocol\<close>

text \<open>
  \<open>runs p s\<close>: process \<open>p\<close> has the processor in \<open>s\<close>. The answer of \<open>acquire\<close> says whether the
  caller goes on or waits; \<open>release\<close> names the process it has let in, if any. \<open>elsewhere\<close> are the
  changes of state that are not about this semaphore.
\<close>

record ('p, 's, 'r, 'w) lock_ops =
  runs :: "'p \<Rightarrow> 's \<Rightarrow> bool"
  acquire :: "'s \<Rightarrow> ('w, 'r, 's) out"
  goes_on :: "'r \<Rightarrow> bool"
  release :: "'s \<Rightarrow> ('w, 'p option, 's) out"
  elsewhere :: "'s \<Rightarrow> 's \<Rightarrow> bool"

text \<open>The states that can be reached from \<open>s0\<close>, each with the processes in their critical section.\<close>

inductive critical :: "('p, 's, 'r, 'w) lock_ops \<Rightarrow> 's \<Rightarrow> 's \<Rightarrow> 'p set \<Rightarrow> bool" for B s0 where
  start: "critical B s0 s0 {}"
| enter: "critical B s0 s C \<Longrightarrow> runs B p s \<Longrightarrow> p \<notin> C \<Longrightarrow> acquire B s = Ret r s' \<Longrightarrow>
    critical B s0 s' (if goes_on B r then insert p C else C)"
| leave: "critical B s0 s C \<Longrightarrow> runs B p s \<Longrightarrow> p \<in> C \<Longrightarrow> release B s = Ret t s' \<Longrightarrow>
    critical B s0 s' (C - {p} \<union> {q. t = Some q \<and> q \<noteq> p})"
| others: "critical B s0 s C \<Longrightarrow> elsewhere B s s' \<Longrightarrow> critical B s0 s' C"

section \<open>The contract\<close>

locale binary_semaphore =
  fixes B :: "('p, 's, 'r, 'w) lock_ops"
    and inv :: "'s \<Rightarrow> 'a \<Rightarrow> bool"
    and val :: "'s \<Rightarrow> nat"
    and queue :: "'s \<Rightarrow> 'a \<Rightarrow> 'p list"
  assumes queue_unique: "inv s a \<Longrightarrow> inv s b \<Longrightarrow> queue s a = queue s b"
    and queue_distinct: "inv s a \<Longrightarrow> distinct (queue s a)"
    and runs_not_waiting: "runs B p s \<Longrightarrow> inv s a \<Longrightarrow> p \<notin> set (queue s a)"
    and acquire_free: "runs B p s \<Longrightarrow> inv s a \<Longrightarrow> val s = 1 \<Longrightarrow> queue s a = [] \<Longrightarrow>
      \<exists>r s' a'. acquire B s = Ret r s' \<and> goes_on B r \<and> inv s' a' \<and> val s' = 0 \<and> queue s' a' = []"
    and acquire_taken: "runs B p s \<Longrightarrow> inv s a \<Longrightarrow> val s = 0 \<Longrightarrow>
      \<exists>r s' a'. acquire B s = Ret r s' \<and> \<not> goes_on B r \<and> inv s' a' \<and> val s' = 0 \<and> queue s' a' = queue s a @ [p]"
    and release_last: "runs B p s \<Longrightarrow> inv s a \<Longrightarrow> val s = 0 \<Longrightarrow> queue s a = [] \<Longrightarrow>
      \<exists>s' a'. release B s = Ret (Some p) s' \<and> inv s' a' \<and> val s' = 1 \<and> queue s' a' = []"
    and release_next: "runs B p s \<Longrightarrow> inv s a \<Longrightarrow> val s = 0 \<Longrightarrow> queue s a = t # ts \<Longrightarrow>
      \<exists>s' a'. release B s = Ret (Some t) s' \<and> inv s' a' \<and> val s' = 0 \<and> queue s' a' = ts"
    and elsewhere_law: "elsewhere B s s' \<Longrightarrow> inv s a \<Longrightarrow>
      \<exists>a'. inv s' a' \<and> val s' = val s \<and> queue s' a' = queue s a"

context binary_semaphore begin

text \<open>Free and nobody inside, or taken by one process, which does not wait.\<close>

definition excl :: "'s \<Rightarrow> 'a \<Rightarrow> 'p set \<Rightarrow> bool" where
  "excl s a C \<longleftrightarrow> inv s a \<and>
     (val s = 1 \<and> C = {} \<and> queue s a = [] \<or> val s = 0 \<and> (\<exists>h. C = {h} \<and> h \<notin> set (queue s a)))"

lemma excl_enter:
  assumes e: "excl s a C" and p: "runs B p s" "p \<notin> C" and r: "acquire B s = Ret r s'"
  shows "\<exists>a'. excl s' a' (if goes_on B r then insert p C else C)"
proof -
  have i: "inv s a" using e by (simp add: excl_def)
  consider "val s = 1" "C = {}" "queue s a = []" | h where "val s = 0" "C = {h}" "h \<notin> set (queue s a)"
    using e by (auto simp: excl_def)
  then show ?thesis
  proof cases
    case 1
    then show ?thesis using acquire_free[OF p(1) i] r by (fastforce simp: excl_def)
  next
    case 2
    then show ?thesis using acquire_taken[OF p(1) i] r p(2) by (fastforce simp: excl_def)
  qed
qed

lemma excl_leave:
  assumes e: "excl s a C" and p: "runs B p s" "p \<in> C" and r: "release B s = Ret t s'"
  shows "\<exists>a'. excl s' a' (C - {p} \<union> {q. t = Some q \<and> q \<noteq> p})"
proof -
  have i: "inv s a" and v: "val s = 0" "C = {p}" "p \<notin> set (queue s a)" using e p(2) by (auto simp: excl_def)
  show ?thesis
  proof (cases "queue s a")
    case Nil
    then show ?thesis using release_last[OF p(1) i v(1)] r v(2) by (fastforce simp: excl_def)
  next
    case (Cons x xs)
    then have "C - {p} \<union> {q. Some x = Some q \<and> q \<noteq> p} = {x}" "x \<notin> set xs"
      using v queue_distinct[OF i] by auto
    then show ?thesis using release_next[OF p(1) i v(1) Cons] r by (fastforce simp: excl_def)
  qed
qed

lemma exclusion:
  assumes "critical B s0 s C" and "inv s0 a0" and "val s0 = 1" and "queue s0 a0 = []"
  shows "\<exists>a. excl s a C"
  using assms(1)
proof (induction rule: critical.induct)
  case start
  then show ?case using assms(2-4) by (auto simp: excl_def)
next
  case (enter s C p r s')
  then show ?case using excl_enter by blast
next
  case (leave s C p t s')
  then show ?case using excl_leave by blast
next
  case (others s C s')
  then show ?case using elsewhere_law by (fastforce simp: excl_def)
qed

text \<open>The same for every abstract state of \<open>s\<close>: they all have the same queue.\<close>

lemma exclusion_all:
  assumes "critical B s0 s C" and "inv s0 a0" and "val s0 = 1" and "queue s0 a0 = []"
  shows "(\<exists>a. inv s a) \<and> (\<forall>a. inv s a \<longrightarrow> excl s a C)"
  using exclusion[OF assms] queue_unique unfolding excl_def by metis

end

end
