(* ===== verification/Syscalls.thy ===== *)
theory Syscalls
  imports Scheduler Exclusion
begin

text \<open>
  \<open>src/syscalls.c\<close>: the ten system calls of the kernel, the semaphore operations they and
  the interrupt handlers share, and the killing of a process with its progeny.
\<close>

section \<open>What the exception handler must do next\<close>

text \<open>\<open>enum eh_act\<close> of \<open>src/kernel.h\<close>; the functions return it as an \<open>int\<close>.\<close>

definition NOTHING :: int where "NOTHING = 0"
definition RENQUEUE :: int where "RENQUEUE = 1"
definition CONTINUE :: int where "CONTINUE = 2"

lemmas eh_act_defs = NOTHING_def RENQUEUE_def CONTINUE_def

text \<open>A use of \<open>act_proc\<close>.\<close>

definition with_act :: "(nat \<Rightarrow> ('a, 'h) km) \<Rightarrow> ('a, 'h) km" where
  "with_act f = (\<lambda>s. case act_proc s of None \<Rightarrow> Stop Wild s | Some a \<Rightarrow> f a s)"

definition upd_reg :: "nat \<Rightarrow> nat \<Rightarrow> u32 \<Rightarrow> 'h kst \<Rightarrow> 'h kst" where
  "upd_reg p r v = upd_pcb p (\<lambda>q. q\<lparr>p_s := set_reg r v (p_s q)\<rparr>)"

section \<open>Killing a process and its progeny\<close>

text \<open>
  One unfolding is one evaluation of the condition of the \<open>while\<close> loop: a child taken out is
  killed with its own progeny and the loop goes on; without one, \<open>p\<close> itself is killed.
\<close>

partial_function (option) kill_progeny ::
  "nat \<Rightarrow> 'h kst \<Rightarrow> (stop, unit, 'h kst) out option" where
  "kill_progeny p s =
     (case remove_child p s of
        Stop w s' \<Rightarrow> Some (Stop w s')
      | Ret None s' \<Rightarrow> Some (kill_proc (Some p) s')
      | Ret (Some c) s' \<Rightarrow>
          Option.bind (kill_progeny c s')
            (\<lambda>r. case r of Stop w s'' \<Rightarrow> Some (Stop w s'') | Ret u s'' \<Rightarrow> kill_progeny p s''))"

definition kill_parent_and_progeny :: "nat option \<Rightarrow> (unit, 'h) km" where
  "kill_parent_and_progeny po = (\<lambda>s.
     case po of
       None \<Rightarrow> Stop Wild s
     | Some p \<Rightarrow>
         if MAXPROC \<le> p then Stop Wild s
         else (case kill_progeny p s of None \<Rightarrow> Stop Diverge s | Some r \<Rightarrow> r))"

section \<open>Semaphores\<close>

definition block_on :: "u32 \<Rightarrow> nat \<Rightarrow> string \<Rightarrow> (unit, 'h) km" where
  "block_on semaddr a msg =
     kseq (kmodify (\<lambda>s. if \<not> list_empty (PList a) (lh s) then upd_lh (list_del (PList a)) s else s))
    (kbind (insert_blocked semaddr a) (\<lambda>full.
       if full then kseq (kmodify (LOG ''E'' (msg @ [CHR 0x0A]))) PANIC
       else kmodify (upd_sb (\<lambda>c. c + 1))))"

definition passeren :: "u32 \<Rightarrow> (int, 'h) km" where
  "passeren semaddr = (\<lambda>s.
     if mem s semaddr = 0
     then kseq (with_act (\<lambda>a. block_on semaddr a ''insert_blocked failed in passeren'')) (kreturn NOTHING) s
     else kbind (remove_blocked semaddr) (\<lambda>tmp s.
            case tmp of
              Some t \<Rightarrow> Ret RENQUEUE (upd_sb (\<lambda>c. c - 1) (enqueue_proc t (p_prio (pcbs s t)) s))
            | None \<Rightarrow> Ret RENQUEUE (store_mem semaddr 0 s)) s)"

definition verhogen :: "u32 \<Rightarrow> (nat option, 'h) km" where
  "verhogen semaddr = (\<lambda>s.
     if mem s semaddr = 1
     then (case act_proc s of
             None \<Rightarrow> Ret None s
           | Some a \<Rightarrow> kseq (block_on semaddr a ''insert_blocked failed in verhogen'') (kreturn None) s)
     else kbind (remove_blocked semaddr) (\<lambda>tmp s.
            case tmp of
              Some t \<Rightarrow> Ret (Some t) (upd_sb (\<lambda>c. c - 1) (enqueue_proc t (p_prio (pcbs s t)) s))
            | None \<Rightarrow> let s' = store_mem semaddr 1 s in Ret (act_proc s') s') s)"

section \<open>The system calls\<close>

definition create_process :: "'h plat \<Rightarrow> u32 \<Rightarrow> u32 \<Rightarrow> u32 \<Rightarrow> (int, 'h) km" where
  "create_process U statep prio supportp =
     kbind (mk_proc U statep prio supportp) (\<lambda>new_proc.
       case new_proc of
         None \<Rightarrow> kreturn (-1)
       | Some n \<Rightarrow>
           with_act (\<lambda>a s. Ret CONTINUE (upd_reg a (reg_v0 U) (p_pid (pcbs s n)) s)))"

definition term_process :: "'h plat \<Rightarrow> u32 \<Rightarrow> (int, 'h) km" where
  "term_process U pid = (\<lambda>s.
     let res = (if pid = 0 then act_proc s else search_by_pid U pid)
     in kseq (kill_parent_and_progeny res)
         (with_act (\<lambda>a. kbind (is_alive a) (\<lambda>b. kreturn (if b then RENQUEUE else NOTHING)))) s)"

definition set_exceptState :: "u32 \<Rightarrow> nat \<Rightarrow> state_t \<Rightarrow> 'h kst \<Rightarrow> 'h kst" where
  "set_exceptState supp k st s =
     s\<lparr>supports := (supports s)(supp := (supports s supp)
        \<lparr>sup_exceptState := (sup_exceptState (supports s supp))(k := st)\<rparr>)\<rparr>"

definition passup_or_die :: "nat \<Rightarrow> (int, 'h) km" where
  "passup_or_die kind = (\<lambda>s.
     case act_proc s of
       None \<Rightarrow> Ret NOTHING (LOG ''E'' ''Dying'' s)
     | Some a \<Rightarrow>
         let supp = p_supportStruct (pcbs s a)
         in if supp = NULL
            then kseq (kill_parent_and_progeny (Some a))
                (kseq (kmodify (LOG ''E'' ''Dying'')) (kreturn NOTHING)) s
            else kseq (kmodify (\<lambda>s. set_exceptState supp kind (states s BIOSDATAPAGE) s))
                  (kread (\<lambda>s. let c = sup_exceptContext (supports s supp) kind
                              in kstop (Ldcxt (cx_stackPtr c) (cx_status c) (cx_pc c)))) s)"

definition DEVICE_FROM_COMDADDR :: "'h plat \<Rightarrow> u32 \<Rightarrow> u32" where
  "DEVICE_FROM_COMDADDR U cmd =
     DEV_REG_SIZE U * of_int (c_div (sint (cmd - DEV_REG_START U)) (sint (DEV_REG_SIZE U))) + DEV_REG_START U"

definition IS_TERM_WRITING :: "'h plat \<Rightarrow> u32 \<Rightarrow> bool" where
  "IS_TERM_WRITING U cmd \<longleftrightarrow> c_div (sint (cmd - DEVICE_FROM_COMDADDR U cmd)) 4 = 3"

text \<open>The interrupt line, counted from the disks, and the device a register belongs to.\<close>

definition find_device :: "'h plat \<Rightarrow> u32 \<Rightarrow> (nat \<times> nat) option" where
  "find_device U dev =
     find (\<lambda>(i, j). DEV_REG_ADDR U (IL_DISK U + i) j = dev)
       (List.product [0..<N_EXT_IL U] [0..<N_DEV_PER_IL U])"

definition dev_sem :: "'h plat \<Rightarrow> u32 \<Rightarrow> nat \<Rightarrow> u32 option" where
  "dev_sem U cmdaddr line =
     (let at = (\<lambda>il. int line = int il - int (IL_DISK U))
      in if at (IL_DISK U) then Some (addr_sem_disk U)
         else if at (IL_FLASH U) then Some (addr_sem_flash U)
         else if at (IL_ETHERNET U) then Some (addr_sem_net U)
         else if at (IL_PRINTER U) then Some (addr_sem_printer U)
         else if at (IL_TERMINAL U) then
           Some (if IS_TERM_WRITING U cmdaddr then addr_sem_term_out U else addr_sem_term_in U)
         else None)"

text \<open>When no device has the address, \<open>sem\<close> is used without having been set.\<close>

definition io_sem :: "'h plat \<Rightarrow> u32 \<Rightarrow> u32 option" where
  "io_sem U cmdaddr =
     Option.bind (find_device U (DEVICE_FROM_COMDADDR U cmdaddr)) (\<lambda>(line, index).
       map_option (\<lambda>sem. sem + 4 * of_nat index) (dev_sem U cmdaddr line))"

definition do_io :: "'h plat \<Rightarrow> u32 \<Rightarrow> u32 \<Rightarrow> (int, 'h) km" where
  "do_io U cmdaddr cmdval =
     (if cmdaddr = 0 \<or> cmdaddr = NULL
      then kseq (kmodify (LOG ''E'' ''DOIO with null or zero command addr'')) PANIC
      else case io_sem U cmdaddr of
             None \<Rightarrow> kseq (kmodify (LOG ''E'' ''no sem'')) (kstop Wild)
           | Some sem \<Rightarrow>
               kbind (passeren sem) (\<lambda>_.
               kseq (kmodify (store_mem cmdaddr cmdval)) (kreturn NOTHING)))"

definition get_time :: "'h plat \<Rightarrow> (int, 'h) km" where
  "get_time U = with_act (\<lambda>a s. Ret CONTINUE (upd_reg a (reg_v0 U) (p_time (pcbs s a)) s))"

definition wait_for_clock :: "'h plat \<Rightarrow> (int, 'h) km" where
  "wait_for_clock U = passeren (addr_sem_it U)"

definition get_support :: "'h plat \<Rightarrow> (int, 'h) km" where
  "get_support U = with_act (\<lambda>a s. Ret CONTINUE (upd_reg a (reg_v0 U) (p_supportStruct (pcbs s a)) s))"

definition get_process_pid :: "'h plat \<Rightarrow> u32 \<Rightarrow> (int, 'h) km" where
  "get_process_pid U parent = with_act (\<lambda>a s.
     Ret CONTINUE
       (upd_reg a (reg_v0 U)
         (if parent = 0 then p_pid (pcbs s a)
          else (case p_parent (pcbs s a) of Some q \<Rightarrow> p_pid (pcbs s q) | None \<Rightarrow> 0)) s))"

definition yield :: "(int, 'h) km" where
  "yield = (\<lambda>s. Ret NOTHING (set_yielded (act_proc s) s))"

section \<open>The dispatcher\<close>

definition check_sem :: "u32 \<Rightarrow> nat \<Rightarrow> ('h kst \<Rightarrow> 'h kst) \<Rightarrow> string \<Rightarrow> (int, 'h) km \<Rightarrow> (int, 'h) km" where
  "check_sem sem_addr a complain zombie op = (\<lambda>s.
     if mem s sem_addr \<noteq> 0 \<and> mem s sem_addr \<noteq> 1 then kseq (kmodify complain) PANIC s
     else kbind (is_alive a) (\<lambda>alive.
            if \<not> alive then kseq (kmodify (LOG ''E'' zombie)) PANIC else op) s)"

definition handle_syscall :: "'h plat \<Rightarrow> (int, 'h) km" where
  "handle_syscall U = with_act (\<lambda>a s.
     let reg = gpr (p_s (pcbs s a));
         number = sint (reg (reg_a0 U));
         arg1 = reg (reg_a1 U); arg2 = reg (reg_a2 U); arg3 = reg (reg_a3 U)
     in kbind (is_alive a) (\<lambda>alive.
          if \<not> alive then kseq (kmodify (LOG ''E'' ''Syscall called by a zombie'')) PANIC
          else (\<lambda>s.
            if p_semAdd (pcbs s a) \<noteq> NULL
            then kseq (kmodify (LOGi ''E'' ''Syscall called by blocked process '' (p_pid (pcbs s a)))) PANIC s
            else if number = CREATEPROCESS then create_process U arg1 arg2 arg3 s
            else if number = TERMPROCESS then term_process U arg1 s
            else if number = PASSEREN then
              check_sem arg1 a (LOG ''E'' ''Sem value out of range on P'') ''Passeren on zombie''
                (passeren arg1) s
            else if number = VERHOGEN then
              check_sem arg1 a
                (\<lambda>s. LOGi ''E'' ''value:'' (mem s arg1) (LOG ''E'' ''Sem value out of range on V'' s))
                ''verhogen on zombie''
                (kbind (verhogen arg1) (\<lambda>r. kreturn (if r = None then NOTHING else RENQUEUE))) s
            else if number = DOIO then do_io U arg1 arg2 s
            else if number = GETTIME then get_time U s
            else if number = CLOCKWAIT then wait_for_clock U s
            else if number = GETSUPPORTPTR then get_support U s
            else if number = GETPROCESSID then get_process_pid U arg1 s
            else if number = YIELD then yield s
            else passup_or_die GENERALEXCEPT s)) s)"

section \<open>Descendants\<close>

definition descendants :: "'h kst \<Rightarrow> kabs \<Rightarrow> nat \<Rightarrow> nat set" where
  "descendants s A p = {d. (p, d) \<in> (tree_rel s A)\<^sup>*}"

lemma rtrancl_cut_entry:
  assumes "acyclic r"
  shows "(c, d) \<in> {(a, b) \<in> r. b \<noteq> c}\<^sup>* \<longleftrightarrow> (c, d) \<in> r\<^sup>*"
proof
  show "(c, d) \<in> r\<^sup>*" if "(c, d) \<in> {(a, b) \<in> r. b \<noteq> c}\<^sup>*"
    using that by (rule rtrancl_mono[THEN subsetD, rotated]) auto
  assume "(c, d) \<in> r\<^sup>*"
  then show "(c, d) \<in> {(a, b) \<in> r. b \<noteq> c}\<^sup>*"
  proof (induction rule: rtrancl_induct)
    case (step y z)
    have "z \<noteq> c"
    proof
      assume "z = c"
      with step.hyps have "(c, c) \<in> r\<^sup>+" by (simp add: rtrancl_into_trancl1)
      with assms show False by (simp add: acyclic_def)
    qed
    with step show ?case by (auto intro: rtrancl_into_rtrancl)
  qed simp
qed

lemma rtrancl_cut_set:
  assumes closed: "\<And>a b. a \<in> D \<Longrightarrow> (a, b) \<in> r \<Longrightarrow> b \<in> D" and p: "p \<notin> D"
  shows "(p, d) \<in> {(a, b) \<in> r. b \<notin> D}\<^sup>* \<longleftrightarrow> (p, d) \<in> r\<^sup>* \<and> d \<notin> D"
proof
  assume "(p, d) \<in> {(a, b) \<in> r. b \<notin> D}\<^sup>*"
  then show "(p, d) \<in> r\<^sup>* \<and> d \<notin> D"
    by (induction rule: rtrancl_induct) (use p in \<open>auto intro: rtrancl_into_rtrancl\<close>)
next
  assume "(p, d) \<in> r\<^sup>* \<and> d \<notin> D"
  then have "(p, d) \<in> r\<^sup>*" "d \<notin> D" by simp_all
  then show "(p, d) \<in> {(a, b) \<in> r. b \<notin> D}\<^sup>*"
  proof (induction rule: rtrancl_induct)
    case (step y z)
    then have "y \<notin> D" using closed by blast
    with step show ?case by (auto intro: rtrancl_into_rtrancl)
  qed simp
qed

lemma descendants_alive:
  assumes "tree_ok s A" and "p \<in> set (a_alive A)"
  shows "descendants s A p \<subseteq> set (a_alive A)"
proof
  fix d assume "d \<in> descendants s A p"
  then have "(p, d) \<in> (tree_rel s A)\<^sup>*" by (simp add: descendants_def)
  then show "d \<in> set (a_alive A)"
    by (induction rule: rtrancl_induct) (use assms(2) in \<open>auto simp: tree_rel_def\<close>)
qed

lemma descendants_self: "p \<in> descendants s A p"
  by (simp add: descendants_def)

lemma descendants_leaf:
  assumes "tree_ok s A" and "p \<in> set (a_alive A)" and "a_kids A p = []"
  shows "descendants s A p = {p}"
proof -
  have "(p, c) \<notin> tree_rel s A" for c
    using kids_parent[OF assms(1,2), of c] assms(3) by (simp add: tree_rel_def)
  then show ?thesis unfolding descendants_def by (auto elim: converse_rtranclE)
qed

lemma descendants_child:
  assumes t: "tree_ok s A" and e: "(p, c) \<in> tree_rel s A"
  shows "descendants s A c \<subseteq> descendants s A p" and "p \<notin> descendants s A c"
    and "\<And>a b. a \<in> descendants s A c \<Longrightarrow> (a, b) \<in> tree_rel s A \<Longrightarrow> b \<in> descendants s A c"
proof -
  show "descendants s A c \<subseteq> descendants s A p"
    using e by (auto simp: descendants_def intro: converse_rtrancl_into_rtrancl)
  show "p \<notin> descendants s A c"
  proof
    assume "p \<in> descendants s A c"
    then have "(c, p) \<in> (tree_rel s A)\<^sup>*" by (simp add: descendants_def)
    with e have "(p, p) \<in> (tree_rel s A)\<^sup>+" by (rule rtrancl_into_trancl2)
    with t show False by (simp add: tree_ok_def acyclic_def)
  qed
  show "\<And>a b. a \<in> descendants s A c \<Longrightarrow> (a, b) \<in> tree_rel s A \<Longrightarrow> b \<in> descendants s A c"
    by (auto simp: descendants_def intro: rtrancl_into_rtrancl)
qed

section \<open>Killing a process kills its progeny and nothing else\<close>

lemma orphan_kinv:
  assumes "kinv U s A" and "krep U (orphan c s) (a_orphan q c A)"
  shows "kinv U (orphan c s) (a_orphan q c A)"
  using assms by (auto simp: kinv_def kcnt_def prio_ok_def)

lemma kill_progeny_kinv:
  assumes "kinv U s A" and "p \<in> set (a_alive A)"
  shows "\<exists>s' A'. kill_progeny p s = Some (Ret () s') \<and> kinv U s' A' \<and> killed (descendants s A p) s A s' A'"
  using assms
proof (induction "card (descendants s A p)" arbitrary: p s A rule: less_induct)
  case less
  have k: "krep U s A" using less.prems(1) by (simp add: kinv_def)
  note K = krepD[OF k] and p = less.prems(2)
  have fin: "finite (descendants s A p)" by (rule finite_subset[OF descendants_alive[OF K(5) p]]) simp
  show ?case
  proof (cases "a_kids A p")
    case Nil
    obtain s' A' where "kill_proc (Some p) s = Ret () s'" "kinv U s' A'" "killed {p} s A s' A'"
      by (rule kill_proc_kinv[OF less.prems Nil])
    then show ?thesis
      using remove_child_krep(1)[OF k p Nil] descendants_leaf[OF K(5) p Nil]
      by (subst kill_progeny.simps) auto
  next
    case (Cons c cs)
    have rc: "remove_child p s = Ret (Some c) (orphan c s)" and c: "c \<in> set (a_alive A)"
      and par: "p_parent (pcbs s c) = Some p" and k1: "krep U (orphan c s) (a_orphan p c A)"
      using remove_child_krep(2)[OF k p Cons] by simp_all
    let ?s1 = "orphan c s" and ?A1 = "a_orphan p c A" and ?D = "descendants s A c"
    have e: "(p, c) \<in> tree_rel s A" using c par by (simp add: tree_rel_def)
    note dc = descendants_child[OF K(5) e]
    have acy: "acyclic (tree_rel s A)" using K(5) by (simp add: tree_ok_def)
    have r1: "tree_rel ?s1 ?A1 = {(a, b) \<in> tree_rel s A. b \<noteq> c}" by (rule tree_rel_orphan) simp_all
    have D1: "descendants ?s1 ?A1 c = ?D"
      unfolding descendants_def r1 rtrancl_cut_entry[OF acy] ..
    have lt1: "card ?D < card (descendants s A p)"
      using dc(1,2) descendants_self[of p s A] fin by (intro psubset_card_mono) auto
    obtain s2 A2 where s2: "kill_progeny c ?s1 = Some (Ret () s2)" "kinv U s2 A2" "killed ?D ?s1 ?A1 s2 A2"
      using less.hyps[of ?s1 ?A1 c] lt1 orphan_kinv[OF less.prems(1) k1] c unfolding D1 by auto
    have kd: "killed ?D s A s2 A2" by (rule killed_orphan[OF s2(3) descendants_self])
    have r2: "tree_rel s2 A2 = {(a, b) \<in> tree_rel s A. b \<notin> ?D}" and al2: "set (a_alive A2) = set (a_alive A) - ?D"
      using kd by (simp_all add: killed_def)
    have D2: "descendants s2 A2 p = descendants s A p - ?D"
      unfolding descendants_def[of s2] descendants_def[of s A p] r2
      using rtrancl_cut_set[of ?D "tree_rel s A" p, OF dc(3) dc(2)] by auto
    have lt2: "card (descendants s A p - ?D) < card (descendants s A p)"
      using dc(1) descendants_self[of c s A] fin by (intro psubset_card_mono) auto
    obtain s3 A3 where s3: "kill_progeny p s2 = Some (Ret () s3)" "kinv U s3 A3"
        "killed (descendants s A p - ?D) s2 A2 s3 A3"
      using less.hyps[of s2 A2 p] lt2 s2(2) p al2 dc(2) unfolding D2 by auto
    have "?D \<union> (descendants s A p - ?D) = descendants s A p" using dc(1) by blast
    then have "killed (descendants s A p) s A s3 A3" using killed_trans[OF kd s3(3)] by simp
    moreover have "kill_progeny p s = Some (Ret () s3)"
      by (subst kill_progeny.simps) (simp add: rc s2(1) s3(1))
    ultimately show ?thesis using s3(2) by blast
  qed
qed

lemma kill_parent_and_progeny_kinv:
  assumes "kinv U s A" and "p \<in> set (a_alive A)"
  obtains s' A' where "kill_parent_and_progeny (Some p) s = Ret () s'" and "kinv U s' A'"
    and "killed (descendants s A p) s A s' A'"
proof -
  have "krep U s A" using assms(1) by (simp add: kinv_def)
  then have "p < MAXPROC" using pcbs_wf_lt[OF krepD(1)] assms(2) by blast
  then show thesis using kill_progeny_kinv[OF assms] that by (auto simp: kill_parent_and_progeny_def)
qed

section \<open>Which process a PID names\<close>

lemma is_alive_run:
  assumes k: "krep U s A" and U: "layout_ok U" and a: "a < MAXPROC"
  shows "is_alive a s = Ret (a \<in> set (a_alive A)) s"
proof -
  note K = krepD[OF k]
  have h: "L_of A PcbFreeH = Some (map PList (a_free A))" by simp
  let ?f = "\<lambda>x. if p_pid (pcbs s x) = p_pid (pcbs s a) then Some (Ret False s :: (stop, bool, 'a kst) out) else None"
  have part: "a \<in> set (a_free A) \<longleftrightarrow> a \<notin> set (a_alive A)" using K(1) a by (auto simp: pcbs_wf_def)
  have free_lt: "x < MAXPROC" if "x \<in> set (a_free A)" for x using pcbs_wf_lt[OF K(1)] that by blast
  have "first_some ?f (a_free A) = (if a \<in> set (a_alive A) then None else Some (Ret False s))"
  proof (cases "a \<in> set (a_alive A)")
    case True
    have "p_pid (pcbs s x) \<noteq> p_pid (pcbs s a)" if x: "x \<in> set (a_free A)" for x
    proof -
      have "p_pid (pcbs s a) = pcb_addr U a" "p_pid (pcbs s x) \<in> {0, pcb_addr U x}"
        using K(6) True x by (auto simp: pid_ok_def)
      moreover have "x \<noteq> a" using True x part by auto
      ultimately show ?thesis
        using pcb_addr_inj[OF U, of x a] pcb_addr_nonzero[OF U, of a] free_lt[OF x] a by auto
    qed
    then show ?thesis using True by (auto simp: first_some_None_iff)
  next
    case False
    then have "a \<in> set (a_free A)" using part by simp
    then have "first_some ?f xs \<noteq> None" if "set xs = set (a_free A)" for xs
      using that by (auto simp: first_some_None_iff)
    moreover have "first_some ?f xs = None \<or> first_some ?f xs = Some (Ret False s)" for xs
      by (induction xs) auto
    ultimately show ?thesis using False by metis
  qed
  then show ?thesis
    by (simp add: is_alive_def klist_for_each_run[OF K(3) h] first_some_map o_def run_simps)
qed

lemma word_eqI_unat: "unat x = unat y \<Longrightarrow> x = (y :: u32)"
  by (rule unsigned_word_eqI)

lemma search_by_pid_addr:
  assumes U: "layout_ok U" and i: "i \<le> MAXPROC"
  shows "search_by_pid U (pcb_addr U i) = Some i"
proof -
  let ?b = "unat (pcb_base U)" and ?z = "unat (sizeof_pcb U)"
  have lt: "?b + MAXPROC * ?z < 2 ^ 32" using less_trans[OF layout_lt[OF U order.refl] unsigned_less[of NULL]] by simp
  have iz: "i * ?z \<le> MAXPROC * ?z" using i by (rule mult_le_mono1)
  have a: "unat (pcb_addr U i) = ?b + i * ?z" by (rule pcb_addr_unat[OF U i])
  have ge: "pcb_base U \<le> pcb_addr U i" by (simp add: word_le_nat_alt a)
  have d: "unat (pcb_addr U i - pcb_base U) = i * ?z" using unat_sub[OF ge] a by simp
  have z: "0 < ?z" using U by (simp add: layout_ok_def)
  have m: "(pcb_addr U i - pcb_base U) mod sizeof_pcb U = 0"
    by (rule word_eqI_unat) (simp add: unat_mod d)
  have "unat (sizeof_pcb U * of_nat MAXPROC) = MAXPROC * ?z"
  proof -
    have "sizeof_pcb U * of_nat MAXPROC = of_nat (MAXPROC * ?z)" by simp
    then have "unat (sizeof_pcb U * of_nat MAXPROC) = (MAXPROC * ?z) mod 2 ^ 32" by (simp only: unat_of_nat) simp
    with lt show ?thesis by simp
  qed
  then have "unat (pcb_base U + sizeof_pcb U * of_nat MAXPROC) = ?b + MAXPROC * ?z"
    using lt by (simp add: unat_plus_if')
  then have le: "pcb_addr U i \<le> pcb_base U + sizeof_pcb U * of_nat MAXPROC"
    using iz by (simp add: word_le_nat_alt a)
  have "unat ((pcb_addr U i - pcb_base U) div sizeof_pcb U) = i" using z by (simp add: unat_div d)
  with m ge le show ?thesis by (simp add: search_by_pid_def Let_def)
qed

section \<open>The semaphore operations\<close>

definition woken :: "u32 \<Rightarrow> nat \<Rightarrow> 'h kst \<Rightarrow> kabs \<Rightarrow> 'h kst \<Rightarrow> kabs \<Rightarrow> bool" where
  "woken k t s A s' A' \<longleftrightarrow>
     a_lq A' = a_lq A @ (if p_prio (pcbs s t) = PROCESS_PRIO_LOW then [t] else []) \<and>
     a_hq A' = a_hq A @ (if p_prio (pcbs s t) = PROCESS_PRIO_HIGH then [t] else []) \<and>
     set (a_det A) \<subseteq> set (a_det A') \<and> set (a_alive A') = set (a_alive A) \<and> a_free A' = a_free A \<and>
     (\<forall>j. waiting s' A' j = (if j = k then tl (waiting s A k) else waiting s A j)) \<and>
     pcbs s' = (pcbs s)(t := (pcbs s t)\<lparr>p_semAdd := NULL\<rparr>) \<and> same_user s s'"

definition blocked_on :: "u32 \<Rightarrow> nat \<Rightarrow> 'h kst \<Rightarrow> kabs \<Rightarrow> 'h kst \<Rightarrow> kabs \<Rightarrow> bool" where
  "blocked_on k a s A s' A' \<longleftrightarrow>
     a_lq A' = a_lq A \<and> a_hq A' = a_hq A \<and> a_free A' = a_free A \<and>
     a_det A' = remove1 a (a_det A) \<and> set (a_alive A') = set (a_alive A) \<and>
     (\<forall>j. waiting s' A' j = (if j = k then waiting s A k @ [a] else waiting s A j)) \<and>
     pcbs s' = (pcbs s)(a := (pcbs s a)\<lparr>p_semAdd := k\<rparr>) \<and> same_user s s'"

lemma same_env_user: "same_env s s' \<Longrightarrow> same_user s s' \<and> sb_procs s' = sb_procs s \<and> procs_count s' = procs_count s"
  by (simp add: same_env_def same_user_def)

lemma block_on_kinv:
  assumes k: "kinv U s A" and a: "a \<in> set (a_det A)" and key: "key \<noteq> NULL"
  obtains s' A' where "block_on key a msg s = Ret () s'" and "kinv U s' A'" and "blocked_on key a s A s' A'"
    and "s_key s' = (case semd_of s A key of None \<Rightarrow> (s_key s)(hd (a_sfree A) := key) | Some _ \<Rightarrow> s_key s)"
proof -
  have r: "krep U s A" "kcnt s A" "prio_ok s A" using k by (simp_all add: kinv_def)
  note K = krepD[OF r(1)]
  have "L_of A (PList a) = Some []" using a by simp
  then have e: "list_empty (PList a) (lh s)" using lists_rep_empty_iff[OF K(3)] by blast
  obtain s1 where s1: "insert_blocked key a s = Ret False s1" "krep U s1 (a_block s key a A)" "same_env s s1"
    "pcbs s1 = (pcbs s)(a := (pcbs s a)\<lparr>p_semAdd := key\<rparr>)"
    "s_key s1 = (case semd_of s A key of None \<Rightarrow> (s_key s)(hd (a_sfree A) := key) | Some _ \<Rightarrow> s_key s)"
    by (rule insert_blocked_refines[OF r(1) a key])
  let ?A' = "a_block s key a A" and ?s' = "upd_sb (\<lambda>c. c + 1) s1"
  have run: "block_on key a msg s = Ret () ?s'"
    by (simp add: block_on_def kseq_def kbind_def kmodify_def e s1(1))
  have "length (a_blocked ?A') = Suc (length (a_blocked A))"
    using a_block_blocked[OF K(2), of s key a] by (metis size_add_mset size_mset)
  moreover have "length (a_alive ?A') = length (a_alive A)" using a_block_alive[OF K(2) a] by (metis size_mset)
  ultimately have "kcnt ?s' ?A'" using r(2) same_env_user[OF s1(3)] by (simp add: kcnt_def)
  moreover have "prio_ok ?s' ?A'" using r(3) by (auto simp: prio_ok_def s1(4))
  moreover have "krep U ?s' ?A'" by (rule krep_cong[OF s1(2)]) simp_all
  ultimately have kk: "kinv U ?s' ?A'" by (simp add: kinv_def)
  have w: "waiting ?s' ?A' j = waiting s1 ?A' j" for j by (rule waiting_cong) simp_all
  have "blocked_on key a s A ?s' ?A'"
    using same_env_user[OF s1(3)] mset_eq_setD[OF a_block_alive[OF K(2) a, of s key]] s1(4)
    by (simp add: blocked_on_def w waiting_block[OF K(1,2,4) a s1(5) krepD(4)[OF s1(2)]] same_user_def)
  with run kk show thesis by (rule that) (simp add: s1(5))
qed

text \<open>What both \<open>passeren\<close> and \<open>verhogen\<close> do with a process they find waiting.\<close>

lemma wake_kinv:
  assumes k: "kinv U s A" and w: "waiting s A key = t # ts"
  obtains s1 A' where "remove_blocked key s = Ret (Some t) s1"
    and "kinv U (upd_sb (\<lambda>c. c - 1) (enqueue_proc t (p_prio (pcbs s1 t)) s1)) A'"
    and "woken key t s A (upd_sb (\<lambda>c. c - 1) (enqueue_proc t (p_prio (pcbs s1 t)) s1)) A'"
proof -
  have r: "krep U s A" "kcnt s A" "prio_ok s A" using k by (simp_all add: kinv_def)
  note K = krepD[OF r(1)]
  obtain i s1 where i: "(i, t # ts) \<in> set (a_asl A)" and s1: "remove_blocked key s = Ret (Some t) s1"
    "krep U s1 (a_unblock i (t # ts) (i # a_sfree A) t A)" "same_env s s1"
    "pcbs s1 = (pcbs s)(t := (pcbs s t)\<lparr>p_semAdd := NULL\<rparr>)"
    and ws: "\<And>j. waiting s1 (a_unblock i (t # ts) (i # a_sfree A) t A) j = (if j = key then ts else waiting s A j)"
    by (rule remove_blocked_first[OF r(1) w]) blast
  let ?A1 = "a_unblock i (t # ts) (i # a_sfree A) t A"
  let ?A' = "a_enq (p_prio (pcbs s1 t)) t ?A1" and ?s' = "upd_sb (\<lambda>c. c - 1) (enqueue_proc t (p_prio (pcbs s1 t)) s1)"
  note ua = a_unblock_alive[OF K(2) i list.set_intros(1), of "i # a_sfree A"]
  note ub = a_unblock_blocked[OF K(2) i list.set_intros(1), of "i # a_sfree A"]
  have t: "t \<in> set (a_det ?A1)" by simp
  have r': "krep U ?s' ?A'" by (rule krep_cong[OF enqueue_proc_krep[OF s1(2) t]]) simp_all
  note ea = a_enq_alive[OF t, of "p_prio (pcbs s1 t)"]
  have "length (a_alive ?A') = length (a_alive A)" using ua ea by (metis size_mset)
  moreover have "length (a_blocked A) = Suc (length (a_blocked ?A'))" using ub by (metis a_enq_sel(5) size_add_mset size_mset)
  ultimately have "kcnt ?s' ?A'" using r(2) same_env_user[OF s1(3)] by (simp add: kcnt_def)
  moreover have "prio_ok ?s' ?A'" using r(3) by (auto simp: prio_ok_def s1(4) a_enq_def)
  ultimately have kk: "kinv U ?s' ?A'" using r' by (simp add: kinv_def)
  have "waiting ?s' ?A' j = waiting s1 ?A1 j" for j by (rule waiting_cong) simp_all
  then have wt: "waiting ?s' ?A' j = (if j = key then tl (waiting s A key) else waiting s A j)" for j
    by (simp add: ws w)
  have al: "set (a_alive ?A') = set (a_alive A)" using mset_eq_setD[OF ea] mset_eq_setD[OF ua] by simp
  have pr: "p_prio (pcbs s1 t) = p_prio (pcbs s t)" by (simp add: s1(4))
  have det: "set (a_det A) \<subseteq> set (a_det ?A')" using blocked_not_elsewhere(4)[OF K(1,2) i list.set_intros(1)]
    by (auto simp: a_enq_def)
  have "woken key t s A ?s' ?A'"
    using al det same_env_user[OF s1(3)] unfolding woken_def wt by (simp add: same_user_def s1(4) a_enq_def)
  with s1(1) kk show thesis by (rule that)
qed

lemma passeren_blocks:
  assumes k: "kinv U s A" and act: "act_proc s = Some a" and a: "a \<in> set (a_det A)" and key: "key \<noteq> NULL"
    and z: "mem s key = 0"
  obtains s' A' where "passeren key s = Ret NOTHING s'" and "kinv U s' A'" and "blocked_on key a s A s' A'"
proof -
  obtain s' A' where b: "block_on key a ''insert_blocked failed in passeren'' s = Ret () s'" "kinv U s' A'"
    "blocked_on key a s A s' A'" by (rule block_on_kinv[OF k a key])
  then have "passeren key s = Ret NOTHING s'"
    by (simp add: passeren_def z with_act_def act kseq_def kbind_def kreturn_def)
  with b show thesis by (intro that)
qed

lemma passeren_passes:
  assumes k: "kinv U s A" and z: "mem s key \<noteq> 0"
  shows "waiting s A key = [] \<Longrightarrow> passeren key s = Ret RENQUEUE (store_mem key 0 s)"
    and "waiting s A key = t # ts \<Longrightarrow> \<exists>s' A'. passeren key s = Ret RENQUEUE s' \<and> kinv U s' A' \<and> woken key t s A s' A'"
proof -
  have r: "krep U s A" using k by (simp add: kinv_def)
  show "passeren key s = Ret RENQUEUE (store_mem key 0 s)" if "waiting s A key = []"
    using remove_blocked_empty[OF r that] z by (simp add: passeren_def kbind_def)
  show "\<exists>s' A'. passeren key s = Ret RENQUEUE s' \<and> kinv U s' A' \<and> woken key t s A s' A'" if "waiting s A key = t # ts"
    by (rule wake_kinv[OF k that]) (auto simp: passeren_def kbind_def z)
qed

lemma verhogen_blocks:
  assumes k: "kinv U s A" and act: "act_proc s = Some a" and a: "a \<in> set (a_det A)" and key: "key \<noteq> NULL"
    and z: "mem s key = 1"
  obtains s' A' where "verhogen key s = Ret None s'" and "kinv U s' A'" and "blocked_on key a s A s' A'"
proof -
  obtain s' A' where b: "block_on key a ''insert_blocked failed in verhogen'' s = Ret () s'" "kinv U s' A'"
    "blocked_on key a s A s' A'" by (rule block_on_kinv[OF k a key])
  then have "verhogen key s = Ret None s'"
    by (simp add: verhogen_def z act kseq_def kbind_def kreturn_def)
  with b show thesis by (intro that)
qed

lemma verhogen_passes:
  assumes k: "kinv U s A" and z: "mem s key \<noteq> 1"
  shows "waiting s A key = [] \<Longrightarrow> verhogen key s = Ret (act_proc s) (store_mem key 1 s)"
    and "waiting s A key = t # ts \<Longrightarrow> \<exists>s' A'. verhogen key s = Ret (Some t) s' \<and> kinv U s' A' \<and> woken key t s A s' A'"
proof -
  have r: "krep U s A" using k by (simp add: kinv_def)
  show "verhogen key s = Ret (act_proc s) (store_mem key 1 s)" if "waiting s A key = []"
    using remove_blocked_empty[OF r that] z by (simp add: verhogen_def kbind_def Let_def)
  show "\<exists>s' A'. verhogen key s = Ret (Some t) s' \<and> kinv U s' A' \<and> woken key t s A s' A'" if "waiting s A key = t # ts"
    by (rule wake_kinv[OF k that]) (auto simp: verhogen_def kbind_def z)
qed

section \<open>Every system call keeps the kernel invariant\<close>

text \<open>
  What the exception handler finds when a handler returns \<open>r\<close>: the invariant, and, if the
  running process is to go on, that process still in no queue.
\<close>

definition handled :: "'h plat \<Rightarrow> int \<Rightarrow> 'h kst \<Rightarrow> kabs \<Rightarrow> bool" where
  "handled U r s A \<longleftrightarrow> kinv U s A \<and> yielded_ok s A \<and>
     (\<forall>a. act_proc s = Some a \<longrightarrow> a < MAXPROC \<and>
        (r = RENQUEUE \<or> r = CONTINUE \<longrightarrow> a \<in> set (a_det A) \<and> yielded_proc s \<noteq> Some a))"

definition handler_ok :: "'h plat \<Rightarrow> (stop, int, 'h kst) out \<Rightarrow> bool" where
  "handler_ok U out =
     (case out of
        Ret r s' \<Rightarrow> \<exists>A'. handled U r s' A'
      | Stop Panic s' \<Rightarrow> True
      | Stop (Ldcxt sp st pc) s' \<Rightarrow> \<exists>A' a. running U a s' A'
      | Stop _ s' \<Rightarrow> False)"

lemma runningD:
  assumes "running U a s A"
  shows "kinv U s A" "krep U s A" "act_proc s = Some a" "yielded_proc s = None" "a \<in> set (a_det A)"
    "a \<in> set (a_alive A)" "a < MAXPROC" "yielded_ok s A" "p_semAdd (pcbs s a) = NULL"
proof -
  show k: "kinv U s A" "act_proc s = Some a" "yielded_proc s = None" "a \<in> set (a_det A)"
    using assms by (simp_all add: running_def)
  then show r: "krep U s A" by (simp add: kinv_def)
  show al: "a \<in> set (a_alive A)" "a < MAXPROC" using det_not_elsewhere[OF krepD(1)[OF r] k(4)] by simp_all
  show "yielded_ok s A" using k(3) by (simp add: yielded_ok_def)
  show "p_semAdd (pcbs s a) = NULL" using krepD(4)[OF r] k(4) by (simp add: sem_ok_def)
qed

lemma handled_continue:
  assumes "running U a s A" and "kinv U s' A'" and "act_proc s' = act_proc s" and "yielded_proc s' = yielded_proc s"
    and "set (a_det A) \<subseteq> set (a_det A')"
  shows "handled U r s' A'"
  using assms(2-5) runningD[OF assms(1)] by (auto simp: handled_def yielded_ok_def)

lemma handled_nothing:
  assumes "running U a s A" and "kinv U s' A'" and "act_proc s' = act_proc s" and "yielded_proc s' = yielded_proc s"
  shows "handled U NOTHING s' A'"
  using assms(2-4) runningD[OF assms(1)] by (auto simp: handled_def yielded_ok_def eh_act_defs)

lemma upd_reg_kinv: "kinv U s A \<Longrightarrow> kinv U (upd_reg p r v s) A"
  by (erule kinv_cong) (simp_all add: upd_reg_def)

lemma upd_reg_sel [simp]:
  "lh (upd_reg p r v s) = lh s" "act_proc (upd_reg p r v s) = act_proc s"
  "yielded_proc (upd_reg p r v s) = yielded_proc s" "mem (upd_reg p r v s) = mem s"
  "pcbs (upd_reg p r v s) = (pcbs s)(p := (pcbs s p)\<lparr>p_s := set_reg r v (p_s (pcbs s p))\<rparr>)"
  by (simp_all add: upd_reg_def)

lemma store_mem_kinv: "kinv U s A \<Longrightarrow> kinv U (store_mem x v s) A"
  by (erule kinv_cong) simp_all

lemma LOG_kinv: "kinv U s A \<Longrightarrow> kinv U (LOG t m s) A"
  by (erule kinv_cong) simp_all

lemma handler_ok_upd_reg: "running U a s A \<Longrightarrow> handler_ok U (Ret CONTINUE (upd_reg a r v s))"
  unfolding handler_ok_def using handled_continue[OF _ upd_reg_kinv] runningD(1) by fastforce

lemma passeren_ok:
  assumes run: "running U a s A" and key: "key \<noteq> NULL"
  shows "\<exists>r s' A'. passeren key s = Ret r s' \<and> handled U r s' A'"
proof -
  note R = runningD[OF run]
  show ?thesis
  proof (cases "mem s key = 0")
    case True
    then obtain s' A' where "passeren key s = Ret NOTHING s'" "kinv U s' A'" "blocked_on key a s A s' A'"
      by (rule passeren_blocks[OF R(1,3,5) key])
    then show ?thesis using handled_nothing[OF run] by (auto simp: blocked_on_def same_user_def)
  next
    case False
    show ?thesis
    proof (cases "waiting s A key")
      case Nil
      then show ?thesis using passeren_passes(1)[OF R(1) False] handled_continue[OF run store_mem_kinv[OF R(1)]] by auto
    next
      case (Cons t ts)
      then show ?thesis using passeren_passes(2)[OF R(1) False Cons] handled_continue[OF run]
        by (fastforce simp: woken_def same_user_def)
    qed
  qed
qed

lemma verhogen_ok:
  assumes run: "running U a s A" and key: "key \<noteq> NULL"
  shows "\<exists>r s' A'. verhogen key s = Ret r s' \<and> handled U (if r = None then NOTHING else RENQUEUE) s' A'"
proof -
  note R = runningD[OF run]
  show ?thesis
  proof (cases "mem s key = 1")
    case True
    then obtain s' A' where "verhogen key s = Ret None s'" "kinv U s' A'" "blocked_on key a s A s' A'"
      by (rule verhogen_blocks[OF R(1,3,5) key])
    then show ?thesis using handled_nothing[OF run] by (auto simp: blocked_on_def same_user_def)
  next
    case False
    show ?thesis
    proof (cases "waiting s A key")
      case Nil
      then show ?thesis using verhogen_passes(1)[OF R(1) False] handled_continue[OF run store_mem_kinv[OF R(1)]] R(3) by auto
    next
      case (Cons t ts)
      then obtain s' A' where "verhogen key s = Ret (Some t) s'" "kinv U s' A'" "woken key t s A s' A'"
        using verhogen_passes(2)[OF R(1) False Cons] by blast
      then show ?thesis using handled_continue[OF run, of s' A' RENQUEUE]
        by (auto simp: woken_def same_user_def)
    qed
  qed
qed

lemma term_process_run:
  assumes run: "running U a s A" and U: "layout_ok U"
    and target: "(if pid = 0 then act_proc s else search_by_pid U pid) = Some p" "p \<in> set (a_alive A)"
  obtains s' A' where "term_process U pid s = Ret (if a \<in> descendants s A p then NOTHING else RENQUEUE) s'"
    and "kinv U s' A'" and "killed (descendants s A p) s A s' A'"
proof -
  note R = runningD[OF run]
  obtain s' A' where k: "kill_parent_and_progeny (Some p) s = Ret () s'" "kinv U s' A'"
    "killed (descendants s A p) s A s' A'" by (rule kill_parent_and_progeny_kinv[OF R(1) target(2)])
  have al: "a \<in> set (a_alive A') \<longleftrightarrow> a \<notin> descendants s A p" using k(3) R(6) by (auto simp: killed_def)
  have act: "act_proc s' = Some a" using k(3) R(3) by (simp add: killed_def same_user_def)
  have r': "krep U s' A'" using k(2) by (simp add: kinv_def)
  have "term_process U pid s = Ret (if a \<in> descendants s A p then NOTHING else RENQUEUE) s'"
    using is_alive_run[OF r' U R(7)] al
    by (simp add: term_process_def target(1) Let_def kseq_def kbind_def k(1) with_act_def act kreturn_def)
  with k show thesis by (intro that)
qed

lemma term_process_ok:
  assumes run: "running U a s A" and U: "layout_ok U"
    and target: "(if pid = 0 then act_proc s else search_by_pid U pid) = Some p" "p \<in> set (a_alive A)"
  shows "handler_ok U (term_process U pid s)"
proof -
  note R = runningD[OF run]
  obtain s' A' where k: "term_process U pid s = Ret (if a \<in> descendants s A p then NOTHING else RENQUEUE) s'"
    "kinv U s' A'" "killed (descendants s A p) s A s' A'" by (rule term_process_run[OF assms])
  have f: "act_proc s' = Some a" "yielded_proc s' = None"
    "a \<notin> descendants s A p \<Longrightarrow> a \<in> set (a_det A')" using k(3) R by (auto simp: killed_def same_user_def)
  then have "handled U (if a \<in> descendants s A p then NOTHING else RENQUEUE) s' A'"
    using k(2) R(7) by (auto simp: handled_def yielded_ok_def eh_act_defs)
  then show ?thesis by (auto simp: handler_ok_def k(1))
qed

lemma passup_or_die_ok:
  assumes run: "running U a s A"
  shows "handler_ok U (passup_or_die kind s)"
proof (cases "p_supportStruct (pcbs s a) = NULL")
  case True
  note R = runningD[OF run]
  obtain s' A' where k: "kill_parent_and_progeny (Some a) s = Ret () s'" "kinv U s' A'"
    "killed (descendants s A a) s A s' A'" by (rule kill_parent_and_progeny_kinv[OF R(1,6)])
  have "passup_or_die kind s = Ret NOTHING (LOG ''E'' ''Dying'' s')"
    using True by (simp add: passup_or_die_def R(3) Let_def kseq_def kbind_def k(1) kmodify_def kreturn_def)
  moreover have "handled U NOTHING (LOG ''E'' ''Dying'' s') A'"
    by (rule handled_nothing[OF run LOG_kinv[OF k(2)]]) (use k(3) in \<open>simp_all add: killed_def same_user_def\<close>)
  ultimately show ?thesis by (auto simp: handler_ok_def)
next
  case False
  note R = runningD[OF run]
  let ?s' = "set_exceptState (p_supportStruct (pcbs s a)) kind (states s BIOSDATAPAGE) s"
  have "kinv U ?s' A" by (rule kinv_cong[OF R(1)]) (simp_all add: set_exceptState_def)
  then have "running U a ?s' A" using run by (simp add: running_def set_exceptState_def)
  moreover have "passup_or_die kind s =
      (let c = sup_exceptContext (supports ?s' (p_supportStruct (pcbs s a))) kind
       in Stop (Ldcxt (cx_stackPtr c) (cx_status c) (cx_pc c)) ?s')"
    using False by (simp add: passup_or_die_def R(3) Let_def kseq_def kbind_def kmodify_def kread_def kstop_def)
  ultimately show ?thesis by (auto simp: handler_ok_def Let_def)
qed

lemma create_process_ok:
  assumes run: "running U a s A"
  shows "handler_ok U (create_process U statep prio supportp s)"
proof (cases "a_free A")
  case Nil
  note R = runningD[OF run]
  have "create_process U statep prio supportp s = Ret (-1) s"
    by (simp add: create_process_def kbind_def mk_proc_none[OF R(2) Nil] kreturn_def)
  moreover have "handled U (-1) s A" by (rule handled_continue[OF run R(1)]) simp_all
  ultimately show ?thesis by (auto simp: handler_ok_def)
next
  case (Cons p ps)
  note R = runningD[OF run]
  obtain s' where m: "mk_proc U statep prio supportp s = Ret (Some p) s'"
    "kinv U s' (a_create prio a p A)" "same_user s s'"
    "pcbs s' = (pcbs s)(p := new_pcb U s a statep prio supportp p)"
    by (rule mk_proc_kinv[OF R(1,3,6) Cons])
  have act: "act_proc s' = Some a" "yielded_proc s' = None" using m(3) R by (simp_all add: same_user_def)
  have "a \<noteq> p" using pcbs_wf_free_alive[OF krepD(1)[OF R(2)]] R(6) Cons by auto
  then have det: "set (a_det A) \<subseteq> set (a_det (a_create prio a p A))"
    using pcbs_wf_free_alive[OF krepD(1)[OF R(2)]] Cons R(6)
    by (auto simp: a_create_def a_enq_def set_a_alive)
  have "create_process U statep prio supportp s = Ret CONTINUE (upd_reg a (reg_v0 U) (p_pid (pcbs s' p)) s')"
    by (simp add: create_process_def kbind_def m(1) with_act_def act)
  moreover have "handled U CONTINUE (upd_reg a (reg_v0 U) (p_pid (pcbs s' p)) s') (a_create prio a p A)"
    by (rule handled_continue[OF run upd_reg_kinv[OF m(2)]]) (use act R det in simp_all)
  ultimately show ?thesis by (auto simp: handler_ok_def)
qed

lemma do_io_ok:
  assumes run: "running U a s A"
    and dev: "cmdaddr \<noteq> 0 \<Longrightarrow> cmdaddr \<noteq> NULL \<Longrightarrow> \<exists>sem. io_sem U cmdaddr = Some sem \<and> sem \<noteq> NULL"
  shows "handler_ok U (do_io U cmdaddr cmdval s)"
proof (cases "cmdaddr = 0 \<or> cmdaddr = NULL")
  case True
  then show ?thesis by (simp add: do_io_def handler_ok_def kseq_def kbind_def kmodify_def PANIC_def kstop_def)
next
  case False
  then obtain sem where sem: "io_sem U cmdaddr = Some sem" "sem \<noteq> NULL" using dev by blast
  obtain r s' A' where p: "passeren sem s = Ret r s'" "handled U r s' A'" using passeren_ok[OF run sem(2)] by blast
  have "do_io U cmdaddr cmdval s = Ret NOTHING (store_mem cmdaddr cmdval s')"
    using False by (simp add: do_io_def sem(1) kseq_def kbind_def kmodify_def kreturn_def p(1))
  moreover have "handled U NOTHING (store_mem cmdaddr cmdval s') A'"
    using p(2) store_mem_kinv[of U s' A'] by (auto simp: handled_def yielded_ok_def eh_act_defs)
  ultimately show ?thesis by (auto simp: handler_ok_def)
qed

text \<open>
  The requests the kernel can serve: a process to kill that is alive, a semaphore that is not
  \<open>NULL\<close>, a command register of a device.
\<close>

definition request_ok :: "'h plat \<Rightarrow> 'h kst \<Rightarrow> nat \<Rightarrow> bool" where
  "request_ok U s a \<longleftrightarrow>
     (let reg = gpr (p_s (pcbs s a));
          number = sint (reg (reg_a0 U)); arg1 = reg (reg_a1 U)
      in (number = TERMPROCESS \<longrightarrow> arg1 = 0 \<or>
            (\<exists>p\<in>set [0..<MAXPROC]. arg1 = pcb_addr U p \<and> is_alive p s = Ret True s)) \<and>
         (number = PASSEREN \<or> number = VERHOGEN \<longrightarrow> arg1 \<noteq> NULL) \<and>
         (number = DOIO \<longrightarrow> arg1 = 0 \<or> arg1 = NULL \<or> (\<exists>sem. io_sem U arg1 = Some sem \<and> sem \<noteq> NULL)) \<and>
         (number = CLOCKWAIT \<longrightarrow> addr_sem_it U \<noteq> NULL))"

lemma check_sem_ok:
  assumes run: "running U a s A" and U: "layout_ok U" and op: "handler_ok U (op s)"
  shows "handler_ok U (check_sem sem a c z op s)"
  using op is_alive_run[OF runningD(2)[OF run] U runningD(7)[OF run]] runningD(6)[OF run]
  by (auto simp: check_sem_def kseq_def kbind_def kmodify_def PANIC_def kstop_def handler_ok_def)

lemma handle_syscall_ok:
  assumes run: "running U a s A" and U: "layout_ok U" and req: "request_ok U s a"
  shows "handler_ok U (handle_syscall U s)"
proof -
  note R = runningD[OF run]
  define number where "number = sint (gpr (p_s (pcbs s a)) (reg_a0 U))"
  define arg1 where "arg1 = gpr (p_s (pcbs s a)) (reg_a1 U)"
  have al: "is_alive a s = Ret True s" using is_alive_run[OF R(2) U R(7)] R(6) by simp
  have get: "handler_ok U (get_time U s)" "handler_ok U (get_support U s)" "handler_ok U (get_process_pid U arg1 s)"
    using handler_ok_upd_reg[OF run] by (simp_all add: get_time_def get_support_def get_process_pid_def with_act_def R(3))
  have yld: "handler_ok U (yield s)"
    using R kinv_cong[OF R(1), of "set_yielded (Some a) s"]
    by (auto simp: handler_ok_def yield_def handled_def yielded_ok_def eh_act_defs intro!: exI[of _ A])
  have clock: "handler_ok U (wait_for_clock U s)" if "number = CLOCKWAIT"
    using that req passeren_ok[OF run, of "addr_sem_it U"]
    by (auto simp: request_ok_def Let_def number_def wait_for_clock_def handler_ok_def)
  have trm: "handler_ok U (term_process U arg1 s)" if n: "number = TERMPROCESS"
  proof -
    have "arg1 = 0 \<or> (\<exists>p\<in>set (a_alive A). arg1 = pcb_addr U p)"
      using req n is_alive_run[OF R(2) U]
      by (auto simp: request_ok_def Let_def number_def arg1_def)
    then obtain p where "(if arg1 = 0 then act_proc s else search_by_pid U arg1) = Some p" "p \<in> set (a_alive A)"
    proof
      assume "\<exists>p\<in>set (a_alive A). arg1 = pcb_addr U p"
      then obtain p where p: "p \<in> set (a_alive A)" "arg1 = pcb_addr U p" by blast
      then have "p \<le> MAXPROC" using pcbs_wf_lt[OF krepD(1)[OF R(2)]] by (simp add: less_imp_le)
      then show thesis using that[of p] p search_by_pid_addr[OF U] pcb_addr_nonzero[OF U] by simp
    qed (use R that in simp)
    then show ?thesis by (rule term_process_ok[OF run U])
  qed
  have p: "handler_ok U (check_sem arg1 a c z (passeren arg1) s)" if "number = PASSEREN" for c z
    using that req passeren_ok[OF run, of arg1]
    by (intro check_sem_ok[OF run U]) (auto simp: request_ok_def Let_def number_def arg1_def handler_ok_def)
  have v: "handler_ok U (check_sem arg1 a c z (kbind (verhogen arg1) (\<lambda>r. kreturn (if r = None then NOTHING else RENQUEUE))) s)"
    if n: "number = VERHOGEN" for c z
  proof (rule check_sem_ok[OF run U])
    have "arg1 \<noteq> NULL" using n req by (simp add: request_ok_def Let_def number_def arg1_def)
    then obtain r s' A' where "verhogen arg1 s = Ret r s'" "handled U (if r = None then NOTHING else RENQUEUE) s' A'"
      using verhogen_ok[OF run] by blast
    then show "handler_ok U (kbind (verhogen arg1) (\<lambda>r. kreturn (if r = None then NOTHING else RENQUEUE)) s)"
      unfolding handler_ok_def kbind_def kreturn_def by (simp only: out.case) blast
  qed
  have io: "handler_ok U (do_io U arg1 v s)" if "number = DOIO" for v
    using that req by (intro do_io_ok[OF run]) (auto simp: request_ok_def Let_def number_def arg1_def)
  show ?thesis
    using get yld clock trm p v io create_process_ok[OF run] passup_or_die_ok[OF run, of GENERALEXCEPT] R(9)
    unfolding handle_syscall_def with_act_def R(3) option.case Let_def number_def[symmetric] arg1_def[symmetric]
    by (simp add: kbind_Ret[where m = "is_alive a" and s = s, OF al])
qed

section \<open>The semaphores of the kernel are binary semaphores\<close>

text \<open>What is not about the semaphore \<open>k\<close>: its value and its queue stay, and so does the invariant.\<close>

definition apart :: "'h plat \<Rightarrow> u32 \<Rightarrow> 'h kst \<Rightarrow> 'h kst \<Rightarrow> bool" where
  "apart U k s s' \<longleftrightarrow> mem s' k = mem s k \<and>
     (\<forall>A. kinv U s A \<longrightarrow> (\<exists>A'. kinv U s' A' \<and> waiting s' A' k = waiting s A k))"

definition kernel_lock :: "'h plat \<Rightarrow> u32 \<Rightarrow> (nat, 'h kst, int, stop) lock_ops" where
  "kernel_lock U k =
     \<lparr>runs = (\<lambda>p s. \<exists>A. running U p s A), acquire = passeren k, goes_on = (\<lambda>r. r = RENQUEUE),
      release = verhogen k, elsewhere = apart U k\<rparr>"

text \<open>The invariant for a semaphore at \<open>k\<close>, and the value a semaphore is counted as.\<close>

definition lock_inv :: "'h plat \<Rightarrow> u32 \<Rightarrow> 'h kst \<Rightarrow> kabs \<Rightarrow> bool" where
  "lock_inv U k s A \<longleftrightarrow> k \<noteq> NULL \<and> kinv U s A"

lemma running_not_waiting:
  assumes run: "running U p s B" and k: "k \<noteq> NULL" and A: "kinv U s A"
  shows "p \<notin> set (waiting s A k)"
proof
  assume "p \<in> set (waiting s A k)"
  then have "p_semAdd (pcbs s p) = k" using waiting_blocked(2) A krepD(4) by (metis kinv_def)
  then show False using runningD(9)[OF run] k by simp
qed

lemma kernel_lock_sel [simp]:
  "runs (kernel_lock U k) p s \<longleftrightarrow> (\<exists>A. running U p s A)" "acquire (kernel_lock U k) = passeren k"
  "goes_on (kernel_lock U k) r \<longleftrightarrow> r = RENQUEUE" "release (kernel_lock U k) = verhogen k"
  "elsewhere (kernel_lock U k) = apart U k"
  by (simp_all add: kernel_lock_def)

lemma waiting_unique:
  assumes "kinv U s A" and "kinv U s B"
  shows "waiting s A k = waiting s B k"
  by (rule sq.holds_unique[of k _ s]) (use assms in \<open>auto simp: sem_holds_def kinv_def\<close>)

lemma waiting_distinct:
  assumes "kinv U s A"
  shows "distinct (waiting s A k)"
proof (cases "waiting s A k")
  case (Cons t ts)
  have k: "krep U s A" using assms by (simp add: kinv_def)
  obtain i where "(i, t # ts) \<in> set (a_asl A)" by (rule waiting_semd[OF k Cons])
  then show ?thesis using blocked_not_elsewhere(7)[OF krepD(1,2)[OF k] _ list.set_intros(1)] Cons by simp
qed simp

text \<open>A running process has the same queues, and is detached, in every abstract state of \<open>s\<close>.\<close>

lemma running_det:
  assumes run: "running U p s B" and A: "kinv U s A"
  shows "running U p s A"
proof -
  note R = runningD[OF run]
  have k: "krep U s A" "krep U s B" using A R by (simp_all add: kinv_def)
  have q: "a_hq A = a_hq B" "a_lq A = a_lq B" "a_free A = a_free B"
  proof -
    have e: "xs = ys" if "L_of A h = Some (map PList xs)" "L_of B h = Some (map PList ys)" "\<forall>p. h \<noteq> PList p" for h xs ys
    proof (rule pq.holds_unique[of h])
      show "queue_holds h xs s" "queue_holds h ys s"
        using that krepD(3)[OF k(1)] krepD(3)[OF k(2)] by (auto simp: queue_holds_def)
    qed
    show "a_hq A = a_hq B" by (rule e[of HQueue]) simp_all
    show "a_lq A = a_lq B" by (rule e[of LQueue]) simp_all
    show "a_free A = a_free B" by (rule e[of PcbFreeH]) simp_all
  qed
  note d = det_not_elsewhere[OF krepD(1)[OF k(2)] R(5)]
  have al: "p \<in> set (a_alive A)" using d q krepD(1)[OF k(1)] by (auto simp: pcbs_wf_def)
  have "p \<notin> set (a_blocked A)" using semAdd_blocked[OF k(1) al] R(9) by simp
  then have "p \<in> set (a_det A)" using al d q by (auto simp: set_a_alive)
  then show ?thesis using A R by (simp add: running_def)
qed

interpretation lock: binary_semaphore "kernel_lock U k" "lock_inv U k" "\<lambda>s. unat (mem s k)" "\<lambda>s A. waiting s A k"
  for U :: "'h plat" and k :: u32
proof unfold_locales
  fix s :: "'h kst" and A B
  assume "lock_inv U k s A" and "lock_inv U k s B"
  then show "waiting s A k = waiting s B k" using waiting_unique by (auto simp: lock_inv_def)
next
  fix s :: "'h kst" and A
  assume "lock_inv U k s A"
  then show "distinct (waiting s A k)" using waiting_distinct by (auto simp: lock_inv_def)
next
  fix s :: "'h kst" and A p
  assume "runs (kernel_lock U k) p s" and "lock_inv U k s A"
  then show "p \<notin> set (waiting s A k)" by (auto simp: lock_inv_def dest: running_not_waiting)
next
  fix s :: "'h kst" and A p
  assume i: "lock_inv U k s A" and v: "unat (mem s k) = 1" and w: "waiting s A k = []"
  have m: "mem s k \<noteq> 0" using v by auto
  have "passeren k s = Ret RENQUEUE (store_mem k 0 s)" "lock_inv U k (store_mem k 0 s) A"
    using i passeren_passes(1)[OF _ m w] store_mem_kinv by (auto simp: lock_inv_def)
  moreover have "waiting (store_mem k 0 s) A k = []" using w waiting_cong[of A A "store_mem k 0 s" s k] by simp
  ultimately show "\<exists>r s' A'. acquire (kernel_lock U k) s = Ret r s' \<and> goes_on (kernel_lock U k) r \<and>
      lock_inv U k s' A' \<and> unat (mem s' k) = 0 \<and> waiting s' A' k = []"
    by (auto intro!: exI[of _ A])
next
  fix s :: "'h kst" and A p
  assume p: "runs (kernel_lock U k) p s" and i: "lock_inv U k s A" and v: "unat (mem s k) = 0"
  have run: "running U p s A" using p i running_det by (auto simp: lock_inv_def)
  have m: "mem s k = 0" using v by (simp add: unat_eq_0)
  note R = runningD[OF run]
  obtain s' A' where "passeren k s = Ret NOTHING s'" "kinv U s' A'" "blocked_on k p s A s' A'"
    using passeren_blocks[OF R(1,3,5) _ m] i by (auto simp: lock_inv_def)
  then show "\<exists>r s' A'. acquire (kernel_lock U k) s = Ret r s' \<and> \<not> goes_on (kernel_lock U k) r \<and>
      lock_inv U k s' A' \<and> unat (mem s' k) = 0 \<and> waiting s' A' k = waiting s A k @ [p]"
    using i v by (auto simp: lock_inv_def blocked_on_def same_user_def eh_act_defs)
next
  fix s :: "'h kst" and A p
  assume p: "runs (kernel_lock U k) p s" and i: "lock_inv U k s A" and v: "unat (mem s k) = 0" and w: "waiting s A k = []"
  have m: "mem s k \<noteq> 1" and act: "act_proc s = Some p" using v p by (auto simp: running_def)
  have "verhogen k s = Ret (Some p) (store_mem k 1 s)" "lock_inv U k (store_mem k 1 s) A"
    using i verhogen_passes(1)[OF _ m w] store_mem_kinv act by (auto simp: lock_inv_def)
  moreover have "waiting (store_mem k 1 s) A k = []" using w waiting_cong[of A A "store_mem k 1 s" s k] by simp
  ultimately show "\<exists>s' A'. release (kernel_lock U k) s = Ret (Some p) s' \<and> lock_inv U k s' A' \<and>
      unat (mem s' k) = 1 \<and> waiting s' A' k = []"
    by (auto intro!: exI[of _ A])
next
  fix s :: "'h kst" and A p t ts
  assume i: "lock_inv U k s A" and v: "unat (mem s k) = 0" and w: "waiting s A k = t # ts"
  have m: "mem s k \<noteq> 1" using v by auto
  have kk: "kinv U s A" using i by (simp add: lock_inv_def)
  obtain s' A' where "verhogen k s = Ret (Some t) s'" "kinv U s' A'" "woken k t s A s' A'"
    using verhogen_passes(2)[OF kk m w] by blast
  then show "\<exists>s' A'. release (kernel_lock U k) s = Ret (Some t) s' \<and> lock_inv U k s' A' \<and>
      unat (mem s' k) = 0 \<and> waiting s' A' k = ts"
    using i v w by (auto simp: lock_inv_def woken_def same_user_def)
next
  fix s s' :: "'h kst" and A
  assume "elsewhere (kernel_lock U k) s s'" and "lock_inv U k s A"
  then show "\<exists>A'. lock_inv U k s' A' \<and> unat (mem s' k) = unat (mem s k) \<and> waiting s' A' k = waiting s A k"
    by (auto simp: lock_inv_def apart_def)
qed

text \<open>Operations that are apart from the semaphore: on other semaphores, and on other words.\<close>

lemma apartI:
  assumes "kinv U s A" and "kinv U s' A'" and "mem s' k = mem s k" and "waiting s' A' k = waiting s A k"
  shows "apart U k s s'"
  unfolding apart_def using assms waiting_unique by metis

lemma apart_trans: "apart U k s s' \<Longrightarrow> apart U k s' s'' \<Longrightarrow> apart U k s s''"
  unfolding apart_def by metis

lemma apart_blocked_on:
  "kinv U s A \<Longrightarrow> kinv U s' A' \<Longrightarrow> blocked_on j a s A s' A' \<Longrightarrow> k \<noteq> j \<Longrightarrow> apart U k s s'"
  by (erule (1) apartI) (simp_all add: blocked_on_def same_user_def)

lemma apart_woken:
  "kinv U s A \<Longrightarrow> kinv U s' A' \<Longrightarrow> woken j t s A s' A' \<Longrightarrow> k \<noteq> j \<Longrightarrow> apart U k s s'"
  by (erule (1) apartI) (simp_all add: woken_def same_user_def)

lemma apart_store_mem: "k \<noteq> j \<Longrightarrow> apart U k s (store_mem j v s)"
  using store_mem_kinv waiting_cong[of _ _ "store_mem j v s" s] unfolding apart_def by fastforce

lemma passeren_apart:
  assumes run: "running U a s A" and j: "j \<noteq> NULL" "k \<noteq> j"
  shows "\<exists>r s'. passeren j s = Ret r s' \<and> apart U k s s'"
proof -
  note R = runningD[OF run]
  show ?thesis
  proof (cases "mem s j = 0")
    case True
    obtain s' A' where "passeren j s = Ret NOTHING s'" "kinv U s' A'" "blocked_on j a s A s' A'"
      by (rule passeren_blocks[OF R(1,3,5) j(1) True])
    then show ?thesis using apart_blocked_on[OF R(1) _ _ j(2)] by blast
  next
    case False
    show ?thesis
    proof (cases "waiting s A j")
      case Nil
      then show ?thesis using passeren_passes(1)[OF R(1) False] apart_store_mem[OF j(2)] by blast
    next
      case (Cons t ts)
      then show ?thesis using passeren_passes(2)[OF R(1) False] apart_woken[OF R(1) _ _ j(2)] by blast
    qed
  qed
qed

lemma verhogen_apart:
  assumes run: "running U a s A" and j: "j \<noteq> NULL" "k \<noteq> j"
  shows "\<exists>r s'. verhogen j s = Ret r s' \<and> apart U k s s'"
proof -
  note R = runningD[OF run]
  show ?thesis
  proof (cases "mem s j = 1")
    case True
    obtain s' A' where "verhogen j s = Ret None s'" "kinv U s' A'" "blocked_on j a s A s' A'"
      by (rule verhogen_blocks[OF R(1,3,5) j(1) True])
    then show ?thesis using apart_blocked_on[OF R(1) _ _ j(2)] by blast
  next
    case False
    show ?thesis
    proof (cases "waiting s A j")
      case Nil
      then show ?thesis using verhogen_passes(1)[OF R(1) False] apart_store_mem[OF j(2)] by blast
    next
      case (Cons t ts)
      then show ?thesis using verhogen_passes(2)[OF R(1) False] apart_woken[OF R(1) _ _ j(2)] by blast
    qed
  qed
qed

end
