(* ===== verification/Interrupts.thy ===== *)
theory Interrupts
  imports Syscalls
begin

text \<open>
  \<open>src/interrupts.c\<close>: the device semaphores and the handlers of the interrupt lines. The
  pseudo-clock loop is shown to end and to wake every process that waits for the tick.
\<close>

section \<open>The operations of interrupts.c\<close>

definition init_dev_sem :: "'h plat \<Rightarrow> 'h kst \<Rightarrow> 'h kst" where
  "init_dev_sem U s =
     fold (\<lambda>i s.
        store_mem (addr_sem_disk U + 4 * of_nat i) 0
       (store_mem (addr_sem_flash U + 4 * of_nat i) 0
       (store_mem (addr_sem_net U + 4 * of_nat i) 0
       (store_mem (addr_sem_printer U + 4 * of_nat i) 0
       (store_mem (addr_sem_term_in U + 4 * of_nat i) 0
       (store_mem (addr_sem_term_out U + 4 * of_nat i) 0 s))))))
       [0..<DEVPERINT U] (store_mem (addr_sem_it U) 0 s)"

text \<open>\<open>while (bitmap > 1) \{ ++index; bitmap >>= 1; \}\<close>\<close>

function highest_bit :: "u32 \<Rightarrow> nat \<Rightarrow> nat" where
  "highest_bit bitmap index =
     (if bitmap > 1 then highest_bit (drop_bit 1 bitmap) (Suc index) else index)"
  by auto
termination
proof (relation "measure (\<lambda>(bitmap, index). unat bitmap)")
  fix bitmap :: u32 and index :: nat
  assume "bitmap > 1"
  then have "1 < unat bitmap" by (simp add: word_less_nat_alt)
  then show "((drop_bit 1 bitmap, Suc index), bitmap, index) \<in> measure (\<lambda>(bitmap, index). unat bitmap)"
    by (simp add: drop_bit_eq_div unat_div)
qed simp

declare highest_bit.simps [simp del]

text \<open>The loop of the pseudo-clock: \<open>while (sem_it != 1)\<close> a \<open>V\<close>.\<close>

partial_function (option) clock_loop :: "u32 \<Rightarrow> 'h kst \<Rightarrow> (stop, unit, 'h kst) out option" where
  "clock_loop sem s =
     (if mem s sem = 1 then Some (Ret () s)
      else (case verhogen sem s of
              Stop w s' \<Rightarrow> Some (Stop w s')
            | Ret p s' \<Rightarrow>
                clock_loop sem
                  (case p of
                     None \<Rightarrow> s'
                   | Some q \<Rightarrow>
                       if p_semAdd (pcbs s' q) \<noteq> NULL
                       then LOGi ''I'' ''Verhogen has process still in semaphore '' (p_pid (pcbs s' q)) s'
                       else s')))"

definition clock_tick :: "'h plat \<Rightarrow> (unit, 'h) km" where
  "clock_tick U =
     kseq (\<lambda>s. case clock_loop (addr_sem_it U) s of None \<Rightarrow> Stop Diverge s | Some r \<Rightarrow> r)
          (kmodify (store_mem (addr_sem_it U) 0))"

definition check_index :: "'h plat \<Rightarrow> nat \<Rightarrow> (unit, 'h) km" where
  "check_index U index =
     (if DEVPERINT U \<le> index
      then kseq (kmodify (LOGi ''I'' ''invalid interrupt index'' (of_nat index))) PANIC
      else kreturn ())"

definition give_status :: "'h plat \<Rightarrow> nat option \<Rightarrow> u32 \<Rightarrow> 'h kst \<Rightarrow> 'h kst" where
  "give_status U po v s = (case po of None \<Rightarrow> s | Some p \<Rightarrow> upd_reg p (reg_v0 U) v s)"

definition generic_interrupt_handler :: "'h plat \<Rightarrow> nat \<Rightarrow> u32 \<Rightarrow> (unit, 'h) km" where
  "generic_interrupt_handler U line semaphores = (\<lambda>s.
     let index = highest_bit (mem s (CDEV_BITMAP_ADDR U (IL_DISK U + line))) 0;
         reg = devreg U line index
     in kseq (check_index U index)
       (kbind (verhogen (semaphores + 4 * of_nat index)) (\<lambda>p s.
          Ret () (store_mem (reg + off_dtp_command U) 1
                   (give_status U p (mem s (reg + off_dtp_status U)) s)))) s)"

text \<open>The transmitter is looked at first; the loop stops at the first part that is done.\<close>

definition terminal_interrupt_handler :: "'h plat \<Rightarrow> (unit, 'h) km" where
  "terminal_interrupt_handler U = (\<lambda>s.
     let index = highest_bit (mem s (CDEV_BITMAP_ADDR U (IL_TERMINAL U))) 0;
         reg = devreg U (IL_TERMINAL U - IL_DISK U) index;
         transm_status = mem s (reg + off_transm_status U);
         recv_status = mem s (reg + off_recv_status U);
         serve = (\<lambda>sem status command.
            kbind (verhogen (sem + 4 * of_nat index)) (\<lambda>p s.
              Ret () (store_mem command 1 (give_status U p status s))))
     in kseq (check_index U index)
         (if transm_status AND TERMSTATMASK = OKCHARTRANS
          then serve (addr_sem_term_out U) transm_status (reg + off_transm_command U)
          else if recv_status AND TERMSTATMASK = OKCHARTRANS
          then serve (addr_sem_term_in U) recv_status (reg + off_recv_command U)
          else kreturn ()) s)"

definition handle_interrupts :: "'h plat \<Rightarrow> nat \<Rightarrow> (int, 'h) km" where
  "handle_interrupts U line =
     (if line = IL_IPI U then kreturn CONTINUE
      else if line = IL_CPUTIMER U then
        kseq (kmodify (\<lambda>s. upd_hw (setTIMER U (plt_value s)) s)) (kreturn RENQUEUE)
      else if line = IL_TIMER U then
        kseq (kmodify (upd_hw (LDIT U PSECOND))) (kseq (clock_tick U) (kreturn CONTINUE))
      else if line = IL_DISK U then
        kseq (generic_interrupt_handler U (IL_DISK U - IL_DISK U) (addr_sem_disk U)) (kreturn CONTINUE)
      else if line = IL_FLASH U then
        kseq (generic_interrupt_handler U (IL_FLASH U - IL_DISK U) (addr_sem_flash U)) (kreturn CONTINUE)
      else if line = IL_ETHERNET U then
        kseq (generic_interrupt_handler U (IL_ETHERNET U - IL_DISK U) (addr_sem_net U)) (kreturn CONTINUE)
      else if line = IL_PRINTER U then
        kseq (generic_interrupt_handler U (IL_PRINTER U - IL_DISK U) (addr_sem_printer U)) (kreturn CONTINUE)
      else if line = IL_TERMINAL U then
        kseq (terminal_interrupt_handler U) (kreturn CONTINUE)
      else kreturn CONTINUE)"

section \<open>The number of the highest line that is up\<close>

lemma highest_bit_spec:
  assumes "0 < bm"
  shows "\<exists>n. highest_bit bm index = index + n \<and> bit bm n \<and> (\<forall>m>n. \<not> bit bm m) \<and> n < 32"
  using assms
proof (induction bm index rule: highest_bit.induct)
  case (1 bm index)
  show ?case
  proof (cases "bm > 1")
    case True
    have "drop_bit 1 bm \<noteq> 0"
    proof -
      have "unat (drop_bit 1 bm) = unat bm div 2" by (simp add: drop_bit_eq_div unat_div)
      moreover have "2 \<le> unat bm" using True by (simp add: word_less_nat_alt)
      ultimately have "unat (drop_bit 1 bm) \<noteq> 0" by (simp add: div_eq_0_iff)
      then show ?thesis by auto
    qed
    then obtain n where n: "highest_bit (drop_bit 1 bm) (Suc index) = Suc index + n" "bit (drop_bit 1 bm) n"
      "\<forall>m>n. \<not> bit (drop_bit 1 bm) m" "n < 32"
      using "1.IH"[OF True] by (auto simp: word_gt_0)
    have b: "bit bm (Suc n)" using n(2) by (simp add: bit_drop_bit_eq)
    have "\<not> bit bm m" if "m > Suc n" for m
      using n(3)[rule_format, of "m - 1"] that by (simp add: bit_drop_bit_eq)
    moreover have "Suc n < 32" using b bit_imp_le_length[of bm "Suc n"] by simp
    ultimately show ?thesis using True n(1) b by (subst highest_bit.simps) auto
  next
    case False
    then have "bm = 1" using "1.prems" by (metis inc_le linorder_not_less order_antisym_conv add_0)
    then show ?thesis by (subst highest_bit.simps) (auto simp: bit_1_iff intro!: exI[of _ 0])
  qed
qed

lemma highest_bit_correct:
  assumes "0 < bitmap"
  shows "highest_bit bitmap 0 < 32 \<and> bit bitmap (highest_bit bitmap 0) \<and> (\<forall>m>highest_bit bitmap 0. \<not> bit bitmap m)"
  using highest_bit_spec[OF assms, of 0] by auto

section \<open>The pseudo-clock\<close>

definition ticked :: "u32 \<Rightarrow> nat list \<Rightarrow> 'h kst \<Rightarrow> kabs \<Rightarrow> 'h kst \<Rightarrow> kabs \<Rightarrow> bool" where
  "ticked k ws s A s' A' \<longleftrightarrow>
     a_lq A' = a_lq A @ filter (\<lambda>t. p_prio (pcbs s t) = PROCESS_PRIO_LOW) ws \<and>
     a_hq A' = a_hq A @ filter (\<lambda>t. p_prio (pcbs s t) = PROCESS_PRIO_HIGH) ws \<and>
     set (a_det A) \<subseteq> set (a_det A') \<and> set (a_alive A') = set (a_alive A) \<and> a_free A' = a_free A \<and>
     (\<forall>j. waiting s' A' j = (if j = k then [] else waiting s A j)) \<and>
     (\<forall>x. pcbs s' x = (if x \<in> set ws then (pcbs s x)\<lparr>p_semAdd := NULL\<rparr> else pcbs s x)) \<and>
     act_proc s' = act_proc s \<and> yielded_proc s' = yielded_proc s \<and> mem s' = (mem s)(k := 1) \<and>
     states s' = states s \<and> supports s' = supports s \<and> hw s' = hw s"

lemma LOGi_kinv: "kinv U s A \<Longrightarrow> kinv U (LOGi t m i s) A"
  by (erule kinv_cong) simp_all

lemma clock_loop_run:
  assumes "kinv U s A" and "mem s k \<noteq> 1"
  shows "\<exists>s' A'. clock_loop k s = Some (Ret () s') \<and> kinv U s' A' \<and> ticked k (waiting s A k) s A s' A'"
  using assms
proof (induction "waiting s A k" arbitrary: s A)
  case Nil
  let ?s1 = "store_mem k 1 s"
  let ?s2 = "case act_proc s of None \<Rightarrow> ?s1 | Some q \<Rightarrow>
      if p_semAdd (pcbs ?s1 q) \<noteq> NULL
      then LOGi ''I'' ''Verhogen has process still in semaphore '' (p_pid (pcbs ?s1 q)) ?s1 else ?s1"
  have v: "verhogen k s = Ret (act_proc s) ?s1"
    by (rule verhogen_passes(1)[OF Nil.prems]) (use Nil.hyps in simp)
  have m: "mem ?s2 k = 1" by (simp split: option.split)
  have "clock_loop k s = clock_loop k ?s2"
    by (subst clock_loop.simps) (simp add: Nil.prems(2) v)
  also have "\<dots> = Some (Ret () ?s2)" by (subst clock_loop.simps) (simp only: m if_True simp_thms)
  finally have run: "clock_loop k s = Some (Ret () ?s2)" .
  have k1: "kinv U ?s2 A"
    using store_mem_kinv[OF Nil.prems(1)] LOGi_kinv[OF store_mem_kinv[OF Nil.prems(1)]]
    by (simp split: option.split)
  have w: "waiting ?s2 A j = waiting s A j" for j
    by (rule waiting_cong) (simp_all split: option.split)
  have "ticked k (waiting s A k) s A ?s2 A"
  proof -
    have e: "waiting s A k = []" using Nil.hyps by simp
    show ?thesis unfolding ticked_def w e by (auto simp: e split: option.split)
  qed
  then show ?case using run k1 by blast
next
  case (Cons t ts)
  obtain s1 A1 where v: "verhogen k s = Ret (Some t) s1" "kinv U s1 A1" "woken k t s A s1 A1"
    using verhogen_passes(2)[OF Cons.prems, of t ts] Cons.hyps(2) by auto
  have w1: "waiting s1 A1 k = ts" and m1: "mem s1 k \<noteq> 1" and null: "p_semAdd (pcbs s1 t) = NULL"
    using v(3) Cons.hyps(2) Cons.prems(2) by (simp_all add: woken_def same_user_def flip: Cons.hyps(2))
  obtain s' A' where r: "clock_loop k s1 = Some (Ret () s')" "kinv U s' A'" "ticked k (waiting s1 A1 k) s1 A1 s' A'"
    using Cons.hyps(1)[of s1 A1] w1 v(2) m1 by auto
  have "clock_loop k s = Some (Ret () s')"
    by (subst clock_loop.simps) (simp add: Cons.prems(2) v(1) null r(1))
  moreover have "ticked k (waiting s A k) s A s' A'"
  proof -
    have pr: "p_prio (pcbs s1 x) = p_prio (pcbs s x)" for x using v(3) by (simp add: woken_def)
    have w: "waiting s A k = t # ts" using Cons.hyps(2) by simp
    show ?thesis
      using r(3) v(3) unfolding ticked_def woken_def same_user_def pr w1 w by auto
  qed
  ultimately show ?case using r(2) by blast
qed

section \<open>Every interrupt keeps the kernel invariant\<close>

text \<open>The states in which an exception arrives: a process runs, or the processor waits.\<close>

definition alert :: "'h plat \<Rightarrow> 'h kst \<Rightarrow> kabs \<Rightarrow> bool" where
  "alert U s A \<longleftrightarrow> kinv U s A \<and> yielded_proc s = None \<and> (\<forall>a. act_proc s = Some a \<longrightarrow> a \<in> set (a_det A))"

lemma running_alert: "running U a s A \<Longrightarrow> alert U s A"
  by (simp add: running_def alert_def)

lemma alert_handled:
  assumes "alert U s A" and "kinv U s' A'" and "act_proc s' = act_proc s" and "yielded_proc s' = yielded_proc s"
    and "set (a_det A) \<subseteq> set (a_det A')"
  shows "handled U r s' A'"
proof -
  have "pcbs_wf A" using assms(1) krepD(1) by (auto simp: alert_def kinv_def)
  then show ?thesis using assms det_not_elsewhere(6) by (auto simp: handled_def alert_def yielded_ok_def)
qed

text \<open>The semaphore an interrupt makes the kernel do a \<open>V\<close> on, for the lines of the devices.\<close>

definition irq_index :: "'h plat \<Rightarrow> 'h kst \<Rightarrow> nat \<Rightarrow> nat" where
  "irq_index U s line = highest_bit (mem s (CDEV_BITMAP_ADDR U line)) 0"

definition irq_base :: "'h plat \<Rightarrow> 'h kst \<Rightarrow> nat \<Rightarrow> u32 option" where
  "irq_base U s line =
     (if line = IL_IPI U \<or> line = IL_CPUTIMER U \<or> line = IL_TIMER U then None
      else if line = IL_DISK U then Some (addr_sem_disk U)
      else if line = IL_FLASH U then Some (addr_sem_flash U)
      else if line = IL_ETHERNET U then Some (addr_sem_net U)
      else if line = IL_PRINTER U then Some (addr_sem_printer U)
      else if line = IL_TERMINAL U then
        (let reg = devreg U (IL_TERMINAL U - IL_DISK U) (irq_index U s line)
         in if mem s (reg + off_transm_status U) AND TERMSTATMASK = OKCHARTRANS then Some (addr_sem_term_out U)
            else if mem s (reg + off_recv_status U) AND TERMSTATMASK = OKCHARTRANS then Some (addr_sem_term_in U)
            else None)
      else None)"

definition irq_sem :: "'h plat \<Rightarrow> 'h kst \<Rightarrow> nat \<Rightarrow> u32 option" where
  "irq_sem U s line = map_option (\<lambda>b. b + 4 * of_nat (irq_index U s line)) (irq_base U s line)"

text \<open>No completion of the device is still unclaimed when a process runs.\<close>

definition irq_ok :: "'h plat \<Rightarrow> 'h kst \<Rightarrow> nat \<Rightarrow> bool" where
  "irq_ok U s line \<longleftrightarrow> act_proc s = None \<or> (\<forall>sem. irq_sem U s line = Some sem \<longrightarrow> mem s sem \<noteq> 1)"

lemma verhogen_alert:
  assumes al: "alert U s A" and ok: "act_proc s = None \<or> mem s sem \<noteq> 1"
  shows "\<exists>p s' A'. verhogen sem s = Ret p s' \<and> kinv U s' A' \<and> act_proc s' = act_proc s \<and>
    yielded_proc s' = yielded_proc s \<and> set (a_det A) \<subseteq> set (a_det A')"
proof (cases "mem s sem = 1")
  case True
  then have "verhogen sem s = Ret None s" using ok by (simp add: verhogen_def)
  then show ?thesis using al by (auto simp: alert_def)
next
  case False
  have k: "kinv U s A" using al by (simp add: alert_def)
  show ?thesis
  proof (cases "waiting s A sem")
    case Nil
    then show ?thesis using verhogen_passes(1)[OF k False] store_mem_kinv[OF k] by fastforce
  next
    case (Cons t ts)
    then obtain s' A' where "verhogen sem s = Ret (Some t) s'" "kinv U s' A'" "woken sem t s A s' A'"
      using verhogen_passes(2)[OF k False] by blast
    then show ?thesis by (auto simp: woken_def same_user_def)
  qed
qed

lemma give_status_sel [simp]:
  "act_proc (give_status U p v s) = act_proc s" "yielded_proc (give_status U p v s) = yielded_proc s"
  by (simp_all add: give_status_def split: option.split)

lemma give_status_kinv: "kinv U s A \<Longrightarrow> kinv U (give_status V p v s) A"
  using upd_reg_kinv by (auto simp: give_status_def split: option.split)

text \<open>What the two device handlers do once the device is known.\<close>

definition device_done :: "'h plat \<Rightarrow> (stop, unit, 'h kst) out \<Rightarrow> bool" where
  "device_done U out = (case out of Ret _ s' \<Rightarrow> \<exists>A'. handled U CONTINUE s' A' | Stop w _ \<Rightarrow> w = Panic)"

lemma serve_ok:
  assumes al: "alert U s A" and ok: "act_proc s = None \<or> mem s sem \<noteq> 1"
  shows "device_done U (kbind (verhogen sem) (\<lambda>p s. Ret () (store_mem cmd 1 (give_status U p (f s) s))) s)"
proof -
  obtain p s' A' where v: "verhogen sem s = Ret p s'" "kinv U s' A'" "act_proc s' = act_proc s"
    "yielded_proc s' = yielded_proc s" "set (a_det A) \<subseteq> set (a_det A')"
    using verhogen_alert[OF al ok] by blast
  have "handled U CONTINUE (store_mem cmd 1 (give_status U p (f s') s')) A'"
    by (rule alert_handled[OF al store_mem_kinv[OF give_status_kinv[OF v(2)]]]) (simp_all add: v)
  then show ?thesis by (auto simp: kbind_def v(1) device_done_def)
qed

lemma checked_device:
  assumes "device_done U (m s)"
  shows "device_done U (kseq (check_index U i) m s)"
  using assms
  by (auto simp: check_index_def kseq_def kbind_def kmodify_def PANIC_def kstop_def kreturn_def device_done_def)

lemma generic_interrupt_ok:
  assumes al: "alert U s A"
    and ok: "act_proc s = None \<or> mem s (semaphores + 4 * of_nat (irq_index U s (IL_DISK U + line))) \<noteq> 1"
  shows "device_done U (generic_interrupt_handler U line semaphores s)"
  unfolding generic_interrupt_handler_def irq_index_def[symmetric] Let_def
  by (rule checked_device, rule serve_ok[OF al ok])

lemma idle_done: "alert U s A \<Longrightarrow> device_done U (Ret () s)"
  using alert_handled[of U s A s A CONTINUE] by (auto simp: alert_def device_done_def)

lemma terminal_interrupt_ok:
  assumes al: "alert U s A" and ok: "irq_ok U s line" and line: "irq_base U s line = irq_base U s (IL_TERMINAL U)"
    "line = IL_TERMINAL U" "line \<noteq> IL_IPI U" "line \<noteq> IL_CPUTIMER U" "line \<noteq> IL_TIMER U" "line \<noteq> IL_DISK U"
    "line \<noteq> IL_FLASH U" "line \<noteq> IL_ETHERNET U" "line \<noteq> IL_PRINTER U"
  shows "device_done U (terminal_interrupt_handler U s)"
  unfolding terminal_interrupt_handler_def irq_index_def[symmetric] Let_def
proof (rule checked_device)
  let ?i = "irq_index U s (IL_TERMINAL U)"
  let ?reg = "devreg U (IL_TERMINAL U - IL_DISK U) ?i"
  have base: "irq_base U s line =
      (if mem s (?reg + off_transm_status U) AND TERMSTATMASK = OKCHARTRANS then Some (addr_sem_term_out U)
       else if mem s (?reg + off_recv_status U) AND TERMSTATMASK = OKCHARTRANS then Some (addr_sem_term_in U)
       else None)"
    using line by (simp add: irq_base_def Let_def)
  have ok': "act_proc s = None \<or> (\<forall>b. irq_base U s line = Some b \<longrightarrow> mem s (b + 4 * of_nat ?i) \<noteq> 1)"
    using ok line(2) by (auto simp: irq_ok_def irq_sem_def)
  show "device_done U ((if mem s (?reg + off_transm_status U) AND TERMSTATMASK = OKCHARTRANS
     then kbind (verhogen (addr_sem_term_out U + 4 * of_nat ?i))
            (\<lambda>p sa. Ret () (store_mem (?reg + off_transm_command U) 1 (give_status U p (mem s (?reg + off_transm_status U)) sa)))
     else if mem s (?reg + off_recv_status U) AND TERMSTATMASK = OKCHARTRANS
     then kbind (verhogen (addr_sem_term_in U + 4 * of_nat ?i))
            (\<lambda>p sa. Ret () (store_mem (?reg + off_recv_command U) 1 (give_status U p (mem s (?reg + off_recv_status U)) sa)))
     else kreturn ()) s)"
    using ok' idle_done[OF al] unfolding base
    by (auto simp: kreturn_def intro!: serve_ok[OF al])
qed

lemma clock_tick_run:
  assumes k: "kinv U s A" and m: "mem s (addr_sem_it U) \<noteq> 1"
  obtains s' A' where "clock_tick U s = Ret () (store_mem (addr_sem_it U) 0 s')" and "kinv U s' A'"
    and "ticked (addr_sem_it U) (waiting s A (addr_sem_it U)) s A s' A'"
  using clock_loop_run[OF k m] that by (auto simp: clock_tick_def kseq_def kbind_def kmodify_def)

lemma clock_tick_already:
  "mem s (addr_sem_it U) = 1 \<Longrightarrow> clock_tick U s = Ret () (store_mem (addr_sem_it U) 0 s)"
  by (simp add: clock_tick_def kseq_def kbind_def kmodify_def, subst clock_loop.simps, simp)

lemma clock_tick_ok:
  assumes al: "alert U s A"
  shows "\<exists>s' A'. clock_tick U s = Ret () s' \<and> handled U CONTINUE s' A'"
proof (cases "mem s (addr_sem_it U) = 1")
  case True
  have k: "kinv U s A" using al by (simp add: alert_def)
  show ?thesis using clock_tick_already[OF True] alert_handled[OF al store_mem_kinv[OF k]] by auto
next
  case False
  have k: "kinv U s A" using al by (simp add: alert_def)
  obtain s' A' where "clock_tick U s = Ret () (store_mem (addr_sem_it U) 0 s')" "kinv U s' A'"
    "ticked (addr_sem_it U) (waiting s A (addr_sem_it U)) s A s' A'" by (rule clock_tick_run[OF k False])
  then show ?thesis using alert_handled[OF al store_mem_kinv] by (fastforce simp: ticked_def)
qed

lemma device_done_handler: "device_done U (m s) \<Longrightarrow> handler_ok U (kseq m (kreturn CONTINUE) s)"
  by (auto simp: device_done_def handler_ok_def kseq_def kbind_def kreturn_def split: out.splits stop.splits)

lemma upd_hw_kinv: "kinv U s A \<Longrightarrow> kinv U (upd_hw f s) A"
  by (erule kinv_cong) simp_all

lemma upd_hw_alert: "alert U s A \<Longrightarrow> alert U (upd_hw f s) A"
  by (simp add: alert_def upd_hw_kinv)

text \<open>The disks have the first interrupt line of the external devices.\<close>

definition lines_ok :: "'h plat \<Rightarrow> bool" where
  "lines_ok U \<longleftrightarrow> IL_DISK U \<le> IL_FLASH U \<and> IL_DISK U \<le> IL_ETHERNET U \<and> IL_DISK U \<le> IL_PRINTER U \<and>
     IL_DISK U \<le> IL_TERMINAL U"

lemma handle_interrupts_ok:
  assumes al: "alert U s A" and ok: "irq_ok U s line" and lines: "lines_ok U"
  shows "handler_ok U (handle_interrupts U line s)"
proof -
  have k: "kinv U s A" using al by (simp add: alert_def)
  have same: "handler_ok U (Ret r s)" for r
    using alert_handled[OF al k, of r] by (auto simp: handler_ok_def)
  have timer: "handler_ok U (Ret RENQUEUE (upd_hw f s))" for f
    using alert_handled[OF al upd_hw_kinv[OF k], of f RENQUEUE] by (auto simp: handler_ok_def)
  have clock: "handler_ok U (kseq (kmodify (upd_hw f)) (kseq (clock_tick U) (kreturn CONTINUE)) s)" for f
    using clock_tick_ok[OF upd_hw_alert[OF al, of f]]
    by (auto simp: kseq_def kbind_def kmodify_def kreturn_def handler_ok_def)
  have ok': "irq_base U s line = Some b \<Longrightarrow> act_proc s = None \<or> mem s (b + 4 * of_nat (irq_index U s line)) \<noteq> 1" for b
    using ok by (auto simp: irq_ok_def irq_sem_def)
  have gen: "handler_ok U (kseq (generic_interrupt_handler U (il - IL_DISK U) b) (kreturn CONTINUE) s)"
    if "irq_base U s line = Some b" "line = il" "IL_DISK U \<le> il" for b il
    by (rule device_done_handler, rule generic_interrupt_ok[OF al]) (use ok'[OF that(1)] that(2,3) in simp)
  have trm: "handler_ok U (kseq (terminal_interrupt_handler U) (kreturn CONTINUE) s)"
    if "line = IL_TERMINAL U" "line \<noteq> IL_IPI U" "line \<noteq> IL_CPUTIMER U" "line \<noteq> IL_TIMER U" "line \<noteq> IL_DISK U"
      "line \<noteq> IL_FLASH U" "line \<noteq> IL_ETHERNET U" "line \<noteq> IL_PRINTER U"
    by (rule device_done_handler, rule terminal_interrupt_ok[OF al ok _ that]) (simp add: that(1))
  note le = lines[unfolded lines_ok_def]
  consider (ipi) "line = IL_IPI U" | (plt) "line \<noteq> IL_IPI U" "line = IL_CPUTIMER U"
    | (it) "line \<noteq> IL_IPI U" "line \<noteq> IL_CPUTIMER U" "line = IL_TIMER U"
    | (dev) "line \<noteq> IL_IPI U" "line \<noteq> IL_CPUTIMER U" "line \<noteq> IL_TIMER U" by blast
  then show ?thesis
  proof cases
    case ipi
    then show ?thesis using same by (simp add: handle_interrupts_def kreturn_def)
  next
    case plt
    then show ?thesis
      using timer by (simp add: handle_interrupts_def kseq_def kbind_def kmodify_def kreturn_def)
  next
    case it
    then show ?thesis using clock by (simp add: handle_interrupts_def)
  next
    case dev
    have base: "irq_base U s line = Some b \<Longrightarrow> line = il \<Longrightarrow> IL_DISK U \<le> il \<Longrightarrow>
        handler_ok U (kseq (generic_interrupt_handler U (il - IL_DISK U) b) (kreturn CONTINUE) s)" for b il
      by (rule gen)
    show ?thesis
    proof (cases "line = IL_TERMINAL U \<and> line \<noteq> IL_DISK U \<and> line \<noteq> IL_FLASH U \<and> line \<noteq> IL_ETHERNET U \<and> line \<noteq> IL_PRINTER U")
      case True
      then show ?thesis using dev trm by (simp add: handle_interrupts_def)
    next
      case False
      then show ?thesis
        using dev le same base[of "addr_sem_disk U" "IL_DISK U"] base[of "addr_sem_flash U" "IL_FLASH U"]
          base[of "addr_sem_net U" "IL_ETHERNET U"] base[of "addr_sem_printer U" "IL_PRINTER U"]
        by (auto simp: handle_interrupts_def irq_base_def kreturn_def)
    qed
  qed
qed

end
