(* ===== verification/Kernel.thy ===== *)
theory Kernel
  imports Interrupts
begin

text \<open>
  \<open>src/kernel.c\<close>: the boot, the exception handler and the TLB-refill handler, and the
  machine the kernel and its environment make together: a step relation whose reachable
  states all satisfy the kernel invariant.
\<close>

section \<open>The boot\<close>

definition init_passup_vector :: "'h plat \<Rightarrow> 'h kst \<Rightarrow> 'h kst" where
  "init_passup_vector U s =
     store_mem (PASSUPVECTOR + off_exception_stackPtr U) KERNELSTACK
    (store_mem (PASSUPVECTOR + off_tlb_refill_stackPtr U) KERNELSTACK
    (store_mem (PASSUPVECTOR + off_exception_handler U) (addr_exception_handler U)
    (store_mem (PASSUPVECTOR + off_tlb_refill_handler U) (addr_uTLB_RefillHandler U) s)))"

definition init_data_structures :: "'h plat \<Rightarrow> 'h kst \<Rightarrow> 'h kst" where
  "init_data_structures U s =
     set_yielded None (init_dev_sem U (init_scheduler (init_asl (init_pcbs (init_passup_vector U s)))))"

section \<open>Exceptions\<close>

text \<open>Copying the saved state into the PCB of the running process.\<close>

definition save_state :: "'h kst \<Rightarrow> 'h kst" where
  "save_state s = (case act_proc s of None \<Rightarrow> s | Some a \<Rightarrow> upd_pcb a (\<lambda>q. q\<lparr>p_s := states s BIOSDATAPAGE\<rparr>) s)"

definition pending_line :: "'h plat \<Rightarrow> 'h kst \<Rightarrow> nat option" where
  "pending_line U s =
     find (\<lambda>i. getCAUSE U (hw s) AND CAUSE_IP U i \<noteq> 0) [0..<N_INTERRUPT_LINES U]"

definition bump_pc :: "'h plat \<Rightarrow> 'h kst \<Rightarrow> 'h kst" where
  "bump_pc U s =
     (case act_proc s of
        None \<Rightarrow> s
      | Some a \<Rightarrow> upd_pcb a (\<lambda>q. let pc = pc_epc (p_s q) + WORD_SIZE U
                                 in q\<lparr>p_s := (set_reg (reg_t9 U) pc (p_s q))\<lparr>pc_epc := pc\<rparr>\<rparr>) s)"

definition mark_privileged :: "nat \<Rightarrow> 'h kst \<Rightarrow> 'h kst" where
  "mark_privileged a =
     upd_pcb a (\<lambda>q. q\<lparr>p_s := (p_s q)\<lparr>cause :=
       (cause (p_s q) AND CLEAREXECCODE) OR push_bit CAUSESHIFT PRIVINSTR\<rparr>\<rparr>)"

definition handle_sys :: "'h plat \<Rightarrow> (int, 'h) km" where
  "handle_sys U = (\<lambda>s.
     case act_proc s of
       None \<Rightarrow> kseq (kmodify (LOG ''K'' ''Syscall called with no active process. Panicing...'')) PANIC s
     | Some a \<Rightarrow>
         let KUp = drop_bit (STATUS_KUp_BIT U) (getSTATUS U (hw s) AND STATUS_KUp U)
         in if KUp = 0 \<and> sint (gpr (p_s (pcbs s a)) (reg_a0 U)) < 0
            then kbind (handle_syscall U) (\<lambda>r. kseq (kmodify (bump_pc U)) (kreturn r)) s
            else kseq (kmodify (mark_privileged a)) (passup_or_die GENERALEXCEPT) s)"

definition handle_cause :: "'h plat \<Rightarrow> u32 \<Rightarrow> (int, 'h) km" where
  "handle_cause U c =
     (if c = EXC_INT U then
        (\<lambda>s. case pending_line U s of None \<Rightarrow> Ret RENQUEUE s | Some i \<Rightarrow> handle_interrupts U i s)
      else if c = EXC_MOD U \<or> c = EXC_TLBL U \<or> c = EXC_TLBS U then passup_or_die PGFAULTEXCEPT
      else if c = EXC_ADEL U \<or> c = EXC_ADES U \<or> c = EXC_IBE U \<or> c = EXC_DBE U \<or> c = EXC_BP U \<or>
              c = EXC_RI U \<or> c = EXC_CPU U \<or> c = EXC_OV U then
        kseq (kmodify (LOGi ''K'' ''ex'' c)) (passup_or_die GENERALEXCEPT)
      else if c = EXC_SYS U then handle_sys U
      else kreturn RENQUEUE)"

definition update_age :: "'h plat \<Rightarrow> (unit, 'h) km" where
  "update_age U = (\<lambda>s.
     case act_proc s of
       None \<Rightarrow> Ret () s
     | Some a \<Rightarrow>
         kbind (read_tod U) (\<lambda>now.
           kmodify (upd_pcb a (\<lambda>q. q\<lparr>p_time := p_time q + (now - p_tm_updt q), p_tm_updt := now\<rparr>))) s)"

definition resume :: "'h plat \<Rightarrow> int \<Rightarrow> (unit, 'h) km" where
  "resume U reenqueue = (\<lambda>s.
     case act_proc s of
       None \<Rightarrow> Ret () s
     | Some a \<Rightarrow>
         if reenqueue = CONTINUE then load_proc U (Some a) s
         else if reenqueue = RENQUEUE then Ret () (enqueue_proc a (p_prio (pcbs s a)) s)
         else Ret () s)"

definition exception_handler :: "'h plat \<Rightarrow> (unit, 'h) km" where
  "exception_handler U = (\<lambda>s.
     let c = CAUSE_GET_EXCCODE U (cause (states s BIOSDATAPAGE))
     in kseq (kmodify save_state)
       (kbind (handle_cause U c) (\<lambda>reenqueue.
         kseq (update_age U) (kseq (resume U reenqueue) (scheduler_next U)))) s)"


text \<open>An index past the end of the page table is outside the object it is used on.\<close>

definition uTLB_RefillHandler :: "'h plat \<Rightarrow> (unit, 'h) km" where
  "uTLB_RefillHandler U = (\<lambda>s.
     let exc_state = states s BIOSDATAPAGE;
         missing_page = ENTRYHI_GET_VPN U (entry_hi exc_state);
         pg_n = (if missing_page = STK_PG then USERPGTBLSIZE - 1 else unat missing_page)
     in case act_proc s of
          None \<Rightarrow> Stop Wild s
        | Some a \<Rightarrow>
            if p_supportStruct (pcbs s a) = NULL \<or> USERPGTBLSIZE \<le> pg_n then Stop Wild s
            else let missing_entry = sup_privatePgTbl (supports s (p_supportStruct (pcbs s a))) pg_n
                 in Stop (Ldst exc_state)
                      (upd_hw (TLBWR U) (upd_hw (setENTRYLO U (pte_entryLO missing_entry))
                        (upd_hw (setENTRYHI U (pte_entryHI missing_entry)) s))))"

definition kernel_main :: "'h plat \<Rightarrow> (unit, 'h) km" where
  "kernel_main U =
     kseq (kmodify (init_data_structures U))
    (kseq (kmodify (LOG ''K'' ''data str done''))
    (kseq (kmodify (upd_hw (LDIT U PSECOND)))
    (kseq (kmodify (LOG ''K'' ''IT loaded''))
    (kseq (kmodify (\<lambda>s. upd_hw (setSTATUS U
        ((getSTATUS U (hw s) OR STATUS_IEc U OR STATUS_TE U OR STATUS_IM_MASK U) XOR STATUS_TE U)) s))
    (kseq (create_init_proc U (addr_instantiator_proc U))
    (kseq (kmodify (LOG ''K'' ''ip created''))
    (kseq (kmodify (LOG ''K'' ''loading ip''))
    (kseq (scheduler_next U) PANIC))))))))"

section \<open>How the kernel gives the processor back\<close>

definition idle :: "'h plat \<Rightarrow> 'h kst \<Rightarrow> kabs \<Rightarrow> bool" where
  "idle U s A \<longleftrightarrow> kinv U s A \<and> act_proc s = None \<and> yielded_proc s = None"

lemma idle_alert: "idle U s A \<Longrightarrow> alert U s A"
  by (simp add: idle_def alert_def)

definition kernel_ok :: "'h plat \<Rightarrow> (stop, unit, 'h kst) out \<Rightarrow> bool" where
  "kernel_ok U out =
     (case out of
        Stop (Ldst st) s' \<Rightarrow> \<exists>A a. running U a s' A
      | Stop (Ldcxt sp st pc) s' \<Rightarrow> \<exists>A a. running U a s' A
      | Stop Wait s' \<Rightarrow> \<exists>A. idle U s' A
      | Stop Panic s' \<Rightarrow> True
      | Stop Halt s' \<Rightarrow> True
      | _ \<Rightarrow> False)"

lemma scheduler_next_ok:
  assumes k: "kinv U s A" and y: "yielded_ok s A" and U: "layout_ok U"
  shows "kernel_ok U (scheduler_next U s)"
proof (cases "a_hq A @ a_lq A")
  case (Cons p ps)
  obtain s' where "scheduler_next U s = Stop (Ldst (p_s (loaded_pcb U s (pcbs s p)))) s'" "dispatched U p s A s'"
    by (rule scheduler_next_ready[OF k y U Cons])
  then show ?thesis by (auto simp: kernel_ok_def dispatched_def)
next
  case Nil
  then have e: "a_hq A = []" "a_lq A = []" by simp_all
  note i = scheduler_next_idle[OF k y e]
  consider "a_alive A = []" | "a_alive A \<noteq> []" "a_blocked A = []" | "a_blocked A \<noteq> []" by blast
  then show ?thesis
  proof cases
    case 3
    then obtain s' where "scheduler_next U s = Stop Wait s'" "idle U s' (a_requeue s A)"
      using i(3) by (auto simp: idle_def)
    then show ?thesis unfolding kernel_ok_def by auto
  qed (use i in \<open>simp_all add: kernel_ok_def\<close>)
qed

lemma update_age_handled:
  assumes "handled U r s A"
  shows "\<exists>s'. update_age U s = Ret () s' \<and> handled U r s' A"
proof (cases "act_proc s")
  case None
  then show ?thesis using assms by (simp add: update_age_def)
next
  case (Some a)
  obtain now h where stck: "STCK U (hw s) = (now, h)" by fastforce
  let ?s' = "upd_pcb a (\<lambda>q. q\<lparr>p_time := p_time q + (now - p_tm_updt q), p_tm_updt := now\<rparr>) (s\<lparr>hw := h\<rparr>)"
  have "update_age U s = Ret () ?s'"
    by (simp add: update_age_def Some kbind_def read_tod_def stck kmodify_def)
  moreover have "kinv U ?s' A" by (rule kinv_cong[of U s]) (use assms in \<open>simp_all add: handled_def\<close>)
  then have "handled U r ?s' A" using assms by (simp add: handled_def yielded_ok_def)
  ultimately show ?thesis by blast
qed

lemma resume_ok:
  assumes h: "handled U r s A" and U: "layout_ok U"
  shows "kernel_ok U (kseq (resume U r) (scheduler_next U) s)"
proof -
  have k: "kinv U s A" and y: "yielded_ok s A" using h by (simp_all add: handled_def)
  show ?thesis
  proof (cases "act_proc s")
    case None
    then show ?thesis using scheduler_next_ok[OF k y U] by (simp add: resume_def kseq_def kbind_def)
  next
    case (Some a)
    consider (go) "r = CONTINUE" | (again) "r \<noteq> CONTINUE" "r = RENQUEUE" | (none) "r \<noteq> CONTINUE" "r \<noteq> RENQUEUE"
      by blast
    then show ?thesis
    proof cases
      case go
      then have a: "a \<in> set (a_det A)" "yielded_proc s \<noteq> Some a" using h Some by (simp_all add: handled_def)
      obtain s' where s': "load_proc U (Some a) s = Stop (Ldst (p_s (loaded_pcb U s (pcbs s a)))) s'"
        "kinv U s' (a_requeue s A)" "act_proc s' = Some a" "yielded_proc s' = None" "a \<in> set (a_det (a_requeue s A))"
        by (rule load_proc_kinv[OF k y a])
      then have "running U a s' (a_requeue s A)" by (simp add: running_def)
      then show ?thesis using go Some s'(1) by (auto simp: resume_def kseq_def kbind_def kernel_ok_def)
    next
      case again
      then have a: "a \<in> set (a_det A)" "yielded_proc s \<noteq> Some a" using h Some by (simp_all add: handled_def)
      have y': "yielded_ok (enqueue_proc a (p_prio (pcbs s a)) s) (a_enq (p_prio (pcbs s a)) a A)"
        using y a(2) by (auto simp: yielded_ok_def a_enq_det_other)
      show ?thesis
        using again Some scheduler_next_ok[OF enqueue_proc_kinv[OF k a(1)] y' U]
        by (simp add: resume_def kseq_def kbind_def)
    next
      case none
      then show ?thesis using Some scheduler_next_ok[OF k y U] by (simp add: resume_def kseq_def kbind_def)
    qed
  qed
qed

section \<open>The exception handler keeps the kernel invariant\<close>

text \<open>What the environment must respect for an exception to be served.\<close>

definition exc_ok :: "'h plat \<Rightarrow> 'h kst \<Rightarrow> bool" where
  "exc_ok U s \<longleftrightarrow>
     (let s1 = save_state s; c = CAUSE_GET_EXCCODE U (cause (states s BIOSDATAPAGE))
      in (c = EXC_INT U \<longrightarrow> (\<forall>i. pending_line U s1 = Some i \<longrightarrow> irq_ok U s1 i)) \<and>
         (c = EXC_SYS U \<longrightarrow> (\<forall>a. act_proc s1 = Some a \<longrightarrow> request_ok U s1 a)))"

lemma save_state_alert: "alert U s A \<Longrightarrow> alert U (save_state s) A"
proof -
  assume al: "alert U s A"
  have "kinv U (save_state s) A"
    by (rule kinv_cong[of U s]) (use al in \<open>simp_all add: alert_def save_state_def split: option.split\<close>)
  moreover have "yielded_proc (save_state s) = yielded_proc s" "act_proc (save_state s) = act_proc s"
    by (simp_all add: save_state_def split: option.split)
  ultimately show ?thesis using al by (simp add: alert_def)
qed

lemma alert_running: "alert U s A \<Longrightarrow> act_proc s = Some a \<Longrightarrow> running U a s A"
  by (simp add: alert_def running_def)

lemma passup_alert:
  assumes al: "alert U s A"
  shows "handler_ok U (passup_or_die kind s)"
proof (cases "act_proc s")
  case None
  have "kinv U s A" using al by (simp add: alert_def)
  then have "handled U NOTHING (LOG ''E'' ''Dying'' s) A"
    by (intro alert_handled[OF al LOG_kinv]) simp_all
  then show ?thesis using None by (auto simp: passup_or_die_def handler_ok_def)
next
  case (Some a)
  then show ?thesis using passup_or_die_ok[OF alert_running[OF al]] by simp
qed

lemma bump_pc_handled: "handled U r s A \<Longrightarrow> handled U r (bump_pc U s) A"
proof -
  assume h: "handled U r s A"
  have "kinv U (bump_pc U s) A"
    by (rule kinv_cong[of U s]) (use h in \<open>simp_all add: handled_def bump_pc_def Let_def split: option.split\<close>)
  moreover have "yielded_proc (bump_pc U s) = yielded_proc s" "act_proc (bump_pc U s) = act_proc s"
    by (simp_all add: bump_pc_def split: option.split)
  ultimately show ?thesis using h by (simp add: handled_def yielded_ok_def)
qed

lemma handle_sys_ok:
  assumes al: "alert U s A" and U: "layout_ok U" and req: "\<And>a. act_proc s = Some a \<Longrightarrow> request_ok U s a"
  shows "handler_ok U (handle_sys U s)"
proof (cases "act_proc s")
  case None
  then show ?thesis by (simp add: handle_sys_def handler_ok_def kseq_def kbind_def kmodify_def PANIC_def kstop_def)
next
  case (Some a)
  have run: "running U a s A" by (rule alert_running[OF al Some])
  have sys: "handler_ok U (kbind (handle_syscall U) (\<lambda>r. kseq (kmodify (bump_pc U)) (kreturn r)) s)"
    using handle_syscall_ok[OF run U req[OF Some]] bump_pc_handled
    by (fastforce simp: kbind_def kseq_def kmodify_def kreturn_def handler_ok_def split: out.splits stop.splits)
  have "kinv U (mark_privileged a s) A"
    by (rule kinv_cong[of U s]) (use al in \<open>simp_all add: alert_def mark_privileged_def\<close>)
  then have "alert U (mark_privileged a s) A" using al by (simp add: alert_def mark_privileged_def)
  then have "handler_ok U (passup_or_die GENERALEXCEPT (mark_privileged a s))" by (rule passup_alert)
  then show ?thesis using sys Some by (simp add: handle_sys_def Let_def kseq_def kbind_def kmodify_def)
qed

lemma LOGi_alert: "alert U s A \<Longrightarrow> alert U (LOGi t m i s) A"
  by (simp add: alert_def LOGi_kinv)

lemma handle_cause_ok:
  assumes al: "alert U s A" and U: "layout_ok U" "lines_ok U"
    and irq: "\<And>i. c = EXC_INT U \<Longrightarrow> pending_line U s = Some i \<Longrightarrow> irq_ok U s i"
    and req: "\<And>a. c = EXC_SYS U \<Longrightarrow> act_proc s = Some a \<Longrightarrow> request_ok U s a"
  shows "handler_ok U (handle_cause U c s)"
proof -
  have k: "kinv U s A" using al by (simp add: alert_def)
  have same: "handler_ok U (Ret RENQUEUE s)"
    using alert_handled[OF al k, of RENQUEUE] by (auto simp: handler_ok_def)
  have int: "handler_ok U (case pending_line U s of None \<Rightarrow> Ret RENQUEUE s | Some i \<Rightarrow> handle_interrupts U i s)"
    if "c = EXC_INT U"
    using same handle_interrupts_ok[OF al irq[OF that] U(2)] by (simp split: option.split)
  show ?thesis
    using same int passup_alert[OF al] passup_alert[OF LOGi_alert[OF al]] handle_sys_ok[OF al U(1) req]
    by (simp add: handle_cause_def kseq_def kbind_def kmodify_def kreturn_def)
qed

lemma exception_handler_unfold:
  "exception_handler U s =
     kbind (handle_cause U (CAUSE_GET_EXCCODE U (cause (states s BIOSDATAPAGE))))
       (\<lambda>r. kseq (update_age U) (kseq (resume U r) (scheduler_next U))) (save_state s)"
  by (simp add: exception_handler_def Let_def kseq_def kbind_def kmodify_def)

lemma exception_handler_ok:
  assumes al: "alert U s A" and U: "layout_ok U" "lines_ok U" and ok: "exc_ok U s"
  shows "kernel_ok U (exception_handler U s)"
proof -
  define c where "c = CAUSE_GET_EXCCODE U (cause (states s BIOSDATAPAGE))"
  have "handler_ok U (handle_cause U c (save_state s))"
    by (rule handle_cause_ok[OF save_state_alert[OF al] U]) (use ok in \<open>simp_all add: exc_ok_def Let_def c_def\<close>)
  moreover note run = exception_handler_unfold[of U s, folded c_def]
  ultimately show ?thesis
  proof (cases "handle_cause U c (save_state s)")
    case (Ret r s1)
    then obtain A1 where h: "handled U r s1 A1"
      using \<open>handler_ok U (handle_cause U c (save_state s))\<close> by (auto simp: handler_ok_def)
    obtain s2 where s2: "update_age U s1 = Ret () s2" "handled U r s2 A1" using update_age_handled[OF h] by blast
    have "exception_handler U s = kseq (resume U r) (scheduler_next U) s2"
      unfolding run by (simp add: kbind_def Ret) (simp add: kseq_def kbind_def s2(1))
    then show ?thesis using resume_ok[OF s2(2) U(1)] by simp
  next
    case (Stop w s1)
    then show ?thesis
      using \<open>handler_ok U (handle_cause U c (save_state s))\<close> unfolding run
      by (cases w) (auto simp: kbind_def handler_ok_def kernel_ok_def)
  qed
qed

section \<open>The boot establishes the kernel invariant\<close>

lemma fold_invariant: "P s \<Longrightarrow> (\<And>i s. P s \<Longrightarrow> P (f i s)) \<Longrightarrow> P (fold f xs s)"
  by (induction xs arbitrary: s) auto

lemma lists_rep_empty: "lists_rep hp Map.empty"
  by (simp add: lists_rep_def)

text \<open>Lists that do not go through the given heads and links.\<close>

definition avoids :: "(lref \<Rightarrow> bool) \<Rightarrow> lmap \<Rightarrow> bool" where
  "avoids R L \<longleftrightarrow> (\<forall>h xs. L h = Some xs \<longrightarrow> (\<forall>x\<in>set (h # xs). \<not> R x))"

lemma avoidsD:
  assumes "avoids R L" and "R r"
  shows "L r = None" and "L h = Some xs \<Longrightarrow> r \<notin> set xs"
proof -
  show "L r = None" using assms unfolding avoids_def by (cases "L r") auto
  show "r \<notin> set xs" if "L h = Some xs" using assms that unfolding avoids_def by auto
qed

lemma avoids_empty: "avoids R Map.empty"
  by (simp add: avoids_def)

text \<open>The lists \<open>L\<close> with the pool of PCBs after \<open>n\<close> rounds of the loop of \<open>init_pcbs\<close>.\<close>

fun pool_ref :: "lref \<Rightarrow> bool" where
  "pool_ref (PList i) \<longleftrightarrow> True"
| "pool_ref PcbFreeH \<longleftrightarrow> True"
| "pool_ref _ \<longleftrightarrow> False"

definition pcb_pool :: "lmap \<Rightarrow> nat \<Rightarrow> lmap" where
  "pcb_pool L n = L(PcbFreeH \<mapsto> map PList [0..<n])"

lemma init_pcbs_rep:
  assumes "lists_rep (lh s) L" and av: "avoids pool_ref L"
  shows "lists_rep (lh (init_pcbs s)) (pcb_pool L MAXPROC)"
proof -
  let ?f = "\<lambda>i s. upd_lh (list_add_tail (PList i) PcbFreeH) (upd_pcb i (\<lambda>p. p\<lparr>p_semAdd := NULL\<rparr>) s)"
  note aD = avoidsD[OF av]
  have "lists_rep (lh (fold ?f [0..<n] (upd_lh (INIT_LIST_HEAD PcbFreeH) s))) (pcb_pool L n)" for n
  proof (induction n)
    case 0
    have "lists_rep (INIT_LIST_HEAD PcbFreeH (lh s)) (L(PcbFreeH := Some []))"
      by (rule lists_rep_init[OF assms(1)]) (use aD in \<open>auto simp: unlinked_def\<close>)
    moreover have "L(PcbFreeH := Some []) = pcb_pool L 0" by (simp add: pcb_pool_def)
    ultimately show ?case by simp
  next
    case (Suc n)
    have "lists_rep (list_add_tail (PList n) PcbFreeH (lh (fold ?f [0..<n] (upd_lh (INIT_LIST_HEAD PcbFreeH) s))))
        ((pcb_pool L n)(PList n := None, PcbFreeH := Some (map PList [0..<n] @ [PList n])))"
      by (rule lists_rep_add_tail[OF Suc]) (use aD in \<open>auto simp: pcb_pool_def unlinked_def split: if_splits\<close>)
    moreover have "(pcb_pool L n)(PList n := None, PcbFreeH := Some (map PList [0..<n] @ [PList n])) = pcb_pool L (Suc n)"
      using aD(1) by (auto simp: pcb_pool_def fun_eq_iff)
    ultimately show ?case by simp
  qed
  then show ?thesis by (simp add: init_pcbs_def)
qed

text \<open>And the descriptors after \<open>n\<close> rounds of the loop of \<open>init_asl\<close>.\<close>

fun asl_ref :: "lref \<Rightarrow> bool" where
  "asl_ref (SLink i) \<longleftrightarrow> True"
| "asl_ref (SProcq i) \<longleftrightarrow> True"
| "asl_ref SemdH \<longleftrightarrow> True"
| "asl_ref SemdFree \<longleftrightarrow> True"
| "asl_ref _ \<longleftrightarrow> False"

definition semd_pool :: "lmap \<Rightarrow> nat \<Rightarrow> lmap" where
  "semd_pool L n = (\<lambda>h. case h of SemdH \<Rightarrow> Some [] | SemdFree \<Rightarrow> Some (map SLink [0..<n])
     | SProcq i \<Rightarrow> if i < n then Some [] else None | SLink i \<Rightarrow> None | _ \<Rightarrow> L h)"

lemma semd_pool_Suc:
  "(semd_pool L n)(SLink n := Some [], SProcq n := Some [], SLink n := None, SemdFree := Some (map SLink [0..<n] @ [SLink n]))
   = semd_pool L (Suc n)"
  by (rule ext) (auto simp: semd_pool_def split: lref.split)

lemma semd_pool_mem:
  assumes "avoids asl_ref L" and "semd_pool L n h = Some xs"
  shows "SProcq i \<notin> set xs \<and> (n \<le> i \<longrightarrow> SLink i \<notin> set xs)"
  using assms(2) avoidsD(2)[OF assms(1), of "SProcq i" h xs] avoidsD(2)[OF assms(1), of "SLink i" h xs]
  by (cases h) (auto simp: semd_pool_def split: if_splits)

lemma init_asl_rep:
  assumes "lists_rep (lh s) L" and na: "avoids asl_ref L"
  shows "lists_rep (lh (init_asl s)) (semd_pool L MAXPROC)"
proof -
  let ?f = "\<lambda>i s. upd_lh (list_add_tail (SLink i) SemdFree)
      (upd_lh (INIT_LIST_HEAD (SProcq i)) (upd_lh (INIT_LIST_HEAD (SLink i)) s))"
  let ?s0 = "upd_lh (INIT_LIST_HEAD SemdFree) (upd_lh (INIT_LIST_HEAD SemdH) s)"
  note nD = avoidsD[OF na]
  have "lists_rep (lh (fold ?f [0..<n] ?s0)) (semd_pool L n)" for n
  proof (induction n)
    case 0
    have "lists_rep (INIT_LIST_HEAD SemdH (lh s)) (L(SemdH := Some []))"
      by (rule lists_rep_init[OF assms(1)]) (use nD in \<open>auto simp: unlinked_def\<close>)
    then have "lists_rep (INIT_LIST_HEAD SemdFree (INIT_LIST_HEAD SemdH (lh s)))
        (L(SemdH := Some [], SemdFree := Some []))"
      by (rule lists_rep_init) (use nD in \<open>auto simp: unlinked_def split: if_splits\<close>)
    moreover have "L(SemdH := Some [], SemdFree := Some []) = semd_pool L 0"
      by (rule ext) (auto simp: semd_pool_def nD(1) split: lref.split)
    ultimately show ?case by simp
  next
    case (Suc n)
    let ?hp = "lh (fold ?f [0..<n] ?s0)"
    have 1: "lists_rep (INIT_LIST_HEAD (SLink n) ?hp) ((semd_pool L n)(SLink n := Some []))"
      by (rule lists_rep_init[OF Suc])
         (use semd_pool_mem[OF na] in \<open>auto simp: unlinked_def semd_pool_def\<close>)
    have 2: "lists_rep (INIT_LIST_HEAD (SProcq n) (INIT_LIST_HEAD (SLink n) ?hp))
        ((semd_pool L n)(SLink n := Some [], SProcq n := Some []))"
      by (rule lists_rep_init[OF 1])
         (use semd_pool_mem[OF na] in \<open>auto simp: unlinked_def semd_pool_def split: if_splits\<close>)
    have "lists_rep (list_add_tail (SLink n) SemdFree (INIT_LIST_HEAD (SProcq n) (INIT_LIST_HEAD (SLink n) ?hp)))
        ((semd_pool L n)(SLink n := Some [], SProcq n := Some [], SLink n := None, SemdFree := Some (map SLink [0..<n] @ [SLink n])))"
    proof (rule lists_rep_add_tail[OF 2])
      show "unlinked ((semd_pool L n)(SLink n := Some [], SProcq n := Some [])) (SLink n)"
        using semd_pool_mem[OF na, of n] by (auto simp: unlinked_def split: if_splits)
    qed (simp_all add: semd_pool_def)
    then show ?case unfolding semd_pool_Suc by simp
  qed
  then show ?thesis by (simp add: init_asl_def)
qed

definition boot_abs :: kabs where
  "boot_abs = \<lparr>a_free = [0..<MAXPROC], a_lq = [], a_hq = [], a_asl = [], a_sfree = [0..<MAXPROC],
     a_kids = (\<lambda>_. []), a_det = []\<rparr>"

text \<open>Before the boot the kernel's own variables are zero, as the loader leaves them.\<close>

definition boot_ok :: "'h kst \<Rightarrow> bool" where
  "boot_ok s \<longleftrightarrow> (\<forall>p<MAXPROC. p_pid (pcbs s p) = 0)"

lemma init_pcbs_pcbs:
  "p_pid (pcbs (init_pcbs s) p) = p_pid (pcbs s p)"
  "p < MAXPROC \<Longrightarrow> p_semAdd (pcbs (init_pcbs s) p) = NULL"
proof -
  let ?f = "\<lambda>i s. upd_lh (list_add_tail (PList i) PcbFreeH) (upd_pcb i (\<lambda>p. p\<lparr>p_semAdd := NULL\<rparr>) s)"
  have "p_pid (pcbs (fold ?f xs s') p) = p_pid (pcbs s' p)" for xs and s' :: "'a kst"
    by (rule fold_invariant[where P = "\<lambda>s. p_pid (pcbs s p) = p_pid (pcbs s' p)"]) auto
  then show "p_pid (pcbs (init_pcbs s) p) = p_pid (pcbs s p)" by (simp add: init_pcbs_def)
  have "p < n \<longrightarrow> p_semAdd (pcbs (fold ?f [0..<n] s') p) = NULL" for n and s' :: "'a kst"
    by (induction n) (auto simp: less_Suc_eq)
  then show "p_semAdd (pcbs (init_pcbs s) p) = NULL" if "p < MAXPROC" using that by (simp add: init_pcbs_def)
qed

lemma init_asl_pcbs [simp]: "pcbs (init_asl s) = pcbs s"
  unfolding init_asl_def by (rule fold_invariant[where P = "\<lambda>s'. pcbs s' = pcbs s"]) simp_all

lemma init_dev_sem_sel [simp]:
  "lh (init_dev_sem U s) = lh s" "pcbs (init_dev_sem U s) = pcbs s" "s_key (init_dev_sem U s) = s_key s"
  "act_proc (init_dev_sem U s) = act_proc s" "procs_count (init_dev_sem U s) = procs_count s"
  "sb_procs (init_dev_sem U s) = sb_procs s"
proof -
  have "lh (init_dev_sem U s) = lh s \<and> pcbs (init_dev_sem U s) = pcbs s \<and> s_key (init_dev_sem U s) = s_key s \<and>
    act_proc (init_dev_sem U s) = act_proc s \<and> procs_count (init_dev_sem U s) = procs_count s \<and>
    sb_procs (init_dev_sem U s) = sb_procs s"
    unfolding init_dev_sem_def
    by (rule fold_invariant[where P = "\<lambda>s'. lh s' = lh s \<and> pcbs s' = pcbs s \<and> s_key s' = s_key s \<and>
      act_proc s' = act_proc s \<and> procs_count s' = procs_count s \<and> sb_procs s' = sb_procs s"]) simp_all
  then show "lh (init_dev_sem U s) = lh s" "pcbs (init_dev_sem U s) = pcbs s" "s_key (init_dev_sem U s) = s_key s"
    "act_proc (init_dev_sem U s) = act_proc s" "procs_count (init_dev_sem U s) = procs_count s"
    "sb_procs (init_dev_sem U s) = sb_procs s" by simp_all
qed

lemma init_scheduler_sel [simp]:
  "pcbs (init_scheduler s) = pcbs s" "act_proc (init_scheduler s) = None" "procs_count (init_scheduler s) = 0"
  "sb_procs (init_scheduler s) = 0"
  "lh (init_scheduler s) = INIT_LIST_HEAD HQueue (INIT_LIST_HEAD LQueue (lh s))"
  by (simp_all add: init_scheduler_def mk_empty_proc_q_def)

lemma init_passup_vector_sel [simp]: "pcbs (init_passup_vector U s) = pcbs s"
  by (simp add: init_passup_vector_def)

lemma init_data_structures_idle:
  assumes "boot_ok s"
  shows "idle U (init_data_structures U s) boot_abs"
proof -
  let ?s = "init_data_structures U s"
  let ?s1 = "init_asl (init_pcbs (init_passup_vector U s))"
  let ?L = "semd_pool (pcb_pool Map.empty MAXPROC) MAXPROC"
  have na: "avoids asl_ref (pcb_pool Map.empty MAXPROC)" by (auto simp: avoids_def pcb_pool_def split: if_splits)
  have r1: "lists_rep (lh ?s1) ?L" by (rule init_asl_rep[OF init_pcbs_rep[OF lists_rep_empty avoids_empty] na])
  have nq: "unlinked ?L LQueue" "unlinked (?L(LQueue := Some [])) HQueue"
    by (auto simp: unlinked_def semd_pool_def pcb_pool_def split: lref.splits if_splits)
  have r2: "lists_rep (INIT_LIST_HEAD LQueue (lh ?s1)) (?L(LQueue := Some []))"
    by (rule lists_rep_init[OF r1 nq(1)])
  have "lists_rep (INIT_LIST_HEAD HQueue (INIT_LIST_HEAD LQueue (lh ?s1))) (?L(LQueue := Some [], HQueue := Some []))"
    by (rule lists_rep_init[OF r2 nq(2)])
  then have r3: "lists_rep (lh ?s) (?L(LQueue := Some [], HQueue := Some []))"
    by (simp add: init_data_structures_def)
  have rep: "lists_rep (lh ?s) (L_of boot_abs)"
  proof (rule lists_rep_submap[OF r3], rule submapI)
    fix h xs assume "L_of boot_abs h = Some xs"
    then show "(?L(LQueue := Some [], HQueue := Some [])) h = Some xs"
      by (cases h) (auto simp: boot_abs_def semd_pool_def pcb_pool_def a_alive_def a_blocked_def split: if_splits)
  qed
  have pc: "pcbs ?s = pcbs (init_pcbs (init_passup_vector U s))" by (simp add: init_data_structures_def)
  have al: "a_alive boot_abs = []" "a_blocked boot_abs = []" by (simp_all add: boot_abs_def a_alive_def a_blocked_def)
  have rel: "tree_rel ?s boot_abs = {}" by (simp add: tree_rel_def al)
  have "pcbs_wf boot_abs" unfolding pcbs_wf_def al by (auto simp: boot_abs_def)
  moreover have "semds_wf boot_abs" by (auto simp: semds_wf_def boot_abs_def)
  moreover have "sem_ok ?s boot_abs" unfolding sem_ok_def pc by (auto simp: boot_abs_def init_pcbs_pcbs(2))
  moreover have "tree_ok ?s boot_abs" by (simp add: tree_ok_def rel al acyclic_def)
  moreover have "pid_ok U ?s boot_abs"
    using assms by (simp add: pid_ok_def al pc init_pcbs_pcbs(1) boot_ok_def) (simp add: boot_abs_def)
  ultimately have "krep U ?s boot_abs" using rep by (simp add: krep_def)
  moreover have "kcnt ?s boot_abs" by (simp add: kcnt_def al init_data_structures_def)
  moreover have "prio_ok ?s boot_abs" by (simp add: prio_ok_def boot_abs_def)
  ultimately show ?thesis by (simp add: idle_def kinv_def init_data_structures_def)
qed

text \<open>The first process.\<close>

definition init_pcb :: "'h plat \<Rightarrow> u32 \<Rightarrow> u32 \<Rightarrow> nat \<Rightarrow> pcb_t \<Rightarrow> pcb_t" where
  "init_pcb U entry ramtop p q =
     q\<lparr>p_s := (set_reg (reg_sp U) ramtop (set_reg (reg_t9 U) entry (p_s q)))
              \<lparr>pc_epc := entry,
               status := ALLOFF OR STATUS_TE U OR STATUS_IM_MASK U OR STATUS_KUc U OR STATUS_IEp U\<rparr>,
       p_prio := PROCESS_PRIO_LOW, p_pid := pcb_addr U p\<rparr>"

lemma create_init_proc_run:
  assumes i: "idle U s A" and f: "a_free A = p # ps"
  obtains s' where "create_init_proc U entry s = Ret () s'" and "idle U s' (a_enq PROCESS_PRIO_LOW p (a_take p A))"
    and "pcbs s' = (pcbs s)(p := init_pcb U entry (RAMTOP s) p (reset_pcb U (pcbs s p)))"
proof -
  have k: "kinv U s A" using i by (simp add: idle_def)
  then have r: "krep U s A" "kcnt s A" "prio_ok s A" by (simp_all add: kinv_def)
  let ?g = "init_pcb U entry (RAMTOP s) p"
  let ?s1 = "upd_count (\<lambda>c. c + 1) (upd_pcb p ?g (alloc_st U p s))"
  let ?s' = "insert_proc_q LQueue p ?s1" and ?A' = "a_enq PROCESS_PRIO_LOW p (a_take p A)"
  have al: "alloc_pcb U s = Ret (Some p) (alloc_st U p s)" "krep U (upd_pcb p ?g (alloc_st U p s)) (a_take p A)"
    by (rule alloc_krep[OF r(1) f, of ?g]; simp add: init_pcb_def)+
  have ram: "RAMTOP (alloc_st U p s) = RAMTOP s" by (simp add: RAMTOP_def)
  have run: "create_init_proc U entry s = Ret () ?s'"
    by (simp add: create_init_proc_def kbind_def al(1) ram init_pcb_def[abs_def])
  have "krep U ?s1 (a_take p A)" by (rule krep_cong[OF al(2)]) simp_all
  then have kr: "krep U ?s' ?A'" by (rule enqueue_krep(2)) simp
  have "mset (a_alive ?A') = add_mset p (mset (a_alive A))"
    using a_enq_alive[of p "a_take p A" PROCESS_PRIO_LOW] a_take_alive(1)[of p A] by simp
  then have "length (a_alive ?A') = Suc (length (a_alive A))" by (metis size_add_mset size_mset)
  then have "kcnt ?s' ?A'" using r(2) by (simp add: kcnt_def)
  moreover have "p \<notin> set (a_lq A)" "p \<notin> set (a_hq A)"
    using krepD(1)[OF r(1)] f by (auto simp: pcbs_wf_def a_alive_def)
  then have "prio_ok ?s' ?A'" using r(3) by (auto simp: prio_ok_def init_pcb_def)
  ultimately have "idle U ?s' ?A'" using kr i by (simp add: idle_def kinv_def)
  with run show thesis by (rule that) simp
qed

lemma idle_cong:
  assumes "idle U s A" and "lh s' = lh s" and "s_key s' = s_key s" and "pcbs s' = pcbs s"
    and "procs_count s' = procs_count s" and "sb_procs s' = sb_procs s"
    and "act_proc s' = act_proc s" and "yielded_proc s' = yielded_proc s"
  shows "idle U s' A"
  using assms kinv_cong[of U s A s'] by (simp add: idle_def)

text \<open>The state the boot leads to: one process, running, and every other PCB free.\<close>

definition main_abs :: kabs where
  "main_abs = \<lparr>a_free = [1..<MAXPROC], a_lq = [], a_hq = [], a_asl = [], a_sfree = [0..<MAXPROC],
     a_kids = (\<lambda>_. []), a_det = [0]\<rparr>"

lemma kernel_main_run:
  assumes b: "boot_ok s" and U: "layout_ok U"
  obtains st s' where "kernel_main U s = Stop (Ldst st) s'" and "running U 0 s' main_abs"
    and "p_prio (pcbs s' 0) = PROCESS_PRIO_LOW" and "p_parent (pcbs s' 0) = None"
    and "p_supportStruct (pcbs s' 0) = NULL"
    and "pc_epc st = addr_instantiator_proc U"
    and "status st = ALLOFF OR STATUS_TE U OR STATUS_IM_MASK U OR STATUS_KUc U OR STATUS_IEp U OR STATUS_IEp U OR STATUS_TE U"
proof -
  let ?s1 = "LOG ''K'' ''IT loaded'' (upd_hw (LDIT U PSECOND) (LOG ''K'' ''data str done'' (init_data_structures U s)))"
  define s2 where
    "s2 = upd_hw (setSTATUS U ((getSTATUS U (hw ?s1) OR STATUS_IEc U OR STATUS_TE U OR STATUS_IM_MASK U) XOR STATUS_TE U)) ?s1"
  have i2: "idle U s2 boot_abs" by (rule idle_cong[OF init_data_structures_idle[OF b]]) (simp_all add: s2_def)
  have pre: "kernel_main U s = kseq (create_init_proc U (addr_instantiator_proc U))
      (kseq (kmodify (LOG ''K'' ''ip created'')) (kseq (kmodify (LOG ''K'' ''loading ip'')) (kseq (scheduler_next U) PANIC))) s2"
    by (simp add: kernel_main_def kseq_def kbind_def kmodify_def s2_def)
  have f: "a_free boot_abs = 0 # [1..<MAXPROC]" by (simp add: boot_abs_def MAXPROC_def upt_conv_Cons)
  let ?A3 = "a_enq PROCESS_PRIO_LOW 0 (a_take 0 boot_abs)"
  obtain s3 where s3: "create_init_proc U (addr_instantiator_proc U) s2 = Ret () s3" "idle U s3 ?A3"
    "pcbs s3 = (pcbs s2)(0 := init_pcb U (addr_instantiator_proc U) (RAMTOP s2) 0 (reset_pcb U (pcbs s2 0)))"
    by (rule create_init_proc_run[OF i2 f])
  let ?s4 = "LOG ''K'' ''loading ip'' (LOG ''K'' ''ip created'' s3)"
  have i4: "idle U ?s4 ?A3" by (rule idle_cong[OF s3(2)]) simp_all
  then have k4: "kinv U ?s4 ?A3" "yielded_ok ?s4 ?A3" by (simp_all add: idle_def yielded_ok_def)
  have q: "a_hq ?A3 @ a_lq ?A3 = 0 # []" by (simp add: boot_abs_def)
  obtain s5 where s5: "scheduler_next U ?s4 = Stop (Ldst (p_s (loaded_pcb U ?s4 (pcbs ?s4 0)))) s5"
    "dispatched U 0 ?s4 ?A3 s5" by (rule scheduler_next_ready[OF k4 U q])
  let ?A5 = "a_requeue ?s4 (a_deq 0 ?A3)"
  have y: "yielded_proc ?s4 = None" using i4 by (simp add: idle_def)
  have A5: "?A5 = a_deq 0 ?A3" by (simp only: a_requeue_def y option.case)
  have up: "[0..<MAXPROC] = 0 # [1..<MAXPROC]" by (simp add: MAXPROC_def upt_conv_Cons)
  have abs: "?A5 = main_abs"
    unfolding A5 by (simp add: boot_abs_def main_abs_def a_deq_def a_enq_def a_take_def fun_upd_idem up)
  have main: "kernel_main U s = Stop (Ldst (p_s (loaded_pcb U ?s4 (pcbs ?s4 0)))) s5"
    unfolding pre by (simp add: kseq_def kbind_def kmodify_def s3(1) s5(1))
  show thesis
  proof (rule that[OF main])
    show "running U 0 s5 main_abs" using s5(2) unfolding dispatched_def abs by simp
    show "p_prio (pcbs s5 0) = PROCESS_PRIO_LOW" "p_parent (pcbs s5 0) = None" "p_supportStruct (pcbs s5 0) = NULL"
      using s5(2) by (simp_all add: dispatched_def s3(3) init_pcb_def reset_pcb_def)
    show "pc_epc (p_s (loaded_pcb U ?s4 (pcbs ?s4 0))) = addr_instantiator_proc U"
      by (simp add: loaded_pcb_def s3(3) init_pcb_def)
    show "status (p_s (loaded_pcb U ?s4 (pcbs ?s4 0))) =
        ALLOFF OR STATUS_TE U OR STATUS_IM_MASK U OR STATUS_KUc U OR STATUS_IEp U OR STATUS_IEp U OR STATUS_TE U"
      by (simp add: loaded_pcb_def loaded_status_def Let_def s3(3) init_pcb_def or.assoc)
  qed
qed

section \<open>The machine\<close>

text \<open>
  A process runs and changes what is its own or the devices' (memory, the states and support
  structures it keeps, the processor) but not the kernel's structures; an exception enters
  the kernel; the kernel gives the processor to a process, waits, or stops for good.
\<close>

datatype cpu = Running | Waiting | Stopped | Crashed

type_synonym 'h machine = "cpu \<times> 'h kst"

fun kernel_exit :: "(stop, unit, 'h kst) out \<Rightarrow> 'h machine" where
  "kernel_exit (Stop (Ldst st) s) = (Running, s)"
| "kernel_exit (Stop (Ldcxt sp st pc) s) = (Running, s)"
| "kernel_exit (Stop Wait s) = (Waiting, s)"
| "kernel_exit (Stop Panic s) = (Stopped, s)"
| "kernel_exit (Stop Halt s) = (Stopped, s)"
| "kernel_exit (Stop Wild s) = (Crashed, s)"
| "kernel_exit (Stop Diverge s) = (Crashed, s)"
| "kernel_exit (Ret u s) = (Crashed, s)"

definition outside :: "(u32 \<Rightarrow> u32) \<Rightarrow> (u32 \<Rightarrow> state_t) \<Rightarrow> (u32 \<Rightarrow> support_t) \<Rightarrow> 'h \<Rightarrow> 'h kst \<Rightarrow> 'h kst" where
  "outside m st su h s = s\<lparr>mem := m, states := st, supports := su, hw := h\<rparr>"

text \<open>A refill the handler can serve: the running process has a support structure and the
  page is one of its table.\<close>

definition refill_ok :: "'h plat \<Rightarrow> 'h kst \<Rightarrow> bool" where
  "refill_ok U s \<longleftrightarrow>
     (let page = ENTRYHI_GET_VPN U (entry_hi (states s BIOSDATAPAGE))
      in (page = STK_PG \<or> unat page < USERPGTBLSIZE) \<and>
         (\<forall>a. act_proc s = Some a \<longrightarrow> p_supportStruct (pcbs s a) \<noteq> NULL))"

inductive step :: "'h plat \<Rightarrow> 'h machine \<Rightarrow> 'h machine \<Rightarrow> bool" for U :: "'h plat" where
  user: "c = Running \<or> c = Waiting \<Longrightarrow> step U (c, s) (c, outside m st su h s)"
| exception: "c = Running \<or> c = Waiting \<Longrightarrow> exc_ok U s \<Longrightarrow>
    step U (c, s) (kernel_exit (exception_handler U s))"
| refill: "refill_ok U s \<Longrightarrow> step U (Running, s) (kernel_exit (uTLB_RefillHandler U s))"
| resumes: "step U (Waiting, s) (kernel_exit (scheduler_next U s))"

inductive_cases stepE: "step U (c, s) m"

inductive reachable :: "'h plat \<Rightarrow> 'h kst \<Rightarrow> 'h machine \<Rightarrow> bool" for U s0 where
  boot: "reachable U s0 (kernel_exit (kernel_main U s0))"
| again: "reachable U s0 m \<Longrightarrow> step U m m' \<Longrightarrow> reachable U s0 m'"

definition machine_ok :: "'h plat \<Rightarrow> 'h machine \<Rightarrow> bool" where
  "machine_ok U m =
     (case m of (Running, s) \<Rightarrow> \<exists>A a. running U a s A
      | (Waiting, s) \<Rightarrow> \<exists>A. idle U s A
      | (Stopped, s) \<Rightarrow> True
      | (Crashed, s) \<Rightarrow> False)"

lemma kernel_exit_ok: "kernel_ok U out \<Longrightarrow> machine_ok U (kernel_exit out)"
  by (auto simp: kernel_ok_def machine_ok_def split: out.splits stop.splits)

lemma outside_kinv: "kinv U s A \<Longrightarrow> kinv U (outside m st su h s) A"
  by (erule kinv_cong) (simp_all add: outside_def)

lemma outside_sel [simp]:
  "act_proc (outside m st su h s) = act_proc s" "yielded_proc (outside m st su h s) = yielded_proc s"
  by (simp_all add: outside_def)

lemma refill_kernel_ok:
  assumes run: "running U a s A" and ok: "refill_ok U s"
  shows "kernel_ok U (uTLB_RefillHandler U s)"
proof -
  note R = runningD[OF run]
  have "running U a (upd_hw f s) A" for f
    using run by (simp add: running_def upd_hw_kinv)
  then have "running U a (upd_hw f (upd_hw g (upd_hw h s))) A" for f g h
    by (simp add: running_def upd_hw_kinv R)
  then have r: "\<exists>A a. running U a (upd_hw f (upd_hw g (upd_hw h s))) A" for f g h by blast
  show ?thesis
    using ok R(3) r by (auto simp: uTLB_RefillHandler_def refill_ok_def Let_def kernel_ok_def USERPGTBLSIZE_def)
qed

lemma step_ok:
  assumes "step U m m'" and "machine_ok U m" and U: "layout_ok U" "lines_ok U"
  shows "machine_ok U m'"
  using assms(1,2)
proof (cases rule: step.cases)
  case (user c s mm st su h)
  have "running U a (outside mm st su h s) A" if "running U a s A" for a A
    using that outside_kinv by (simp add: running_def outside_kinv)
  moreover have "idle U (outside mm st su h s) A" if "idle U s A" for A
    using that by (simp add: idle_def outside_kinv)
  ultimately show ?thesis using assms(2) user unfolding machine_ok_def by (auto, blast+)
next
  case (exception c s)
  have "(\<exists>A a. running U a s A) \<or> (\<exists>A. idle U s A)"
    using assms(2) exception by (auto simp: machine_ok_def)
  then obtain A where "alert U s A" using running_alert idle_alert by blast
  then show ?thesis using exception kernel_exit_ok[OF exception_handler_ok[OF _ U]] by simp
next
  case (refill s)
  then obtain A a where "running U a s A" using assms(2) by (auto simp: machine_ok_def)
  then show ?thesis using refill kernel_exit_ok[OF refill_kernel_ok] by simp
next
  case (resumes s)
  then obtain A where "idle U s A" using assms(2) by (auto simp: machine_ok_def)
  then have "kernel_ok U (scheduler_next U s)"
    by (intro scheduler_next_ok[of U s A, OF _ _ U(1)]) (simp_all add: idle_def yielded_ok_def)
  then show ?thesis using resumes kernel_exit_ok by simp
qed

lemma reachable_machine_ok:
  assumes "reachable U s0 m" and "boot_ok s0" and "layout_ok U" and "lines_ok U"
  shows "machine_ok U m"
  using assms(1)
proof (induction rule: reachable.induct)
  case boot
  obtain st s' where "kernel_main U s0 = Stop (Ldst st) s'" "running U 0 s' main_abs"
    by (rule kernel_main_run[OF assms(2,3)])
  then show ?case by (auto simp: machine_ok_def)
next
  case (again m m')
  then show ?case using step_ok assms(3,4) by blast
qed

end
