(* ===== verification/Kernel_Runs.thy ===== *)
theory Kernel_Runs
  imports Kernel
begin

text \<open>
  Whole passes through the kernel, from the exception to the processor state it loads: the
  system calls that answer their caller at once, and the end of a time slice, whose repetition
  is the round robin of the low priority processes.
\<close>

section \<open>The steps of a pass\<close>

lemma save_state_running:
  assumes "running U a s A"
  shows "save_state s = upd_pcb a (\<lambda>q. q\<lparr>p_s := states s BIOSDATAPAGE\<rparr>) s" and "running U a (save_state s) A"
proof -
  note R = runningD[OF assms]
  show e: "save_state s = upd_pcb a (\<lambda>q. q\<lparr>p_s := states s BIOSDATAPAGE\<rparr>) s" by (simp add: save_state_def R(3))
  have "kinv U (save_state s) A" by (rule kinv_cong[OF R(1)]) (simp_all add: e)
  then show "running U a (save_state s) A" using R by (simp add: running_def e)
qed

text \<open>The PCB \<open>update_age\<close> leaves: the time since the last look at the clock is charged.\<close>

definition aged :: "'h plat \<Rightarrow> 'h kst \<Rightarrow> pcb_t \<Rightarrow> pcb_t" where
  "aged U s q = q\<lparr>p_time := p_time q + (fst (STCK U (hw s)) - p_tm_updt q), p_tm_updt := fst (STCK U (hw s))\<rparr>"

lemma aged_sel [simp]:
  "p_parent (aged U s q) = p_parent q" "p_s (aged U s q) = p_s q" "p_semAdd (aged U s q) = p_semAdd q"
  "p_supportStruct (aged U s q) = p_supportStruct q" "p_prio (aged U s q) = p_prio q" "p_pid (aged U s q) = p_pid q"
  by (simp_all add: aged_def)

lemma update_age_step:
  assumes k: "kinv U s A" and act: "act_proc s = Some a"
  obtains s' where "update_age U s = Ret () s'" and "kinv U s' A" and "act_proc s' = Some a"
    and "yielded_proc s' = yielded_proc s"
    and "pcbs s' = (pcbs s)(a := aged U s (pcbs s a))" and "s_key s' = s_key s" and "mem s' = mem s"
    and "states s' = states s" and "supports s' = supports s"
proof -
  obtain now h where stck: "STCK U (hw s) = (now, h)" by fastforce
  let ?s' = "upd_pcb a (\<lambda>q. q\<lparr>p_time := p_time q + (now - p_tm_updt q), p_tm_updt := now\<rparr>) (s\<lparr>hw := h\<rparr>)"
  have run: "update_age U s = Ret () ?s'"
    by (simp add: update_age_def act kbind_def read_tod_def stck kmodify_def)
  have "kinv U ?s' A" by (rule kinv_cong[OF k]) simp_all
  then show thesis by (rule that[OF run]) (simp_all add: aged_def stck act)
qed

lemma update_age_run:
  assumes "running U a s A"
  obtains s' where "update_age U s = Ret () s'" and "running U a s' A"
    and "pcbs s' = (pcbs s)(a := aged U s (pcbs s a))" and "s_key s' = s_key s" and "mem s' = mem s"
    and "states s' = states s" and "supports s' = supports s"
proof -
  note R = runningD[OF assms]
  obtain s' where s': "update_age U s = Ret () s'" "kinv U s' A" "act_proc s' = Some a" "yielded_proc s' = yielded_proc s"
    "pcbs s' = (pcbs s)(a := aged U s (pcbs s a))" "s_key s' = s_key s" "mem s' = mem s"
    "states s' = states s" "supports s' = supports s" by (rule update_age_step[OF R(1,3)])
  then have "running U a s' A" using R by (simp add: running_def)
  with s' show thesis by (intro that)
qed

section \<open>System calls that answer at once\<close>

text \<open>The codes of exceptions the handler looks for before it looks for a system call.\<close>

definition sys_code :: "'h plat \<Rightarrow> u32 \<Rightarrow> bool" where
  "sys_code U c \<longleftrightarrow> c = EXC_SYS U \<and>
     c \<notin> {EXC_INT U, EXC_MOD U, EXC_TLBL U, EXC_TLBS U, EXC_ADEL U, EXC_ADES U, EXC_IBE U, EXC_DBE U,
          EXC_BP U, EXC_RI U, EXC_CPU U, EXC_OV U}"

text \<open>A system call with number \<open>n\<close> made in kernel mode.\<close>

definition sys_request :: "'h plat \<Rightarrow> 'h kst \<Rightarrow> int \<Rightarrow> bool" where
  "sys_request U s n \<longleftrightarrow>
     sys_code U (CAUSE_GET_EXCCODE U (cause (states s BIOSDATAPAGE))) \<and>
     drop_bit (STATUS_KUp_BIT U) (getSTATUS U (hw s) AND STATUS_KUp U) = 0 \<and>
     sint (gpr (states s BIOSDATAPAGE) (reg_a0 U)) = n"

definition answer :: "'h plat \<Rightarrow> 'h kst \<Rightarrow> nat \<Rightarrow> int \<Rightarrow> u32" where
  "answer U s a n =
     (if n = GETTIME then p_time (pcbs s a)
      else if n = GETSUPPORTPTR then p_supportStruct (pcbs s a)
      else if gpr (states s BIOSDATAPAGE) (reg_a1 U) = 0 then pcb_addr U a
      else case p_parent (pcbs s a) of None \<Rightarrow> 0 | Some q \<Rightarrow> pcb_addr U q)"

text \<open>A state past its system call, and with an answer in \<open>v0\<close>.\<close>

definition past :: "'h plat \<Rightarrow> state_t \<Rightarrow> state_t" where
  "past U st = (set_reg (reg_t9 U) (pc_epc st + WORD_SIZE U) st)\<lparr>pc_epc := pc_epc st + WORD_SIZE U\<rparr>"

definition answered :: "'h plat \<Rightarrow> u32 \<Rightarrow> state_t \<Rightarrow> state_t" where
  "answered U v st = past U (set_reg (reg_v0 U) v st)"

lemma reading_syscalls:
  assumes "running U a s A"
  shows "get_time U s = Ret CONTINUE (upd_reg a (reg_v0 U) (p_time (pcbs s a)) s) \<and>
    get_support U s = Ret CONTINUE (upd_reg a (reg_v0 U) (p_supportStruct (pcbs s a)) s) \<and>
    get_process_pid U 0 s = Ret CONTINUE (upd_reg a (reg_v0 U) (pcb_addr U a) s) \<and>
    (n \<noteq> 0 \<longrightarrow> get_process_pid U n s =
       Ret CONTINUE (upd_reg a (reg_v0 U)
         (case p_parent (pcbs s a) of None \<Rightarrow> 0 | Some q \<Rightarrow> pcb_addr U q) s))"
proof -
  note R = runningD[OF assms]
  have own: "p_pid (pcbs s a) = pcb_addr U a" using krepD(6)[OF R(2)] R(6) by (simp add: pid_ok_def)
  have par: "p_pid (pcbs s q) = pcb_addr U q" if "p_parent (pcbs s a) = Some q" for q
    using parent_alive(1)[OF krepD(5)[OF R(2)] R(6) that] krepD(6)[OF R(2)] by (simp add: pid_ok_def)
  show ?thesis
    using own par by (simp add: get_time_def get_support_def get_process_pid_def with_act_def R(3) split: option.split)
qed

lemma handle_cause_sys:
  "sys_code U c \<Longrightarrow> handle_cause U c = handle_sys U"
  by (auto simp: sys_code_def handle_cause_def)

text \<open>The pass of a kernel request: the handler of the request, past it, and on to the next process.\<close>

lemma request_pass:
  assumes run: "running U a s A" and req: "sys_request U s n" "n < 0" and hs: "handle_syscall U (save_state s) = Ret r s1"
  shows "exception_handler U s = kseq (update_age U) (kseq (resume U r) (scheduler_next U)) (bump_pc U s1)"
proof -
  note s1 = save_state_running[OF run]
  have KUp: "drop_bit (STATUS_KUp_BIT U) (getSTATUS U (hw (save_state s)) AND STATUS_KUp U) = 0"
    and neg: "sint (gpr (p_s (pcbs (save_state s) a)) (reg_a0 U)) < 0"
    and code: "sys_code U (CAUSE_GET_EXCCODE U (cause (states s BIOSDATAPAGE)))"
    using req by (simp_all add: sys_request_def s1(1))
  have "handle_sys U (save_state s) = Ret r (bump_pc U s1)"
    using KUp neg by (simp add: handle_sys_def runningD(3)[OF s1(2)] Let_def kbind_def hs kseq_def kmodify_def kreturn_def)
  then show ?thesis
    unfolding exception_handler_unfold handle_cause_sys[OF code] by (rule kbind_Ret)
qed

text \<open>The dispatch of a request by a live process that waits for nothing.\<close>

lemma handle_syscall_dispatch:
  assumes run: "running U a s A" and U: "layout_ok U" and req: "sys_request U s n"
  shows "handle_syscall U (save_state s) =
    (let arg1 = gpr (states s BIOSDATAPAGE) (reg_a1 U); arg2 = gpr (states s BIOSDATAPAGE) (reg_a2 U);
         arg3 = gpr (states s BIOSDATAPAGE) (reg_a3 U)
     in if n = CREATEPROCESS then create_process U arg1 arg2 arg3
        else if n = TERMPROCESS then term_process U arg1
        else if n = PASSEREN then
          check_sem arg1 a (LOG ''E'' ''Sem value out of range on P'') ''Passeren on zombie'' (passeren arg1)
        else if n = VERHOGEN then
          check_sem arg1 a
            (\<lambda>s. LOGi ''E'' ''value:'' (mem s arg1) (LOG ''E'' ''Sem value out of range on V'' s))
            ''verhogen on zombie'' (kbind (verhogen arg1) (\<lambda>r. kreturn (if r = None then NOTHING else RENQUEUE)))
        else if n = DOIO then do_io U arg1 arg2
        else if n = GETTIME then get_time U
        else if n = CLOCKWAIT then wait_for_clock U
        else if n = GETSUPPORTPTR then get_support U
        else if n = GETPROCESSID then get_process_pid U arg1
        else if n = YIELD then yield
        else passup_or_die GENERALEXCEPT) (save_state s)"
proof -
  note s1 = save_state_running[OF run]
  note R = runningD[OF s1(2)]
  have st: "p_s (pcbs (save_state s) a) = states s BIOSDATAPAGE" by (simp add: s1(1))
  have num: "sint (gpr (states s BIOSDATAPAGE) (reg_a0 U)) = n" using req by (simp add: sys_request_def)
  have al: "is_alive a (save_state s) = Ret True (save_state s)" using is_alive_run[OF R(2) U R(7)] R(6) by simp
  show ?thesis
    unfolding handle_syscall_def with_act_def R(3) option.case Let_def st num
    by (simp add: kbind_Ret[where m = "is_alive a" and s = "save_state s", OF al] R(9))
qed

lemma bump_pc_run:
  assumes "act_proc s = Some a" and "kinv U s A"
  shows "kinv U (bump_pc U s) A" and "act_proc (bump_pc U s) = Some a" and "yielded_proc (bump_pc U s) = yielded_proc s"
    and "mem (bump_pc U s) = mem s" and "supports (bump_pc U s) = supports s" and "s_key (bump_pc U s) = s_key s"
    and "states (bump_pc U s) = states s"
    and "pcbs (bump_pc U s) = (pcbs s)(a := (pcbs s a)\<lparr>p_s := past U (p_s (pcbs s a))\<rparr>)"
proof -
  show "kinv U (bump_pc U s) A" by (rule kinv_cong[OF assms(2)]) (simp_all add: bump_pc_def assms(1) Let_def)
qed (simp_all add: bump_pc_def assms(1) Let_def past_def)

lemma handle_syscall_answer:
  assumes run: "running U a s A" and U: "layout_ok U" and req: "sys_request U s n"
    and n: "n \<in> {GETTIME, GETSUPPORTPTR, GETPROCESSID}"
  shows "handle_syscall U (save_state s) = Ret CONTINUE (upd_reg a (reg_v0 U) (answer U s a n) (save_state s))"
proof -
  note s1 = save_state_running[OF run]
  have "p_time (pcbs (save_state s) a) = p_time (pcbs s a)"
    "p_supportStruct (pcbs (save_state s) a) = p_supportStruct (pcbs s a)"
    "p_parent (pcbs (save_state s) a) = p_parent (pcbs s a)" by (simp_all add: s1(1))
  then show ?thesis
    using n reading_syscalls[OF s1(2)]
    unfolding handle_syscall_dispatch[OF run U req] answer_def by (auto simp: Let_def syscall_numbers)
qed

lemma a_requeue_running: "running U a s A \<Longrightarrow> a_requeue s A = A"
  by (simp add: a_requeue_def runningD(4))

text \<open>The tail of a pass in which the caller goes on.\<close>

lemma continue_pass:
  assumes run: "running U a s A"
  obtains s' where "kseq (update_age U) (kseq (resume U CONTINUE) (scheduler_next U)) s =
      Stop (Ldst ((p_s (pcbs s a))\<lparr>status := loaded_status U (pcbs s a)\<rparr>)) s'"
    and "running U a s' A" and "mem s' = mem s" and "supports s' = supports s" and "s_key s' = s_key s"
    and "\<And>p. p \<noteq> a \<Longrightarrow> pcbs s' p = pcbs s p"
proof -
  obtain s1 where s1: "update_age U s = Ret () s1" "running U a s1 A"
    "pcbs s1 = (pcbs s)(a := aged U s (pcbs s a))" "s_key s1 = s_key s" "mem s1 = mem s" "supports s1 = supports s"
    by (rule update_age_run[OF run])
  note R = runningD[OF s1(2)]
  obtain s2 where s2: "load_proc U (Some a) s1 = Stop (Ldst (p_s (loaded_pcb U s1 (pcbs s1 a)))) s2"
    "kinv U s2 (a_requeue s1 A)" "act_proc s2 = Some a" "yielded_proc s2 = None" "a \<in> set (a_det (a_requeue s1 A))"
    "pcbs s2 = (pcbs s1)(a := loaded_pcb U s1 (pcbs s1 a))" "s_key s2 = s_key s1" "mem s2 = mem s1" "supports s2 = supports s1"
    using load_proc_kinv[OF R(1,8,5)] R(4) by auto
  have "running U a s2 A" using s2(2-5) by (simp add: running_def a_requeue_running[OF s1(2)])
  moreover have "loaded_status U (aged U s q) = loaded_status U q" for q by (simp add: loaded_status_def)
  then have "p_s (loaded_pcb U s1 (pcbs s1 a)) = (p_s (pcbs s a))\<lparr>status := loaded_status U (pcbs s a)\<rparr>"
    by (simp add: s1(3) loaded_pcb_def)
  then have "kseq (update_age U) (kseq (resume U CONTINUE) (scheduler_next U)) s =
      Stop (Ldst ((p_s (pcbs s a))\<lparr>status := loaded_status U (pcbs s a)\<rparr>)) s2"
    using s2(1) by (simp add: kseq_def kbind_def s1(1) resume_def R(3))
  ultimately show thesis using s1 s2 by (intro that[of s2]) simp_all
qed

text \<open>A request the handler lets the caller go on from: it goes on after the request.\<close>

lemma continue_request:
  assumes run: "running U a s A" and req: "sys_request U s n" "n < 0"
    and hs: "handle_syscall U (save_state s) = Ret CONTINUE s1" and run1: "running U a s1 A1"
  obtains s' where "exception_handler U s =
      Stop (Ldst ((past U (p_s (pcbs s1 a)))\<lparr>status := loaded_status U (pcbs s1 a)\<rparr>)) s'"
    and "running U a s' A1" and "mem s' = mem s1" and "supports s' = supports s1" and "s_key s' = s_key s1"
    and "\<And>p. p \<noteq> a \<Longrightarrow> pcbs s' p = pcbs s1 p"
proof -
  note R = runningD[OF run1]
  note bp = bump_pc_run[OF R(3,1)]
  have run2: "running U a (bump_pc U s1) A1" using bp R by (simp add: running_def)
  obtain s' where s': "kseq (update_age U) (kseq (resume U CONTINUE) (scheduler_next U)) (bump_pc U s1) =
      Stop (Ldst ((p_s (pcbs (bump_pc U s1) a))\<lparr>status := loaded_status U (pcbs (bump_pc U s1) a)\<rparr>)) s'"
    "running U a s' A1" "mem s' = mem (bump_pc U s1)" "supports s' = supports (bump_pc U s1)"
    "s_key s' = s_key (bump_pc U s1)" "\<And>p. p \<noteq> a \<Longrightarrow> pcbs s' p = pcbs (bump_pc U s1) p"
    by (rule continue_pass[OF run2]) blast
  have "loaded_status U (pcbs (bump_pc U s1) a) = loaded_status U (pcbs s1 a)"
    by (simp add: bp(8) loaded_status_def past_def set_reg_def)
  then have "exception_handler U s = Stop (Ldst ((past U (p_s (pcbs s1 a)))\<lparr>status := loaded_status U (pcbs s1 a)\<rparr>)) s'"
    unfolding request_pass[OF run req hs] s'(1) by (simp add: bp(8))
  then show thesis using s'(2-6) by (intro that[of s']) (simp_all add: bp(4-6,8))
qed

lemma number_negative: "n \<in> {GETTIME, GETSUPPORTPTR, GETPROCESSID} \<Longrightarrow> n < 0"
  by (auto simp: syscall_numbers)

lemma answering_pass:
  assumes run: "running U a s A" and U: "layout_ok U" and req: "sys_request U s n"
    and n: "n \<in> {GETTIME, GETSUPPORTPTR, GETPROCESSID}"
  obtains s' where "exception_handler U s =
      Stop (Ldst ((answered U (answer U s a n) (states s BIOSDATAPAGE))
        \<lparr>status := loaded_status U ((pcbs s a)\<lparr>p_s := states s BIOSDATAPAGE\<rparr>)\<rparr>)) s'"
    and "running U a s' A" and "mem s' = mem s" and "supports s' = supports s"
    and "\<And>p. p \<noteq> a \<Longrightarrow> pcbs s' p = pcbs s p"
proof -
  let ?st = "states s BIOSDATAPAGE" and ?v = "answer U s a n"
  let ?s1 = "upd_reg a (reg_v0 U) ?v (save_state s)"
  note sv = save_state_running[OF run]
  have run1: "running U a ?s1 A" using runningD[OF sv(2)] upd_reg_kinv by (simp add: running_def)
  have ls: "loaded_status U (pcbs ?s1 a) = loaded_status U ((pcbs s a)\<lparr>p_s := ?st\<rparr>)"
    and st: "past U (p_s (pcbs ?s1 a)) = answered U ?v ?st"
    by (simp_all add: sv(1) loaded_status_def set_reg_def answered_def)
  obtain s' where s': "exception_handler U s = Stop (Ldst ((past U (p_s (pcbs ?s1 a)))\<lparr>status := loaded_status U (pcbs ?s1 a)\<rparr>)) s'"
    "running U a s' A" "mem s' = mem ?s1" "supports s' = supports ?s1" "\<And>p. p \<noteq> a \<Longrightarrow> pcbs s' p = pcbs ?s1 p"
    by (rule continue_request[OF run req number_negative[OF n] handle_syscall_answer[OF run U req n] run1]) blast
  show thesis
    by (rule that[OF s'(1)[unfolded ls st] s'(2)]) (use s'(3-5) in \<open>simp_all add: sv(1) upd_reg_def\<close>)
qed

section \<open>Passes that give the processor to the next process\<close>

definition loaded_state :: "'h plat \<Rightarrow> pcb_t \<Rightarrow> state_t" where
  "loaded_state U q = (p_s q)\<lparr>status := loaded_status U q\<rparr>"

text \<open>\<open>b\<close> has the processor in \<open>s'\<close>; nothing has changed but what its dispatch changes.\<close>

definition handed :: "'h plat \<Rightarrow> nat \<Rightarrow> 'h kst \<Rightarrow> kabs \<Rightarrow> 'h kst \<Rightarrow> bool" where
  "handed U b s A s' \<longleftrightarrow> running U b s' (a_deq b A) \<and> mem s' = mem s \<and> s_key s' = s_key s \<and>
     p_s (pcbs s' b) = loaded_state U (pcbs s b) \<and>
     (\<forall>p. p_prio (pcbs s' p) = p_prio (pcbs s p) \<and> p_parent (pcbs s' p) = p_parent (pcbs s p) \<and>
       (p \<noteq> b \<longrightarrow> p_s (pcbs s' p) = p_s (pcbs s p)))"

lemma a_deq_head:
  assumes wf: "pcbs_wf A" and q: "a_hq A @ a_lq A = b # bs"
  shows "a_hq (a_deq b A) @ a_lq (a_deq b A) = bs"
proof (cases "a_hq A")
  case (Cons h hs)
  then have "b \<notin> set (a_lq A)" using ready_not_elsewhere(1)[OF wf, of b] q by simp
  then show ?thesis using q Cons by (simp add: remove1_idem)
qed (use q in simp)

lemma handed_waiting: "handed U b s A s' \<Longrightarrow> waiting s' (a_deq b A) k = waiting s A k"
  by (rule waiting_cong) (simp_all add: handed_def)

lemma scheduler_pass:
  assumes k: "kinv U s A" and y: "yielded_proc s = None" and U: "layout_ok U" and q: "a_hq A @ a_lq A = b # bs"
  obtains s' where "scheduler_next U s = Stop (Ldst (p_s (pcbs s' b))) s'" and "handed U b s A s'"
proof -
  have "yielded_ok s A" using y by (simp add: yielded_ok_def)
  then obtain s' where s': "scheduler_next U s = Stop (Ldst (p_s (loaded_pcb U s (pcbs s b)))) s'" "dispatched U b s A s'"
    using scheduler_next_ready[OF k _ U q] by blast
  have "a_requeue s (a_deq b A) = a_deq b A" by (simp add: a_requeue_def y)
  moreover have pc: "pcbs s' = (pcbs s)(b := loaded_pcb U s (pcbs s b))" using s'(2) by (simp add: dispatched_def)
  moreover have "p_s (loaded_pcb U s q) = loaded_state U q" for q by (simp add: loaded_pcb_def loaded_state_def)
  ultimately show thesis using s' by (intro that[of s']) (simp_all add: handed_def dispatched_def)
qed

lemma handed_aged:
  assumes "handed U b s1 A s'" and "pcbs s1 = (pcbs s)(a := aged U s (pcbs s a))" and "mem s1 = mem s" and "s_key s1 = s_key s"
  shows "handed U b s A s'"
proof -
  have "loaded_state U (aged U s q) = loaded_state U q" for q by (simp add: loaded_state_def loaded_status_def)
  then show ?thesis using assms unfolding handed_def by (auto split: if_splits)
qed

text \<open>
  The handler has blocked the caller, or it lets it wait for its turn: with any action but
  \<open>CONTINUE\<close> and \<open>RENQUEUE\<close> the processor goes to the next process.
\<close>

lemma leave_pass:
  assumes k: "kinv U s A" and act: "act_proc s = Some a" and y: "yielded_proc s = None" and U: "layout_ok U"
    and q: "a_hq A @ a_lq A = b # bs" and r: "r \<noteq> CONTINUE" "r \<noteq> RENQUEUE"
  obtains s' where "kseq (update_age U) (kseq (resume U r) (scheduler_next U)) s = Stop (Ldst (p_s (pcbs s' b))) s'"
    and "handed U b s A s'"
proof -
  obtain s1 where s1: "update_age U s = Ret () s1" "kinv U s1 A" "act_proc s1 = Some a" "yielded_proc s1 = yielded_proc s"
    "pcbs s1 = (pcbs s)(a := aged U s (pcbs s a))" "s_key s1 = s_key s" "mem s1 = mem s"
    by (rule update_age_step[OF k act])
  have y1: "yielded_proc s1 = None" using s1(4) y by simp
  obtain s' where s': "scheduler_next U s1 = Stop (Ldst (p_s (pcbs s' b))) s'" "handed U b s1 A s'"
    by (rule scheduler_pass[OF s1(2) y1 U q])
  have "resume U r s1 = Ret () s1" by (simp add: resume_def s1(3) r)
  then show thesis
    by (intro that[of s'] handed_aged[OF s'(2) s1(5,7,6)]) (simp add: kseq_def kbind_def s1(1) s'(1))
qed

lemma nothing_is_other: "NOTHING \<noteq> CONTINUE" "NOTHING \<noteq> RENQUEUE"
  by (simp_all add: eh_act_defs)

lemmas nothing_pass = leave_pass[OF _ _ _ _ _ nothing_is_other]

lemma requeue_pass:
  assumes k: "kinv U s A" and act: "act_proc s = Some a" and y: "yielded_proc s = None" and a: "a \<in> set (a_det A)"
    and U: "layout_ok U" and q: "a_hq (a_enq (p_prio (pcbs s a)) a A) @ a_lq (a_enq (p_prio (pcbs s a)) a A) = b # bs"
  obtains s' where "kseq (update_age U) (kseq (resume U RENQUEUE) (scheduler_next U)) s = Stop (Ldst (p_s (pcbs s' b))) s'"
    and "handed U b s (a_enq (p_prio (pcbs s a)) a A) s'"
proof -
  obtain s1 where s1: "update_age U s = Ret () s1" "kinv U s1 A" "act_proc s1 = Some a" "yielded_proc s1 = yielded_proc s"
    "pcbs s1 = (pcbs s)(a := aged U s (pcbs s a))" "s_key s1 = s_key s" "mem s1 = mem s"
    by (rule update_age_step[OF k act])
  let ?pr = "p_prio (pcbs s a)"
  have pr: "p_prio (pcbs s1 a) = ?pr" by (simp add: s1(5))
  have k2: "kinv U (enqueue_proc a ?pr s1) (a_enq ?pr a A)" using enqueue_proc_kinv[OF s1(2) a] by (simp add: pr)
  have y2: "yielded_proc (enqueue_proc a ?pr s1) = None" using s1(4) y by simp
  obtain s' where s': "scheduler_next U (enqueue_proc a ?pr s1) = Stop (Ldst (p_s (pcbs s' b))) s'"
    "handed U b (enqueue_proc a ?pr s1) (a_enq ?pr a A) s'"
    by (rule scheduler_pass[OF k2 y2 U q])
  have "resume U RENQUEUE s1 = Ret () (enqueue_proc a ?pr s1)" by (simp add: resume_def s1(3) pr eh_act_defs)
  moreover have "handed U b s (a_enq ?pr a A) s'" by (rule handed_aged[OF s'(2)]) (simp_all add: s1(5-7))
  ultimately show thesis by (intro that[of s']) (simp add: kseq_def kbind_def s1(1) s'(1))
qed

text \<open>The end of the queue of a process, by its priority.\<close>

definition at_prio :: "u32 \<Rightarrow> 'h kst \<Rightarrow> nat \<Rightarrow> nat list" where
  "at_prio pr s p = (if p_prio (pcbs s p) = pr then [p] else [])"

lemma a_enq_queues:
  "a_hq (a_enq pr p A) = a_hq A @ (if pr = PROCESS_PRIO_HIGH then [p] else [])"
  "a_lq (a_enq pr p A) = a_lq A @ (if pr = PROCESS_PRIO_LOW then [p] else [])"
  by (simp_all add: a_enq_def)

text \<open>
  The end of a request that gives the processor away: \<open>b\<close> runs, from its own state or, if it is the
  caller, from the state after the request; the other processes keep theirs.
\<close>

definition gave_way :: "'h plat \<Rightarrow> 'h kst \<Rightarrow> nat \<Rightarrow> 'h kst \<Rightarrow> kabs \<Rightarrow> nat \<Rightarrow> nat list \<Rightarrow> 'h kst \<Rightarrow> kabs \<Rightarrow> bool" where
  "gave_way U s a s1 A1 b bs s' A' \<longleftrightarrow>
     exception_handler U s = Stop (Ldst (p_s (pcbs s' b))) s' \<and> running U b s' A' \<and> a_hq A' @ a_lq A' = bs \<and>
     set (a_alive A') = set (a_alive A1) \<and>
     (\<forall>j. waiting s' A' j = waiting s1 A1 j) \<and> mem s' = mem s1 \<and>
     p_s (pcbs s' b) = loaded_state U (if b = a then (pcbs s1 a)\<lparr>p_s := past U (p_s (pcbs s1 a))\<rparr> else pcbs s1 b) \<and>
     (\<forall>p. p \<noteq> b \<longrightarrow> p_s (pcbs s' p) = (if p = a then past U (p_s (pcbs s1 a)) else p_s (pcbs s1 p))) \<and>
     (\<forall>p. p_prio (pcbs s' p) = p_prio (pcbs s1 p) \<and> p_parent (pcbs s' p) = p_parent (pcbs s1 p))"

lemma gave_wayI:
  assumes run: "exception_handler U s = Stop (Ldst (p_s (pcbs s' b))) s'" and h: "handed U b (bump_pc U s1) A2 s'"
    and wf: "pcbs_wf A2" and q: "a_hq A2 @ a_lq A2 = b # bs" and act: "act_proc s1 = Some a"
    and k1: "kinv U s1 A1" and A2: "a_asl A2 = a_asl A1" "set (a_alive A2) = set (a_alive A1)"
  shows "gave_way U s a s1 A1 b bs s' (a_deq b A2)"
proof -
  note bp = bump_pc_run[OF act k1]
  have "waiting s' (a_deq b A2) j = waiting s1 A1 j" for j
    using handed_waiting[OF h, of j] waiting_cong[of A2 A1 "bump_pc U s1" s1 j] bp(6) A2(1) by simp
  moreover have "b \<in> set (a_hq A2) \<or> b \<in> set (a_lq A2)" by (metis Un_iff list.set_intros(1) q set_append)
  then have "set (a_alive (a_deq b A2)) = set (a_alive A1)" using mset_eq_setD[OF a_deq_alive(2)[OF wf]] A2(2) by simp
  ultimately show ?thesis
    using run h a_deq_head[OF wf q] unfolding gave_way_def handed_def bp(4,8) by auto
qed

lemma leave_request:
  assumes run: "running U a s A" and U: "layout_ok U" and req: "sys_request U s n" "n < 0"
    and hs: "handle_syscall U (save_state s) = Ret r s1" and r: "r \<noteq> CONTINUE" "r \<noteq> RENQUEUE"
    and s1: "kinv U s1 A1" "act_proc s1 = Some a" "yielded_proc s1 = None" and q: "a_hq A1 @ a_lq A1 = b # bs"
  obtains s' A' where "gave_way U s a s1 A1 b bs s' A'"
proof -
  note bp = bump_pc_run[OF s1(2,1)]
  have y: "yielded_proc (bump_pc U s1) = None" using bp(3) s1(3) by simp
  obtain s' where s': "kseq (update_age U) (kseq (resume U r) (scheduler_next U)) (bump_pc U s1) = Stop (Ldst (p_s (pcbs s' b))) s'"
    "handed U b (bump_pc U s1) A1 s'" by (rule leave_pass[OF bp(1,2) y U q r])
  have "exception_handler U s = Stop (Ldst (p_s (pcbs s' b))) s'" using request_pass[OF run req hs] s'(1) by simp
  moreover have "pcbs_wf A1" using s1(1) krepD(1) by (auto simp: kinv_def)
  ultimately show thesis by (intro that[OF gave_wayI[OF _ s'(2) _ q s1(2,1)]]) auto
qed

lemma requeue_request:
  assumes run: "running U a s A" and U: "layout_ok U" and req: "sys_request U s n" "n < 0"
    and hs: "handle_syscall U (save_state s) = Ret RENQUEUE s1" and s1: "kinv U s1 A1" "act_proc s1 = Some a" "yielded_proc s1 = None"
    and a: "a \<in> set (a_det A1)" and q: "(a_hq A1 @ at_prio PROCESS_PRIO_HIGH s1 a) @ (a_lq A1 @ at_prio PROCESS_PRIO_LOW s1 a) = b # bs"
  obtains s' A' where "gave_way U s a s1 A1 b bs s' A'"
proof -
  note bp = bump_pc_run[OF s1(2,1)]
  let ?pr = "p_prio (pcbs (bump_pc U s1) a)"
  have pr: "?pr = p_prio (pcbs s1 a)" by (simp add: bp(8))
  have y: "yielded_proc (bump_pc U s1) = None" using bp(3) s1(3) by simp
  have q1: "a_hq (a_enq ?pr a A1) @ a_lq (a_enq ?pr a A1) = b # bs"
    using q unfolding pr a_enq_queues by (simp add: at_prio_def)
  obtain s' where s': "kseq (update_age U) (kseq (resume U RENQUEUE) (scheduler_next U)) (bump_pc U s1) = Stop (Ldst (p_s (pcbs s' b))) s'"
    "handed U b (bump_pc U s1) (a_enq ?pr a A1) s'" by (rule requeue_pass[OF bp(1,2) y a U q1])
  have "pcbs_wf (a_enq ?pr a A1)" using enqueue_proc_kinv[OF bp(1) a] krepD(1) by (auto simp: kinv_def)
  moreover have "set (a_alive (a_enq ?pr a A1)) = set (a_alive A1)"
    using a_enq_alive[OF a, of ?pr] mset_eq_setD by blast
  moreover have "exception_handler U s = Stop (Ldst (p_s (pcbs s' b))) s'" using request_pass[OF run req hs] s'(1) by simp
  ultimately show thesis
    by (intro that[OF gave_wayI[OF _ s'(2) _ q1 s1(2,1)]]) simp_all
qed

text \<open>A P on a semaphore that is 0: the caller waits, past its request, and the next process runs.\<close>

lemma check_sem_pass:
  assumes run: "running U a s A" and U: "layout_ok U" and v: "mem s k = 0 \<or> mem s k = 1"
  shows "check_sem k a c z op s = op s"
proof -
  note R = runningD[OF run]
  have "is_alive a s = Ret True s" using is_alive_run[OF R(2) U R(7)] R(6) by simp
  then show ?thesis using v by (auto simp: check_sem_def kbind_def)
qed

lemma ready_not_running:
  assumes "running U a s A" and "a_hq A @ a_lq A = b # bs"
  shows "b \<noteq> a"
proof -
  have "b \<in> set (a_hq A) \<or> b \<in> set (a_lq A)" by (metis Un_iff list.set_intros(1) assms(2) set_append)
  from ready_not_elsewhere(3)[OF krepD(1)[OF runningD(2)[OF assms(1)]] this] show ?thesis
    using runningD(5)[OF assms(1)] by metis
qed

lemma block_request:
  assumes run: "running U a s A" and U: "layout_ok U" and req: "sys_request U s n" "n < 0"
    and hs: "handle_syscall U (save_state s) = Ret NOTHING (s0\<lparr>mem := m\<rparr>)" and s0: "kinv U s0 A1" "blocked_on k a (save_state s) A s0 A1"
    and q: "a_hq A @ a_lq A = b # bs"
  obtains s' A' where "exception_handler U s = Stop (Ldst (p_s (pcbs s' b))) s'" and "running U b s' A'"
    and "\<And>j. waiting s' A' j = (if j = k then waiting s A k @ [a] else waiting s A j)"
    and "a_hq A' @ a_lq A' = bs" and "p_s (pcbs s' a) = past U (states s BIOSDATAPAGE)"
    and "p_s (pcbs s' b) = loaded_state U (pcbs s b)" and "mem s' = m" and "\<And>p. p_prio (pcbs s' p) = p_prio (pcbs s p)"
proof -
  note sv = save_state_running[OF run]
  note R = runningD[OF sv(2)]
  let ?s1 = "s0\<lparr>mem := m\<rparr>"
  have k1: "kinv U ?s1 A1" by (rule kinv_cong[OF s0(1)]) simp_all
  have act: "act_proc ?s1 = Some a" "yielded_proc ?s1 = None" using s0(2) R by (simp_all add: blocked_on_def same_user_def)
  have q1: "a_hq A1 @ a_lq A1 = b # bs" using s0(2) q by (simp add: blocked_on_def)
  obtain s' A' where g: "gave_way U s a ?s1 A1 b bs s' A'"
    by (rule leave_request[OF run U req hs nothing_is_other k1 act q1])
  have ne: "b \<noteq> a" by (rule ready_not_running[OF run q])
  have ws: "waiting (save_state s) A j = waiting s A j" for j by (rule waiting_cong) (simp_all add: sv(1))
  have w: "waiting ?s1 A1 j = (if j = k then waiting s A k @ [a] else waiting s A j)" for j
    using waiting_cong[of A1 A1 ?s1 s0 j] s0(2) by (simp add: blocked_on_def ws)
  have pc: "pcbs s0 p = (if p = a then (pcbs s a)\<lparr>p_s := states s BIOSDATAPAGE, p_semAdd := k\<rparr> else pcbs s p)" for p
    using s0(2) by (simp add: blocked_on_def sv(1))
  show thesis
    by (rule that[of s' A']) (use g ne in \<open>simp_all add: gave_way_def pc w\<close>)
qed

lemma p_pass:
  assumes run: "running U a s A" and U: "layout_ok U" and req: "sys_request U s PASSEREN"
    and k: "k = gpr (states s BIOSDATAPAGE) (reg_a1 U)" "k \<noteq> NULL" "mem s k = 0" and q: "a_hq A @ a_lq A = b # bs"
  obtains s' A' where "exception_handler U s = Stop (Ldst (p_s (pcbs s' b))) s'" and "running U b s' A'"
    and "\<And>j. waiting s' A' j = (if j = k then waiting s A k @ [a] else waiting s A j)"
    and "a_hq A' @ a_lq A' = bs" and "p_s (pcbs s' a) = past U (states s BIOSDATAPAGE)"
    and "p_s (pcbs s' b) = loaded_state U (pcbs s b)" and "mem s' = mem s" and "\<And>p. p_prio (pcbs s' p) = p_prio (pcbs s p)"
proof -
  note sv = save_state_running[OF run]
  note R = runningD[OF sv(2)]
  have m: "mem (save_state s) k = 0" using k(3) by (simp add: sv(1))
  obtain s1 A1 where s1: "passeren k (save_state s) = Ret NOTHING s1" "kinv U s1 A1" "blocked_on k a (save_state s) A s1 A1"
    by (rule passeren_blocks[OF R(1,3,5) k(2) m])
  have "s1 = s1\<lparr>mem := mem s\<rparr>" using s1(3) by (simp add: blocked_on_def same_user_def sv(1))
  then have hs: "handle_syscall U (save_state s) = Ret NOTHING (s1\<lparr>mem := mem s\<rparr>)"
    unfolding handle_syscall_dispatch[OF run U req]
    by (simp add: Let_def syscall_numbers k(1)[symmetric] check_sem_pass[OF sv(2) U disjI1[OF m]] s1(1))
  have neg: "PASSEREN < 0" by (simp add: syscall_numbers)
  show thesis by (rule block_request[OF run U req neg hs s1(2,3) q that])
qed

text \<open>
  A request that wakes the first waiter of a semaphore and lets the caller go: the one woken goes to
  the end of its ready queue, the caller to the end of its own, and then the next process runs.
\<close>

lemma wake_request:
  assumes run: "running U a s A" and U: "layout_ok U" and req: "sys_request U s n" "n < 0" and w: "waiting s A k = t # ts"
    and hs: "handle_syscall U (save_state s) = Ret RENQUEUE s1" and s1: "kinv U s1 A1" "woken k t (save_state s) A s1 A1"
    and q: "(a_hq A @ at_prio PROCESS_PRIO_HIGH s t @ at_prio PROCESS_PRIO_HIGH s a) @
      (a_lq A @ at_prio PROCESS_PRIO_LOW s t @ at_prio PROCESS_PRIO_LOW s a) = b # bs"
  obtains s' A' where "exception_handler U s = Stop (Ldst (p_s (pcbs s' b))) s'" and "running U b s' A'"
    and "\<And>j. waiting s' A' j = (if j = k then ts else waiting s A j)" and "a_hq A' @ a_lq A' = bs"
    and "p_s (pcbs s' b) = loaded_state U (if b = a then (pcbs s a)\<lparr>p_s := past U (states s BIOSDATAPAGE)\<rparr> else pcbs s b)"
    and "\<And>p. p \<noteq> b \<Longrightarrow> p_s (pcbs s' p) = (if p = a then past U (states s BIOSDATAPAGE) else p_s (pcbs s p))"
    and "mem s' = mem s"
proof -
  note sv = save_state_running[OF run]
  note R = runningD[OF sv(2)]
  have ws: "waiting (save_state s) A j = waiting s A j" for j by (rule waiting_cong) (simp_all add: sv(1))
  have act: "act_proc s1 = Some a" "yielded_proc s1 = None" "a \<in> set (a_det A1)"
    using s1(2) R by (auto simp: woken_def same_user_def)
  have ta: "t \<noteq> a"
    using waiting_blocked(1)[OF krepD(4)[OF runningD(2)[OF run]], of t k] w
      det_not_elsewhere(4)[OF krepD(1)[OF runningD(2)[OF run]] runningD(5)[OF run]] by auto
  have pc: "pcbs s1 p = (if p = a then (pcbs s a)\<lparr>p_s := states s BIOSDATAPAGE\<rparr>
      else if p = t then (pcbs s t)\<lparr>p_semAdd := NULL\<rparr> else pcbs s p)" for p
    using s1(2) ta by (simp add: woken_def sv(1))
  have q1: "(a_hq A1 @ at_prio PROCESS_PRIO_HIGH s1 a) @ (a_lq A1 @ at_prio PROCESS_PRIO_LOW s1 a) = b # bs"
  proof -
    have "p_prio (pcbs (save_state s) x) = p_prio (pcbs s x)" for x by (simp add: sv(1))
    then have "a_hq A1 = a_hq A @ at_prio PROCESS_PRIO_HIGH s t" "a_lq A1 = a_lq A @ at_prio PROCESS_PRIO_LOW s t"
      using s1(2) by (simp_all add: woken_def at_prio_def)
    moreover have "at_prio pr s1 a = at_prio pr s a" for pr by (simp add: at_prio_def pc)
    ultimately show ?thesis using q by simp
  qed
  obtain s' A' where g: "gave_way U s a s1 A1 b bs s' A'"
    by (rule requeue_request[OF run U req hs s1(1) act q1])
  have ls: "loaded_state U (q\<lparr>p_semAdd := x\<rparr>) = loaded_state U q" for q x
    by (simp add: loaded_state_def loaded_status_def)
  have w1: "waiting s1 A1 j = (if j = k then ts else waiting s A j)" for j using s1(2) w by (simp add: woken_def ws)
  show thesis
  proof (rule that[of s' A'])
    show "p_s (pcbs s' b) = loaded_state U (if b = a then (pcbs s a)\<lparr>p_s := past U (states s BIOSDATAPAGE)\<rparr> else pcbs s b)"
      using g by (auto simp: gave_way_def pc ls)
    show "p_s (pcbs s' p) = (if p = a then past U (states s BIOSDATAPAGE) else p_s (pcbs s p))" if "p \<noteq> b" for p
      using g that by (auto simp: gave_way_def pc)
    show "mem s' = mem s" using g s1(2) by (simp add: gave_way_def woken_def same_user_def) (simp add: sv(1))
  qed (use g in \<open>simp_all add: gave_way_def w1\<close>)
qed

text \<open>A V on a semaphore that is 0 and has waiters.\<close>

lemma v_pass:
  assumes run: "running U a s A" and U: "layout_ok U" and req: "sys_request U s VERHOGEN"
    and k: "k = gpr (states s BIOSDATAPAGE) (reg_a1 U)" "mem s k = 0" and w: "waiting s A k = t # ts"
    and q: "(a_hq A @ at_prio PROCESS_PRIO_HIGH s t @ at_prio PROCESS_PRIO_HIGH s a) @
      (a_lq A @ at_prio PROCESS_PRIO_LOW s t @ at_prio PROCESS_PRIO_LOW s a) = b # bs"
  obtains s' A' where "exception_handler U s = Stop (Ldst (p_s (pcbs s' b))) s'" and "running U b s' A'"
    and "\<And>j. waiting s' A' j = (if j = k then ts else waiting s A j)" and "a_hq A' @ a_lq A' = bs"
    and "p_s (pcbs s' b) = loaded_state U (if b = a then (pcbs s a)\<lparr>p_s := past U (states s BIOSDATAPAGE)\<rparr> else pcbs s b)"
    and "\<And>p. p \<noteq> b \<Longrightarrow> p_s (pcbs s' p) = (if p = a then past U (states s BIOSDATAPAGE) else p_s (pcbs s p))"
    and "mem s' = mem s"
proof -
  note sv = save_state_running[OF run]
  have m: "mem (save_state s) k = 0" "mem (save_state s) k \<noteq> 1" using k(2) by (simp_all add: sv(1))
  have ws: "waiting (save_state s) A k = t # ts" using w waiting_cong[of A A "save_state s" s k] by (simp add: sv(1))
  obtain s1 A1 where s1: "verhogen k (save_state s) = Ret (Some t) s1" "kinv U s1 A1" "woken k t (save_state s) A s1 A1"
    using verhogen_passes(2)[OF runningD(1)[OF sv(2)] m(2) ws] by blast
  have hs: "handle_syscall U (save_state s) = Ret RENQUEUE s1"
    unfolding handle_syscall_dispatch[OF run U req]
    by (simp add: Let_def syscall_numbers k(1)[symmetric] check_sem_pass[OF sv(2) U disjI1[OF m(1)]] kbind_def s1(1)
        kreturn_def)
  have neg: "VERHOGEN < 0" by (simp add: syscall_numbers)
  show thesis by (rule wake_request[OF run U req neg w hs s1(2,3) q that])
qed

section \<open>Exceptions passed up\<close>

text \<open>The kind under which an exception of a running process is passed up, if it is.\<close>

definition passed_kind :: "'h plat \<Rightarrow> 'h kst \<Rightarrow> nat option" where
  "passed_kind U s =
     (let c = CAUSE_GET_EXCCODE U (cause (states s BIOSDATAPAGE))
      in if c = EXC_INT U then None
         else if c \<in> {EXC_MOD U, EXC_TLBL U, EXC_TLBS U} then Some PGFAULTEXCEPT
         else if c \<in> {EXC_ADEL U, EXC_ADES U, EXC_IBE U, EXC_DBE U, EXC_BP U, EXC_RI U, EXC_CPU U, EXC_OV U}
         then Some GENERALEXCEPT
         else if c = EXC_SYS U \<and> (drop_bit (STATUS_KUp_BIT U) (getSTATUS U (hw s) AND STATUS_KUp U) \<noteq> 0 \<or>
                0 \<le> sint (gpr (states s BIOSDATAPAGE) (reg_a0 U)))
         then Some GENERALEXCEPT else None)"

text \<open>Such an exception is handed to \<open>passup_or_die\<close> in a state that agrees with the one it came in.\<close>

lemma passed_up:
  assumes run: "running U a s A" and kind: "passed_kind U s = Some kind"
  obtains s1 where "handle_cause U (CAUSE_GET_EXCCODE U (cause (states s BIOSDATAPAGE))) (save_state s) = passup_or_die kind s1"
    and "running U a s1 A" and "states s1 = states s" and "supports s1 = supports s" and "mem s1 = mem s"
    and "\<And>p. p_supportStruct (pcbs s1 p) = p_supportStruct (pcbs s p)" and "\<And>p. p_parent (pcbs s1 p) = p_parent (pcbs s p)"
proof -
  let ?c = "CAUSE_GET_EXCCODE U (cause (states s BIOSDATAPAGE))"
  note sv = save_state_running[OF run]
  note R = runningD[OF sv(2)]
  have keep: "running U a (LOGi ''K'' ''ex'' ?c (save_state s)) A" "running U a (mark_privileged a (save_state s)) A"
    using kinv_cong[OF R(1), of "mark_privileged a (save_state s)"] LOGi_kinv[OF R(1)] R
    by (simp_all add: running_def mark_privileged_def)
  have ni: "?c \<noteq> EXC_INT U" using kind by (auto simp: passed_kind_def Let_def)
  consider (tlb) "?c \<in> {EXC_MOD U, EXC_TLBL U, EXC_TLBS U}" "kind = PGFAULTEXCEPT"
    | (trap) "?c \<notin> {EXC_MOD U, EXC_TLBL U, EXC_TLBS U}"
        "?c \<in> {EXC_ADEL U, EXC_ADES U, EXC_IBE U, EXC_DBE U, EXC_BP U, EXC_RI U, EXC_CPU U, EXC_OV U}" "kind = GENERALEXCEPT"
    | (sys) "sys_code U ?c" "kind = GENERALEXCEPT"
        "drop_bit (STATUS_KUp_BIT U) (getSTATUS U (hw s) AND STATUS_KUp U) \<noteq> 0 \<or> 0 \<le> sint (gpr (states s BIOSDATAPAGE) (reg_a0 U))"
    using kind ni unfolding passed_kind_def sys_code_def Let_def by (auto split: if_splits)
  then show thesis
  proof cases
    case tlb
    then have "handle_cause U ?c (save_state s) = passup_or_die kind (save_state s)" using ni by (auto simp: handle_cause_def)
    then show thesis by (rule that) (simp_all add: sv(2), simp_all add: sv(1))
  next
    case trap
    then have "handle_cause U ?c (save_state s) = passup_or_die kind (LOGi ''K'' ''ex'' ?c (save_state s))"
      using ni by (auto simp: handle_cause_def kseq_def kbind_def kmodify_def)
    then show thesis by (rule that) (simp_all add: keep(1), simp_all add: sv(1))
  next
    case sys
    have st: "p_s (pcbs (save_state s) a) = states s BIOSDATAPAGE" "hw (save_state s) = hw s" by (simp_all add: sv(1))
    have "handle_cause U ?c (save_state s) = passup_or_die kind (mark_privileged a (save_state s))"
      unfolding handle_cause_sys[OF sys(1)] using sys(2,3)
      by (auto simp: handle_sys_def R(3) Let_def st kseq_def kbind_def kmodify_def)
    then show thesis by (rule that) (simp_all add: keep(2), simp_all add: sv(1) mark_privileged_def)
  qed
qed

lemma passup_or_die_cases:
  assumes "running U a s A"
  shows "let sa = p_supportStruct (pcbs s a) in
    if sa = NULL
    then \<exists>s' A'. passup_or_die kind s = Ret NOTHING (LOG ''E'' ''Dying'' s') \<and> kinv U s' A' \<and>
           killed (descendants s A a) s A s' A'
    else \<exists>s'. passup_or_die kind s =
             Stop (Ldcxt (cx_stackPtr (sup_exceptContext (supports s sa) kind))
                         (cx_status (sup_exceptContext (supports s sa) kind))
                         (cx_pc (sup_exceptContext (supports s sa) kind))) s' \<and>
           s' = set_exceptState sa kind (states s BIOSDATAPAGE) s \<and> running U a s' A"
proof (cases "p_supportStruct (pcbs s a) = NULL")
  case True
  note R = runningD[OF assms]
  obtain s' A' where k: "kill_parent_and_progeny (Some a) s = Ret () s'" "kinv U s' A'"
    "killed (descendants s A a) s A s' A'" by (rule kill_parent_and_progeny_kinv[OF R(1,6)])
  have "passup_or_die kind s = Ret NOTHING (LOG ''E'' ''Dying'' s')"
    using True by (simp add: passup_or_die_def R(3) Let_def kseq_def kbind_def k(1) kmodify_def kreturn_def)
  then show ?thesis using True k by (auto simp: Let_def)
next
  case False
  note R = runningD[OF assms]
  let ?sa = "p_supportStruct (pcbs s a)"
  let ?s' = "set_exceptState ?sa kind (states s BIOSDATAPAGE) s"
  have "kinv U ?s' A" by (rule kinv_cong[OF R(1)]) (simp_all add: set_exceptState_def)
  then have "running U a ?s' A" using assms by (simp add: running_def set_exceptState_def)
  then show ?thesis
    using False by (simp add: passup_or_die_def R(3) Let_def kseq_def kbind_def kmodify_def kread_def kstop_def)
      (simp add: set_exceptState_def)
qed

lemma descendants_cong:
  assumes "\<And>p. p_parent (pcbs s' p) = p_parent (pcbs s p)"
  shows "descendants s' A p = descendants s A p"
  using assms by (simp add: descendants_def tree_rel_def)

lemma passed_up_pass:
  assumes run: "running U a s A" and kind: "passed_kind U s = Some kind" and sa: "p_supportStruct (pcbs s a) \<noteq> NULL"
  obtains s' where "exception_handler U s =
      Stop (Ldcxt (cx_stackPtr (sup_exceptContext (supports s (p_supportStruct (pcbs s a))) kind))
                  (cx_status (sup_exceptContext (supports s (p_supportStruct (pcbs s a))) kind))
                  (cx_pc (sup_exceptContext (supports s (p_supportStruct (pcbs s a))) kind))) s'"
    and "supports s' = supports (set_exceptState (p_supportStruct (pcbs s a)) kind (states s BIOSDATAPAGE) s)"
    and "running U a s' A" and "p_supportStruct (pcbs s' a) = p_supportStruct (pcbs s a)" and "mem s' = mem s"
proof -
  obtain s1 where s1: "handle_cause U (CAUSE_GET_EXCCODE U (cause (states s BIOSDATAPAGE))) (save_state s) = passup_or_die kind s1"
    "running U a s1 A" "states s1 = states s" "supports s1 = supports s"
    "\<And>p. p_supportStruct (pcbs s1 p) = p_supportStruct (pcbs s p)" "mem s1 = mem s" by (rule passed_up[OF run kind]) blast
  have "p_supportStruct (pcbs s1 a) \<noteq> NULL" using sa s1(5) by simp
  then obtain s' where s': "passup_or_die kind s1 =
      Stop (Ldcxt (cx_stackPtr (sup_exceptContext (supports s (p_supportStruct (pcbs s a))) kind))
                  (cx_status (sup_exceptContext (supports s (p_supportStruct (pcbs s a))) kind))
                  (cx_pc (sup_exceptContext (supports s (p_supportStruct (pcbs s a))) kind))) s'"
    "s' = set_exceptState (p_supportStruct (pcbs s a)) kind (states s BIOSDATAPAGE) s1" "running U a s' A"
    using passup_or_die_cases[OF s1(2), of kind] unfolding s1(3-5) Let_def by auto
  show thesis
  proof (rule that[OF _ _ s'(3)])
    show "exception_handler U s = Stop (Ldcxt (cx_stackPtr (sup_exceptContext (supports s (p_supportStruct (pcbs s a))) kind))
        (cx_status (sup_exceptContext (supports s (p_supportStruct (pcbs s a))) kind))
        (cx_pc (sup_exceptContext (supports s (p_supportStruct (pcbs s a))) kind))) s'"
      unfolding exception_handler_unfold by (rule kbind_Stop, unfold s1(1), rule s'(1))
  qed (simp_all add: s'(2) set_exceptState_def s1(4-6))
qed

lemma killed_pass:
  assumes run: "running U a s A" and U: "layout_ok U" and kind: "passed_kind U s = Some kind"
    and sa: "p_supportStruct (pcbs s a) = NULL"
    and q: "filter (\<lambda>x. x \<notin> descendants s A a) (a_hq A @ a_lq A) = b # bs"
  obtains s' A' where "exception_handler U s = Stop (Ldst (p_s (pcbs s' b))) s'" and "running U b s' A'"
    and "set (a_alive A') = set (a_alive A) - descendants s A a" and "a_hq A' @ a_lq A' = bs"
proof -
  obtain s1 where s1: "handle_cause U (CAUSE_GET_EXCCODE U (cause (states s BIOSDATAPAGE))) (save_state s) = passup_or_die kind s1"
    "running U a s1 A" "\<And>p. p_supportStruct (pcbs s1 p) = p_supportStruct (pcbs s p)"
    "\<And>p. p_parent (pcbs s1 p) = p_parent (pcbs s p)" by (rule passed_up[OF run kind]) blast
  obtain s2 A2 where s2: "passup_or_die kind s1 = Ret NOTHING (LOG ''E'' ''Dying'' s2)" "kinv U s2 A2"
    "killed (descendants s A a) s1 A s2 A2"
    using passup_or_die_cases[OF s1(2), of kind] sa unfolding s1(3) descendants_cong[OF s1(4)] by auto
  let ?s2 = "LOG ''E'' ''Dying'' s2"
  have st: "act_proc ?s2 = Some a" "yielded_proc ?s2 = None"
    using s2(3) runningD[OF s1(2)] by (simp_all add: killed_def same_user_def)
  have q2: "a_hq A2 @ a_lq A2 = b # bs" using s2(3) q by (simp add: killed_def)
  obtain s' where s': "kseq (update_age U) (kseq (resume U NOTHING) (scheduler_next U)) ?s2 = Stop (Ldst (p_s (pcbs s' b))) s'"
    "handed U b ?s2 A2 s'" by (rule nothing_pass[OF LOG_kinv[OF s2(2)] st U q2])
  have wf: "pcbs_wf A2" using s2(2) krepD(1) by (auto simp: kinv_def)
  have "b \<in> set (a_hq A2) \<or> b \<in> set (a_lq A2)" by (metis Un_iff list.set_intros(1) q2 set_append)
  then have "set (a_alive (a_deq b A2)) = set (a_alive A2)" by (rule mset_eq_setD[OF a_deq_alive(2)[OF wf]])
  then have al: "set (a_alive (a_deq b A2)) = set (a_alive A) - descendants s A a" using s2(3) by (simp add: killed_def)
  show thesis
  proof (rule that)
    show "exception_handler U s = Stop (Ldst (p_s (pcbs s' b))) s'"
      unfolding exception_handler_unfold s'(1)[symmetric] by (rule kbind_Ret) (simp add: s1(1) s2(1))
    show "running U b s' (a_deq b A2)" using s'(2) by (simp add: handed_def)
  qed (fact al a_deq_head[OF wf q2])+
qed

section \<open>Time slices\<close>

text \<open>The interrupt of the processor's timer is the first one pending.\<close>

definition slice_over :: "'h plat \<Rightarrow> 'h kst \<Rightarrow> bool" where
  "slice_over U s \<longleftrightarrow>
     CAUSE_GET_EXCCODE U (cause (states s BIOSDATAPAGE)) = EXC_INT U \<and>
     pending_line U s = Some (IL_CPUTIMER U) \<and> IL_CPUTIMER U \<noteq> IL_IPI U"

lemma slice_pass:
  assumes run: "running U a s A" and U: "layout_ok U" and over: "slice_over U s"
    and low: "p_prio (pcbs s a) = PROCESS_PRIO_LOW" and hq: "a_hq A = []"
  obtains b s' A' where "exception_handler U s = Stop (Ldst (p_s (pcbs s' b))) s'" and "running U b s' A'"
    and "b # a_lq A' = a_lq A @ [a]" and "a_hq A' = []" and "p_prio (pcbs s' b) = PROCESS_PRIO_LOW"
    and "p_s (pcbs s' b) = loaded_state U (if b = a then (pcbs s a)\<lparr>p_s := states s BIOSDATAPAGE\<rparr> else pcbs s b)"
    and "a \<noteq> b \<Longrightarrow> p_s (pcbs s' a) = states s BIOSDATAPAGE" and "mem s' = mem s"
proof -
  note sv = save_state_running[OF run]
  note R1 = runningD[OF sv(2)]
  let ?c = "CAUSE_GET_EXCCODE U (cause (states s BIOSDATAPAGE))"
  let ?s2 = "upd_hw (setTIMER U (plt_value (save_state s))) (save_state s)"
  have pend: "pending_line U (save_state s) = Some (IL_CPUTIMER U)" and code: "?c = EXC_INT U"
    and ne: "IL_CPUTIMER U \<noteq> IL_IPI U"
    using over by (simp_all add: slice_over_def pending_line_def sv(1))
  have hc: "handle_cause U ?c (save_state s) = Ret RENQUEUE ?s2"
    using pend ne by (simp add: code handle_cause_def handle_interrupts_def kseq_def kbind_def kmodify_def kreturn_def)
  have s2: "kinv U ?s2 A" "act_proc ?s2 = Some a" "yielded_proc ?s2 = None" using R1 upd_hw_kinv[OF R1(1)] by simp_all
  have pc2: "pcbs ?s2 p = (if p = a then (pcbs s a)\<lparr>p_s := states s BIOSDATAPAGE\<rparr> else pcbs s p)" for p
    by (simp add: sv(1))
  have pr: "p_prio (pcbs ?s2 a) = PROCESS_PRIO_LOW" using low unfolding pc2 by simp
  obtain b bs where b: "a_lq A @ [a] = b # bs" by (cases "a_lq A @ [a]") auto
  let ?A2 = "a_enq PROCESS_PRIO_LOW a A"
  have q: "a_hq (a_enq (p_prio (pcbs ?s2 a)) a A) @ a_lq (a_enq (p_prio (pcbs ?s2 a)) a A) = b # bs"
    unfolding pr by (simp add: hq b)
  obtain s' where s': "kseq (update_age U) (kseq (resume U RENQUEUE) (scheduler_next U)) ?s2 = Stop (Ldst (p_s (pcbs s' b))) s'"
    "handed U b ?s2 (a_enq (p_prio (pcbs ?s2 a)) a A) s'"
    by (rule requeue_pass[OF s2 R1(5) U q])
  have h: "handed U b ?s2 ?A2 s'" using s'(2) unfolding pr .
  have lowb: "p_prio (pcbs ?s2 b) = PROCESS_PRIO_LOW"
  proof -
    have "b \<in> set (a_lq A) \<or> b = a" using b by (metis append_Nil hd_append list.sel(1) list.set_sel(1))
    then show ?thesis using pr prio_okD(1)[of ?s2 A b] s2(1) by (auto simp: kinv_def)
  qed
  show thesis
  proof (rule that)
    show "exception_handler U s = Stop (Ldst (p_s (pcbs s' b))) s'"
      unfolding exception_handler_unfold kbind_Ret[where m = "handle_cause U ?c", OF hc] by (rule s'(1))
    show "running U b s' (a_deq b ?A2)" "p_prio (pcbs s' b) = PROCESS_PRIO_LOW" "mem s' = mem s"
      using h lowb by (simp_all add: handed_def sv(1))
    show "b # a_lq (a_deq b ?A2) = a_lq A @ [a]" "a_hq (a_deq b ?A2) = []" by (simp_all add: b hq)
    show "p_s (pcbs s' b) = loaded_state U (if b = a then (pcbs s a)\<lparr>p_s := states s BIOSDATAPAGE\<rparr> else pcbs s b)"
      using h unfolding handed_def pc2 by simp
    show "p_s (pcbs s' a) = states s BIOSDATAPAGE" if "a \<noteq> b" using h that unfolding handed_def pc2 by simp
  qed
qed

text \<open>
  Runs in which nothing but the end of a slice enters the kernel: during its slice the process
  computes, which changes what is not the kernel's.
\<close>

inductive slices :: "'h plat \<Rightarrow> 'h kst \<Rightarrow> nat \<Rightarrow> 'h machine \<Rightarrow> bool" for U s0 where
  first: "slices U s0 0 (Running, s0)"
| slice: "slices U s0 n (Running, s) \<Longrightarrow> slice_over U (outside m st su h s) \<Longrightarrow>
    slices U s0 (Suc n) (kernel_exit (exception_handler U (outside m st su h s)))"

text \<open>They are runs of the machine.\<close>

lemma pending_line_save_state: "pending_line U (save_state s) = pending_line U s"
  by (simp add: pending_line_def save_state_def split: option.split)

lemma slice_exc_ok:
  assumes "slice_over U s" and "EXC_INT U \<noteq> EXC_SYS U"
  shows "exc_ok U s"
proof -
  have "irq_ok U (save_state s) (IL_CPUTIMER U)" by (simp add: irq_ok_def irq_sem_def irq_base_def)
  then show ?thesis
    using assms unfolding exc_ok_def slice_over_def Let_def pending_line_save_state by simp
qed

lemma slices_steps:
  assumes "slices U s0 n m" and "EXC_INT U \<noteq> EXC_SYS U"
  shows "(step U)\<^sup>*\<^sup>* (Running, s0) m"
  using assms(1)
proof (induction rule: slices.induct)
  case (slice n s mm st su h)
  have "step U (Running, s) (Running, outside mm st su h s)" by (rule step.user) simp
  moreover have "step U (Running, outside mm st su h s) (kernel_exit (exception_handler U (outside mm st su h s)))"
    by (rule step.exception) (use slice_exc_ok[OF slice.hyps(2) assms(2)] in simp_all)
  ultimately show ?case using slice.IH by (meson rtranclp.rtrancl_into_rtrancl)
qed simp

lemma outside_running: "running U a s A \<Longrightarrow> running U a (outside m st su h s) A"
  by (simp add: running_def outside_kinv)

lemma outside_waiting: "waiting (outside m st su h s) A j = waiting s A j"
  by (rule waiting_cong) (simp_all add: outside_def)

lemma slices_rotate:
  assumes "slices U s0 n m" and "running U a s0 A" and U: "layout_ok U"
    and "p_prio (pcbs s0 a) = PROCESS_PRIO_LOW" and "a_hq A = []"
  shows "\<exists>b s A'. m = (Running, s) \<and> running U b s A' \<and> b # a_lq A' = rotate n (a # a_lq A) \<and> a_hq A' = [] \<and>
    p_prio (pcbs s b) = PROCESS_PRIO_LOW"
  using assms(1)
proof (induction rule: slices.induct)
  case first
  then show ?case using assms(2,4,5) by auto
next
  case (slice n s mm st su h)
  then obtain b A1 where b: "running U b s A1" "b # a_lq A1 = rotate n (a # a_lq A)" "a_hq A1 = []"
    "p_prio (pcbs s b) = PROCESS_PRIO_LOW" by auto
  have "p_prio (pcbs (outside mm st su h s) b) = PROCESS_PRIO_LOW" using b(4) by (simp add: outside_def)
  with slice_pass[OF outside_running[OF b(1)] U slice.hyps(2) _ b(3)]
  obtain c s' A' where c: "exception_handler U (outside mm st su h s) = Stop (Ldst (p_s (pcbs s' c))) s'"
    "running U c s' A'" "c # a_lq A' = a_lq A1 @ [b]" "a_hq A' = []" "p_prio (pcbs s' c) = PROCESS_PRIO_LOW"
    by blast
  have "c # a_lq A' = rotate (Suc n) (a # a_lq A)" using c(3) by (simp add: b(2)[symmetric])
  then show ?case using c by auto
qed

end
