(* ===== verification/Utils.thy ===== *)
theory Utils
  imports Klog
begin

text \<open>
  \<open>src/utils.c\<close>: copying memory and the string routines of the debugging helper, on a memory
  of characters addressed by numbers. \<open>_strcat\<close> is shown right also when its result
  overwrites its first argument, as \<open>dbg_var\<close> uses it, and \<open>_itoa\<close> for every \<open>int\<close>,
  the smallest one included.
\<close>

type_synonym bytes = "nat \<Rightarrow> char"

section \<open>The operations of utils.c\<close>

definition memcpy :: "nat \<Rightarrow> nat \<Rightarrow> nat \<Rightarrow> bytes \<Rightarrow> bytes" where
  "memcpy dest src n m = fold (\<lambda>i m. m(dest + i := m (src + i))) [0..<n] m"

definition swap_chars :: "nat \<Rightarrow> nat \<Rightarrow> bytes \<Rightarrow> bytes" where
  "swap_chars x y m = (let t = m x; m1 = m(x := m y) in m1(y := t))"

text \<open>\<open>while (n) \{ *(buff\_ptr++) = '0' + (n % 10); n /= 10; \}\<close>\<close>

function itoa_digits :: "nat \<Rightarrow> nat \<Rightarrow> bytes \<Rightarrow> nat \<times> bytes" where
  "itoa_digits n p m =
     (if n = 0 then (p, m) else itoa_digits (n div 10) (Suc p) (m(p := char_of (48 + n mod 10))))"
  by auto
termination by (relation "measure (\<lambda>(n, p, m). n)") auto

text \<open>\<open>while (i < buff\_ptr) \_swap(i++, buff\_ptr--);\<close>\<close>

function reverse_loop :: "nat \<Rightarrow> nat \<Rightarrow> bytes \<Rightarrow> bytes" where
  "reverse_loop i j m = (if i < j then reverse_loop (Suc i) (j - 1) (swap_chars i j m) else m)"
  by auto
termination by (relation "measure (\<lambda>(i, j, m). j - i)") auto

declare itoa_digits.simps [simp del] reverse_loop.simps [simp del]

definition itoa :: "int \<Rightarrow> nat \<Rightarrow> bytes \<Rightarrow> bytes" where
  "itoa number buffer m =
     (if number = 0 then m(buffer := CHR ''0'', buffer + 1 := CHR 0x00)
      else let n = unat (word_of_int (if number < 0 then wrap_int (- 1 * number) else number) :: u32);
               (p, m1) = itoa_digits n buffer m;
               (p2, m2) = (if number < 0 then (Suc p, m1(p := CHR ''-'')) else (p, m1));
               m3 = m2(p2 := CHR 0x00)
           in reverse_loop buffer (p2 - 1) m3)"

text \<open>One of the two copying loops of \<open>_strcat\<close>; it ends at the terminator, if there is one.\<close>

partial_function (option) copy_string :: "nat \<Rightarrow> nat \<Rightarrow> bytes \<Rightarrow> (nat \<times> bytes) option" where
  "copy_string p b m =
     (if m p = CHR 0x00 then Some (b, m) else copy_string (Suc p) (Suc b) (m(b := m p)))"

definition strcat :: "nat \<Rightarrow> nat \<Rightarrow> nat \<Rightarrow> bytes \<Rightarrow> bytes option" where
  "strcat first second buffer m =
     Option.bind (copy_string first buffer m) (\<lambda>(b, m1).
     Option.bind (copy_string second b m1) (\<lambda>(b2, m2).
     Some (m2(b2 := CHR 0x00))))"

text \<open>The string a pointer leads to.\<close>

partial_function (option) read_string :: "bytes \<Rightarrow> nat \<Rightarrow> string option" where
  "read_string m p =
     (if m p = CHR 0x00 then Some [] else Option.bind (read_string m (Suc p)) (\<lambda>s. Some (m p # s)))"

text \<open>\<open>dbg_var\<close>, with the addresses of its argument and of its three local arrays.\<close>

definition dbg_var :: "nat \<Rightarrow> int \<Rightarrow> nat \<Rightarrow> nat \<Rightarrow> nat \<Rightarrow> bytes \<Rightarrow> klog \<Rightarrow> (bytes \<times> klog) option" where
  "dbg_var name var var_str res c m k =
     (let m0 = m(c := CHR '' '', c + 1 := CHR '':'', c + 2 := CHR '' '', c + 3 := CHR 0x00)
      in Option.bind (strcat name c res (itoa var var_str m0)) (\<lambda>m1.
         Option.bind (strcat res var_str res m1) (\<lambda>m2.
         map_option (\<lambda>s. (m2, log_msg [] s k)) (read_string m2 res))))"

section \<open>Strings in memory\<close>

definition string_at :: "bytes \<Rightarrow> nat \<Rightarrow> string \<Rightarrow> bool" where
  "string_at m p s \<longleftrightarrow> CHR 0x00 \<notin> set s \<and> (\<forall>i<length s. m (p + i) = s ! i) \<and> m (p + length s) = CHR 0x00"

lemma string_at_Nil: "string_at m p [] \<longleftrightarrow> m p = CHR 0x00"
  by (simp add: string_at_def)

lemma string_at_Cons:
  "string_at m p (c # s) \<longleftrightarrow> c \<noteq> CHR 0x00 \<and> m p = c \<and> string_at m (Suc p) s"
  by (auto simp: string_at_def less_Suc_eq_0_disj) 

lemma string_at_cong:
  "string_at m p s \<Longrightarrow> (\<And>i. i \<le> length s \<Longrightarrow> m' (p + i) = m (p + i)) \<Longrightarrow> string_at m' p s"
  by (auto simp: string_at_def)

lemma read_string_at: "string_at m p s \<Longrightarrow> read_string m p = Some s"
proof (induction s arbitrary: p)
  case Nil
  then show ?case by (subst read_string.simps) (simp add: string_at_Nil)
next
  case (Cons c s)
  then show ?case by (subst read_string.simps) (simp add: string_at_Cons)
qed

lemma string_at_unique: "string_at m p s \<Longrightarrow> string_at m p t \<Longrightarrow> s = t"
  by (metis read_string_at option.inject)

section \<open>memcpy\<close>

lemma memcpy_run:
  assumes "src + n \<le> dest \<or> dest \<le> src"
  shows "memcpy dest src n m = (\<lambda>a. if dest \<le> a \<and> a < dest + n then m (src + (a - dest)) else m a)"
proof -
  have "k \<le> n \<Longrightarrow> fold (\<lambda>i m. m(dest + i := m (src + i))) [0..<k] m =
      (\<lambda>a. if dest \<le> a \<and> a < dest + k then m (src + (a - dest)) else m a)" for k
  proof (induction k)
    case (Suc k)
    then show ?case using assms by (auto simp: fun_eq_iff not_less less_Suc_eq)
  qed (auto simp: fun_eq_iff)
  then show ?thesis by (simp add: memcpy_def)
qed

section \<open>strcat\<close>

lemma copy_string_run:
  assumes "string_at m p s" and "b = p \<or> p + length s < b \<or> b + length s \<le> p"
  shows "\<exists>m'. copy_string p b m = Some (b + length s, m') \<and>
    (\<forall>i<length s. m' (b + i) = s ! i) \<and> (\<forall>a. a < b \<or> b + length s \<le> a \<longrightarrow> m' a = m a)"
  using assms
proof (induction s arbitrary: p b m)
  case Nil
  then show ?case by (subst copy_string.simps) (simp add: string_at_Nil)
next
  case (Cons c s)
  let ?m1 = "m(b := m p)"
  have c: "c \<noteq> CHR 0x00" "m p = c" "string_at m (Suc p) s" using Cons.prems(1) by (simp_all add: string_at_Cons)
  have s1: "string_at ?m1 (Suc p) s"
    by (rule string_at_cong[OF c(3)]) (use Cons.prems(2) in auto)
  have "Suc b = Suc p \<or> Suc p + length s < Suc b \<or> Suc b + length s \<le> Suc p" using Cons.prems(2) by auto
  from Cons.IH[OF s1 this] obtain m' where m': "copy_string (Suc p) (Suc b) ?m1 = Some (Suc b + length s, m')"
    "\<forall>i<length s. m' (Suc b + i) = s ! i" "\<forall>a. a < Suc b \<or> Suc b + length s \<le> a \<longrightarrow> m' a = ?m1 a" by blast
  have "copy_string p b m = Some (b + length (c # s), m')"
    by (subst copy_string.simps) (use c m'(1) in simp)
  moreover have "\<forall>i<length (c # s). m' (b + i) = (c # s) ! i"
    using m'(2,3) c(2) by (auto simp: nth_Cons split: nat.split)
  moreover have "\<forall>a. a < b \<or> b + length (c # s) \<le> a \<longrightarrow> m' a = m a" using m'(3) by auto
  ultimately show ?case by blast
qed

lemma strcat_run:
  assumes s: "string_at m first s" and t: "string_at m second t"
    and b: "buffer = first \<or> first + length s < buffer \<or> buffer + length s \<le> first"
    and b2: "second + length t < buffer \<or> buffer + length s + length t < second"
  shows "\<exists>m'. strcat first second buffer m = Some m' \<and> string_at m' buffer (s @ t) \<and>
    (\<forall>a. a < buffer \<or> buffer + length s + length t < a \<longrightarrow> m' a = m a)"
proof -
  obtain m1 where m1: "copy_string first buffer m = Some (buffer + length s, m1)"
    "\<forall>i<length s. m1 (buffer + i) = s ! i" "\<forall>a. a < buffer \<or> buffer + length s \<le> a \<longrightarrow> m1 a = m a"
    using copy_string_run[OF s b] by blast
  have t1: "string_at m1 second t" by (rule string_at_cong[OF t]) (use m1(3) b2 in auto)
  have "buffer + length s = second \<or> second + length t < buffer + length s \<or> buffer + length s + length t \<le> second"
    using b2 by auto
  from copy_string_run[OF t1 this] obtain m2 where
    m2: "copy_string second (buffer + length s) m1 = Some (buffer + length s + length t, m2)"
    "\<forall>i<length t. m2 (buffer + length s + i) = t ! i"
    "\<forall>a. a < buffer + length s \<or> buffer + length s + length t \<le> a \<longrightarrow> m2 a = m1 a" by blast
  let ?m' = "m2(buffer + length s + length t := CHR 0x00)"
  have "strcat first second buffer m = Some ?m'" by (simp add: strcat_def m1(1) m2(1))
  moreover have "?m' (buffer + i) = (s @ t) ! i" if "i < length s + length t" for i
  proof (cases "i < length s")
    case True
    then show ?thesis using m1(2) m2(3) by (simp add: nth_append)
  next
    case False
    then show ?thesis using m2(2)[rule_format, of "i - length s"] that by (simp add: nth_append)
  qed
  then have "string_at ?m' buffer (s @ t)" using s t by (auto simp: string_at_def add.assoc)
  moreover have "\<forall>a. a < buffer \<or> buffer + length s + length t < a \<longrightarrow> ?m' a = m a" using m1(3) m2(3) by auto
  ultimately show ?thesis by blast
qed

section \<open>itoa\<close>

lemma itoa_digits_run:
  "itoa_digits n p m = (p + length (if n = 0 then [] else decimal n),
     \<lambda>a. if p \<le> a \<and> a < p + length (if n = 0 then [] else decimal n)
         then rev (decimal n) ! (a - p) else m a)"
proof (induction n p m rule: itoa_digits.induct)
  case (1 n p m)
  show ?case
  proof (cases "n = 0")
    case True
    then show ?thesis by (subst itoa_digits.simps) (auto simp: fun_eq_iff)
  next
    case False
    note IH = "1.IH"[OF False]
    show ?thesis
    proof (cases "n < 10")
      case True
      then have d: "n div 10 = 0" "n mod 10 = n" "decimal n = [char_of (48 + n)]"
        by (simp_all add: decimal.simps)
      have "itoa_digits n p m = itoa_digits 0 (Suc p) (m(p := char_of (48 + n)))"
        using False d by (subst itoa_digits.simps) simp
      also have "\<dots> = (Suc p, m(p := char_of (48 + n)))" by (subst itoa_digits.simps) simp
      finally show ?thesis using False d by (auto simp: fun_eq_iff)
    next
      case big: False
      then have d: "n div 10 \<noteq> 0" "decimal n = decimal (n div 10) @ [char_of (48 + n mod 10)]"
        by (auto simp: decimal.simps[of n])
      have "itoa_digits n p m = itoa_digits (n div 10) (Suc p) (m(p := char_of (48 + n mod 10)))"
        using False by (subst itoa_digits.simps) simp
      then show ?thesis unfolding IH using False d(1)
        by (auto simp: fun_eq_iff nth_Cons' Suc_le_eq d(2))
    qed
  qed
qed

lemma swap_chars_apply: "swap_chars i j m a = (if a = j then m i else if a = i then m j else m a)"
  by (auto simp: swap_chars_def Let_def)

lemma reverse_loop_run:
  "reverse_loop i j m a = (if i \<le> a \<and> a \<le> j then m (i + j - a) else m a)"
proof (induction i j m rule: reverse_loop.induct)
  case (1 i j m)
  show ?case
  proof (cases "i < j")
    case True
    have "reverse_loop i j m a = reverse_loop (Suc i) (j - 1) (swap_chars i j m) a"
      using True by (subst reverse_loop.simps) simp
    also have "\<dots> = (if Suc i \<le> a \<and> a \<le> j - 1 then swap_chars i j m (Suc i + (j - 1) - a) else swap_chars i j m a)"
      by (rule "1.IH"[OF True])
    also have "\<dots> = (if i \<le> a \<and> a \<le> j then m (i + j - a) else m a)"
      using True by (auto simp: swap_chars_apply)
    finally show ?thesis .
  next
    case False
    then show ?thesis by (subst reverse_loop.simps) (auto intro!: arg_cong[where f = m])
  qed
qed

text \<open>The numeral of an \<open>int\<close> as \<open>_itoa\<close> writes it.\<close>

definition int_numeral :: "int \<Rightarrow> string" where
  "int_numeral x = (if x < 0 then ''-'' @ decimal (nat (- x)) else decimal (nat x))"

lemma decimal_plain: "CHR 0x00 \<notin> set (decimal n)"
proof (induction n rule: decimal.induct)
  case (1 n)
  then show ?case using digit_char_plain[of "n mod 10"] digit_char_plain[of n]
    by (subst decimal.simps) auto
qed

lemma decimal_nonempty: "0 < length (decimal n)"
  by (subst decimal.simps) simp

lemma decimal_length: "n < 10 ^ Suc k \<Longrightarrow> length (decimal n) \<le> Suc k"
proof (induction k arbitrary: n)
  case 0
  then show ?case by (subst decimal.simps) simp
next
  case (Suc k)
  have "n div 10 < 10 ^ Suc k" using Suc.prems by (simp add: div_less_iff_less_mult)
  from Suc.IH[OF this] show ?case by (subst decimal.simps) simp
qed

lemma int_numeral_length:
  assumes "- (2 ^ 31) \<le> x" and "x < 2 ^ 31"
  shows "length (int_numeral x) \<le> 11"
proof -
  have "nat \<bar>x\<bar> < 10 ^ Suc 9" using assms by simp
  from decimal_length[OF this] show ?thesis by (auto simp: int_numeral_def)
qed

lemma int_bits_nat:
  assumes "- (2 ^ 31) \<le> x" and "x < 2 ^ 31" and "x \<noteq> 0"
  shows "unat (word_of_int (if x < 0 then wrap_int (- 1 * x) else x) :: u32) = nat \<bar>x\<bar>"
proof -
  have w: "(word_of_int (wrap_int y) :: u32) = word_of_int y" for y by (simp add: wrap_int_def)
  have "uint (word_of_int \<bar>x\<bar> :: u32) = \<bar>x\<bar>"
    using assms by (simp add: uint_word_of_int)
  then have "unat (word_of_int \<bar>x\<bar> :: u32) = nat \<bar>x\<bar>" by (simp add: unat_eq_nat_uint)
  moreover have "(word_of_int (if x < 0 then wrap_int (- 1 * x) else x) :: u32) = word_of_int \<bar>x\<bar>"
  proof (cases "x < 0")
    case True
    then show ?thesis by (simp only: w if_True abs_of_neg mult_minus1)
  next
    case False
    then have "\<bar>x\<bar> = x" by simp
    then show ?thesis by (simp only: False if_False)
  qed
  ultimately show ?thesis by (simp only:)
qed

lemma itoa_run:
  assumes "- (2 ^ 31) \<le> x" and "x < 2 ^ 31"
  shows "string_at (itoa x buffer m) buffer (int_numeral x)"
    and "a < buffer \<or> buffer + length (int_numeral x) < a \<Longrightarrow> itoa x buffer m a = m a"
proof -
  have goal: "string_at (itoa x buffer m) buffer (int_numeral x) \<and>
      (\<forall>a. a < buffer \<or> buffer + length (int_numeral x) < a \<longrightarrow> itoa x buffer m a = m a)"
  proof (cases "x = 0")
    case True
    have "decimal 0 = ''0''" by code_simp
    then show ?thesis using True
      by (auto simp: itoa_def int_numeral_def string_at_Cons string_at_Nil)
  next
    case False
    define n where "n = nat \<bar>x\<bar>"
    have n: "n \<noteq> 0" using False by (simp add: n_def)
    define body where "body = rev (int_numeral x)"
    have body: "body = rev (decimal n) @ (if x < 0 then ''-'' else [])"
      by (simp add: body_def int_numeral_def n_def)
    define m1 where "m1 = (\<lambda>a. if buffer \<le> a \<and> a < buffer + length (decimal n) then rev (decimal n) ! (a - buffer) else m a)"
    define m2 where "m2 = (if x < 0 then m1(buffer + length (decimal n) := CHR ''-'') else m1)"
    let ?e = "buffer + length body"
    have m2: "m2 a = (if buffer \<le> a \<and> a < ?e then body ! (a - buffer) else m a)" for a
      by (auto simp: m2_def m1_def body nth_append)
    have dig: "itoa_digits n buffer m = (buffer + length (decimal n), m1)"
      using itoa_digits_run[of n buffer m] n by (simp add: m1_def)
    have run: "itoa x buffer m = reverse_loop buffer (?e - 1) (m2(?e := CHR 0x00))"
      using False dig unfolding itoa_def Let_def int_bits_nat[OF assms False] n_def[symmetric]
      by (simp add: m2_def body)
    have len: "length (int_numeral x) = length body" by (simp add: body_def)
    have pos: "0 < length body" using decimal_nonempty[of n] by (simp add: body)
    have val: "itoa x buffer m a = (if buffer \<le> a \<and> a < ?e then body ! (?e - 1 - a) else if a = ?e then CHR 0x00 else m a)" for a
    proof -
      obtain l where l: "length body = Suc l" using pos by (cases "length body") auto
      have "buffer + (buffer + l) - a - buffer = buffer + l - a" by simp
      then show ?thesis unfolding run reverse_loop_run by (auto simp: m2 l)
    qed
    have "itoa x buffer m (buffer + i) = int_numeral x ! i" if "i < length body" for i
      using that by (simp add: val body_def rev_nth)
    moreover have "CHR 0x00 \<notin> set (int_numeral x)" using decimal_plain by (auto simp: int_numeral_def)
    ultimately show ?thesis by (auto simp: string_at_def len val)
  qed
  then show "string_at (itoa x buffer m) buffer (int_numeral x)" by blast
  show "a < buffer \<or> buffer + length (int_numeral x) < a \<Longrightarrow> itoa x buffer m a = m a" using goal by blast
qed

section \<open>The debugging helper\<close>

lemma dbg_var_run:
  assumes x: "- (2 ^ 31) \<le> x" "x < 2 ^ 31" and name: "string_at m name s"
    and sep: "name + length s < c \<or> c + 3 < name" "name + length s < var_str \<or> var_str + 11 < name"
      "name + length s < res \<or> res + length s + 15 \<le> name"
      "c + 3 < var_str \<or> var_str + 11 < c" "c + 3 < res \<or> res + length s + 15 \<le> c"
      "var_str + 11 < res \<or> res + length s + 15 \<le> var_str"
  shows "\<exists>m'. dbg_var name x var_str res c m k = Some (m', log_msg [] (s @ '' : '' @ int_numeral x) k)"
proof -
  note len = int_numeral_length[OF x]
  let ?m0 = "m(c := CHR '' '', c + 1 := CHR '':'', c + 2 := CHR '' '', c + 3 := CHR 0x00)"
  let ?m1 = "itoa x var_str ?m0"
  note it = itoa_run[OF x, where buffer = var_str and m = ?m0]
  have n0: "string_at ?m0 name s" by (rule string_at_cong[OF name]) (use sep(1) in auto)
  have n1: "string_at ?m1 name s" by (rule string_at_cong[OF n0], rule it(2)) (use sep(2) len in auto)
  have c0: "string_at ?m0 c '' : ''" by (simp add: string_at_Cons string_at_Nil)
  have c1: "string_at ?m1 c '' : ''" by (rule string_at_cong[OF c0], rule it(2)) (use sep(4) len in auto)
  obtain m2 where m2: "strcat name c res ?m1 = Some m2" "string_at m2 res (s @ '' : '')"
    "\<forall>a. a < res \<or> res + length s + length '' : '' < a \<longrightarrow> m2 a = ?m1 a"
    using strcat_run[OF n1 c1, of res] sep(3,5) by auto
  have v: "string_at m2 var_str (int_numeral x)"
    by (rule string_at_cong[OF it(1)]) (use m2(3) sep(6) len in auto)
  obtain m3 where m3: "strcat res var_str res m2 = Some m3" "string_at m3 res ((s @ '' : '') @ int_numeral x)"
    using strcat_run[OF m2(2) v, of res] sep(6) len by auto
  show ?thesis
    using read_string_at[OF m3(2)]
    unfolding dbg_var_def Let_def m2(1) bind.bind_lunit m3(1) by simp
qed

end
