(* ===== verification/Triples.thy ===== *)
theory Triples
  imports Prelude
begin

text \<open>
  Triples for routines with a result: from a state with \<open>P\<close>, a normal return satisfies \<open>Q\<close> and a
  stop satisfies \<open>E\<close>. With \<open>E\<close> false the routine also has to return. The rules follow the
  combinators, so the proof of a routine is a walk along its text.
\<close>

definition triple ::
  "('s \<Rightarrow> bool) \<Rightarrow> ('s \<Rightarrow> ('w, 'a, 's) out) \<Rightarrow> ('a \<Rightarrow> 's \<Rightarrow> bool) \<Rightarrow> ('w \<Rightarrow> 's \<Rightarrow> bool) \<Rightarrow> bool" where
  "triple P m Q E \<longleftrightarrow> (\<forall>s. P s \<longrightarrow> (case m s of Ret a s' \<Rightarrow> Q a s' | Stop w s' \<Rightarrow> E w s'))"

named_theorems triple_intros "rules for the combinators"

lemma tripleI: "(\<And>s. P s \<Longrightarrow> case m s of Ret a s' \<Rightarrow> Q a s' | Stop w s' \<Rightarrow> E w s') \<Longrightarrow> triple P m Q E"
  by (simp add: triple_def)

lemma tripleD: "triple P m Q E \<Longrightarrow> P s \<Longrightarrow> case m s of Ret a s' \<Rightarrow> Q a s' | Stop w s' \<Rightarrow> E w s'"
  by (simp add: triple_def)

lemma triple_Ret: "triple P m Q E \<Longrightarrow> P s \<Longrightarrow> m s = Ret a s' \<Longrightarrow> Q a s'"
  by (drule tripleD) auto

lemma triple_Stop: "triple P m Q E \<Longrightarrow> P s \<Longrightarrow> m s = Stop w s' \<Longrightarrow> E w s'"
  by (drule tripleD) auto

lemma triple_pre: "triple P m Q E \<Longrightarrow> (\<And>s. P' s \<Longrightarrow> P s) \<Longrightarrow> triple P' m Q E"
  by (simp add: triple_def)

lemma triple_post:
  "triple P m Q E \<Longrightarrow> (\<And>a s. Q a s \<Longrightarrow> Q' a s) \<Longrightarrow> (\<And>w s. E w s \<Longrightarrow> E' w s) \<Longrightarrow> triple P m Q' E'"
  by (fastforce simp: triple_def split: out.splits)

lemma triple_kreturn [triple_intros]: "(\<And>s. P s \<Longrightarrow> Q a s) \<Longrightarrow> triple P (kreturn a) Q E"
  by (simp add: triple_def kreturn_def)

lemma triple_kstop [triple_intros]: "(\<And>s. P s \<Longrightarrow> E w s) \<Longrightarrow> triple P (kstop w) Q E"
  by (simp add: triple_def kstop_def)

lemma triple_kmodify [triple_intros]: "(\<And>s. P s \<Longrightarrow> Q () (f s)) \<Longrightarrow> triple P (kmodify f) Q E"
  by (simp add: triple_def kmodify_def)

lemma triple_kread [triple_intros]: "(\<And>s0. P s0 \<Longrightarrow> triple (\<lambda>s. s = s0) (m s0) Q E) \<Longrightarrow> triple P (kread m) Q E"
  by (simp add: triple_def kread_def)

lemma triple_kbind: "triple P m R E \<Longrightarrow> (\<And>a. triple (R a) (f a) Q E) \<Longrightarrow> triple P (kbind m f) Q E"
  by (fastforce simp: triple_def kbind_def split: out.splits)

lemma triple_kseq: "triple P m (\<lambda>_. R) E \<Longrightarrow> triple R n Q E \<Longrightarrow> triple P (kseq m n) Q E"
  by (fastforce simp: triple_def kseq_def kbind_def split: out.splits)

lemma triple_if [triple_intros]:
  "(b \<Longrightarrow> triple P m Q E) \<Longrightarrow> (\<not> b \<Longrightarrow> triple P n Q E) \<Longrightarrow> triple P (if b then m else n) Q E"
  by simp

text \<open>A routine that keeps a property of the state whatever way it ends.\<close>

abbreviation keeps :: "('s \<Rightarrow> bool) \<Rightarrow> ('s \<Rightarrow> ('w, 'a, 's) out) \<Rightarrow> bool" where
  "keeps P m \<equiv> triple P m (\<lambda>_. P) (\<lambda>_. P)"

lemma keeps_kbind: "keeps P m \<Longrightarrow> (\<And>a. keeps P (f a)) \<Longrightarrow> keeps P (kbind m f)"
  by (rule triple_kbind)

lemma keeps_kseq: "keeps P m \<Longrightarrow> keeps P n \<Longrightarrow> keeps P (kseq m n)"
  by (rule triple_kseq)

lemma keeps_kread: "(\<And>s. P s \<Longrightarrow> keeps P (m s)) \<Longrightarrow> keeps P (kread m)"
  by (fastforce simp: triple_def kread_def split: out.splits)

end
