(* ===== verification/Support.thy ===== *)
theory Support
  imports Machine Utils Triples
begin

text \<open>
  \<open>src/support.c\<close> and the state of the support level. Support code runs inside the user
  processes: it talks to the kernel only through \<open>SYSCALL\<close>, an instruction of the platform, so
  what a call answers and what other processes do meanwhile is a parameter of the model. Every
  call is recorded in the order it is made.
\<close>

section \<open>State of the support level\<close>

definition PAGESIZE :: u32 where "PAGESIZE = 4096"
definition WORDLEN :: u32 where "WORDLEN = 4"
definition UPROCMAX :: nat where "UPROCMAX = 8"
definition GETPAGENO :: u32 where "GETPAGENO = 0x3FFFF000"
definition VPNSHIFT :: nat where "VPNSHIFT = 12"
definition ASIDSHIFT :: nat where "ASIDSHIFT = 6"
definition PRESENTFLAG :: u32 where "PRESENTFLAG = 0x80000000"
definition SP_SIZE :: nat where "SP_SIZE = 2 * UPROCMAX"
definition SP_BEGIN :: u32 where "SP_BEGIN = 0x20020000"
definition FLASHREAD :: u32 where "FLASHREAD = 2"
definition FLASHWRITE :: u32 where "FLASHWRITE = 3"
definition TRANSMITCHAR :: u32 where "TRANSMITCHAR = 2"
definition GETTOD :: int where "GETTOD = 1"
definition TERMINATE :: int where "TERMINATE = 2"
definition WRITEPRINTER :: int where "WRITEPRINTER = 3"
definition WRITETERMINAL :: int where "WRITETERMINAL = 4"
definition READTERMINAL :: int where "READTERMINAL = 5"
definition UPROCSTARTADDR :: u32 where "UPROCSTARTADDR = 0x800000B0"
definition USERSTACKTOP :: u32 where "USERSTACKTOP = 0xC0000000"

text \<open>
  \<open>sp_entry_t\<close> of \<open>pager.h\<close>; its pointer to a page table entry is the address of the
  \<open>support_t\<close> that holds the table and the index of the entry.
\<close>

record sp_entry_t =
  e_asid :: u32
  e_vpn :: u32
  pg_tbl_entry :: "u32 \<times> nat"

text \<open>
  \<open>cells\<close> are the words a pointer can name (semaphores, device registers), \<open>chars\<close> the bytes
  of the user process, \<open>sups\<close> and \<open>sup_states\<close> the \<open>support_t\<close> and \<open>state_t\<close> objects by
  address, \<open>frame_top\<close> the static variable of \<open>choose_frame\<close>, \<open>calls\<close> the system calls made.
\<close>

record 'h ust =
  sp_tbl :: "nat \<Rightarrow> sp_entry_t"
  sp_asids :: u8
  frame_top :: u32
  cells :: "u32 \<Rightarrow> u32"
  chars :: "u32 \<Rightarrow> u8"
  sups :: "u32 \<Rightarrow> support_t"
  sup_states :: "u32 \<Rightarrow> state_t"
  ulog :: klog
  uhw :: 'h
  calls :: "(int \<times> u32 \<times> u32 \<times> u32) list"

text \<open>
  What the support level takes from outside the repository besides what the kernel takes.
  \<open>SYSCALL\<close> gives the value in \<open>v0\<close>, or \<open>None\<close> when the process never comes back from the call.
\<close>

record 'h splat = "'h plat" +
  addr_sp_sem :: u32
  addr_master_sem :: u32
  addr_dev_sems :: u32
  addr_tp_states :: u32
  addr_tp_supps :: u32
  sizeof_state :: u32
  sizeof_support :: u32
  off_sup_privatePgTbl :: u32
  off_sup_stackTLB :: u32
  off_sup_stackGen :: u32
  addr_tlb_exc_handler :: u32
  addr_support_exec_handler :: u32
  off_dtp_data0 :: u32
  DEVINTNUM :: nat
  FLASHINT :: nat
  READY :: u32
  ENTRYLO_VALID :: u32
  ENTRYLO_DIRTY :: u32
  ENTRYLO_GET_PFN :: "u32 \<Rightarrow> u32"
  ENTRYHI_ASID_BIT :: nat
  TLBP :: "'h \<Rightarrow> 'h"
  TLBWI :: "'h \<Rightarrow> 'h"
  getINDEX :: "'h \<Rightarrow> u32"
  SYSCALL :: "int \<Rightarrow> u32 \<Rightarrow> u32 \<Rightarrow> u32 \<Rightarrow> 'h ust \<Rightarrow> u32 option \<times> 'h ust"

text \<open>
  How support code ends other than by returning: the machine panics, the process is given a
  saved state back, it never returns from a system call, it writes past the end of a page table,
  it loops for ever, or it touches an address that traps (only the test programs do).
\<close>

datatype sup_stop = Panicked | Resumed state_t | Gone | OutOfBounds | Endless | Trapped u32

type_synonym ('a, 'h) um = "'h ust \<Rightarrow> (sup_stop, 'a, 'h ust) out"

definition syscall :: "'h splat \<Rightarrow> int \<Rightarrow> u32 \<Rightarrow> u32 \<Rightarrow> u32 \<Rightarrow> (u32, 'h) um" where
  "syscall X n a1 a2 a3 = (\<lambda>s.
     case SYSCALL X n a1 a2 a3 (s\<lparr>calls := calls s @ [(n, a1, a2, a3)]\<rparr>) of
       (None, s') \<Rightarrow> Stop Gone s'
     | (Some v, s') \<Rightarrow> Ret v s')"

lemma syscall_Ret:
  "fst (SYSCALL X n a b c (s\<lparr>calls := calls s @ [(n, a, b, c)]\<rparr>)) = Some r \<Longrightarrow>
   syscall X n a b c s = Ret r (snd (SYSCALL X n a b c (s\<lparr>calls := calls s @ [(n, a, b, c)]\<rparr>)))"
  by (cases "SYSCALL X n a b c (s\<lparr>calls := calls s @ [(n, a, b, c)]\<rparr>)") (simp add: syscall_def)

lemma syscall_Gone:
  "fst (SYSCALL X n a b c (s\<lparr>calls := calls s @ [(n, a, b, c)]\<rparr>)) = None \<Longrightarrow>
   syscall X n a b c s = Stop Gone (snd (SYSCALL X n a b c (s\<lparr>calls := calls s @ [(n, a, b, c)]\<rparr>)))"
  by (cases "SYSCALL X n a b c (s\<lparr>calls := calls s @ [(n, a, b, c)]\<rparr>)") (simp add: syscall_def)

definition set_cell :: "u32 \<Rightarrow> u32 \<Rightarrow> 'h ust \<Rightarrow> 'h ust" where
  "set_cell a v s = s\<lparr>cells := (cells s)(a := v)\<rparr>"

definition upd_sup :: "u32 \<Rightarrow> (support_t \<Rightarrow> support_t) \<Rightarrow> 'h ust \<Rightarrow> 'h ust" where
  "upd_sup sa f s = s\<lparr>sups := (sups s)(sa := f (sups s sa))\<rparr>"

definition upd_uhw :: "('h \<Rightarrow> 'h) \<Rightarrow> 'h ust \<Rightarrow> 'h ust" where
  "upd_uhw f s = s\<lparr>uhw := f (uhw s)\<rparr>"

definition say :: "string \<Rightarrow> string \<Rightarrow> 'h ust \<Rightarrow> 'h ust" where
  "say tag mex s = s\<lparr>ulog := log_msg tag mex (ulog s)\<rparr>"

definition sayi :: "string \<Rightarrow> string \<Rightarrow> u32 \<Rightarrow> 'h ust \<Rightarrow> 'h ust" where
  "sayi tag mex i s = s\<lparr>ulog := logi tag mex (sint i) (ulog s)\<rparr>"

definition panic :: "('a, 'h) um" where
  "panic = kstop Panicked"

text \<open>A table entry of a support structure.\<close>

definition upd_pte :: "u32 \<Rightarrow> nat \<Rightarrow> (pteEntry_t \<Rightarrow> pteEntry_t) \<Rightarrow> 'h ust \<Rightarrow> 'h ust" where
  "upd_pte sa i f = upd_sup sa (\<lambda>q. q\<lparr>sup_privatePgTbl := (sup_privatePgTbl q)(i := f (sup_privatePgTbl q i))\<rparr>)"

definition pte_of :: "'h ust \<Rightarrow> u32 \<times> nat \<Rightarrow> pteEntry_t" where
  "pte_of s e = sup_privatePgTbl (sups s (fst e)) (snd e)"

section \<open>support.c\<close>

definition dev_sem_addr :: "'h splat \<Rightarrow> u32 \<Rightarrow> u32 \<Rightarrow> u32" where
  "dev_sem_addr X type no = addr_dev_sems X + 4 * (type * of_nat (DEVPERINT X) + no)"

definition init_supp_structures :: "'h splat \<Rightarrow> 'h ust \<Rightarrow> 'h ust" where
  "init_supp_structures X s =
     (let s1 = set_cell (addr_sp_sem X) 1 s;
          s2 = s1\<lparr>sp_asids := 0\<rparr>;
          s3 = set_cell (addr_master_sem X) 0 s2;
          s4 = fold (\<lambda>i s. s\<lparr>sp_tbl := (sp_tbl s)(i := (sp_tbl s i)\<lparr>e_asid := -1\<rparr>)\<rparr>) [0..<SP_SIZE] s3
      in fold (\<lambda>i s. fold (\<lambda>j s. set_cell (dev_sem_addr X (of_nat i) (of_nat j)) 1 s) [0..<DEVPERINT X] s)
           [0..<DEVINTNUM X + 1] s4)"

definition init_page_table :: "'h splat \<Rightarrow> u32 \<Rightarrow> u32 \<Rightarrow> (unit, 'h) um" where
  "init_page_table X sa asid =
     (if sa + off_sup_privatePgTbl X = NULL \<or> sint asid \<le> 0 \<or> sint asid > int UPROCMAX
      then kseq (kmodify (say ''SUP'' ''Invalid page table ref or asid'')) panic
      else kmodify (\<lambda>s.
        let s1 = fold (\<lambda>i. upd_pte sa i (\<lambda>_.
                   \<lparr>pte_entryHI = KUSEG + push_bit VPNSHIFT (of_nat i) + push_bit ASIDSHIFT asid,
                    pte_entryLO = ENTRYLO_DIRTY X\<rparr>)) [0..<USERPGTBLSIZE - 1] s
        in upd_pte sa (USERPGTBLSIZE - 1) (\<lambda>_.
             \<lparr>pte_entryHI = KUSEG + GETPAGENO + push_bit ASIDSHIFT asid, pte_entryLO = ENTRYLO_DIRTY X\<rparr>) s1))"

definition p_on_dev :: "'h splat \<Rightarrow> u32 \<Rightarrow> u32 \<Rightarrow> (unit, 'h) um" where
  "p_on_dev X type no =
     (if of_nat (DEVINTNUM X + 1) < type
      then kseq (kmodify (sayi ''SUP'' ''Tried a P on invalid dev type: '' type)) panic
      else if of_nat (DEVPERINT X) \<le> no
      then kseq (kmodify (sayi ''SUP'' ''Tried a P on invalid dev no: '' no)) panic
      else kseq (syscall X PASSEREN (dev_sem_addr X type no) 0 0) (kreturn ()))"

definition v_on_dev :: "'h splat \<Rightarrow> u32 \<Rightarrow> u32 \<Rightarrow> (unit, 'h) um" where
  "v_on_dev X type no =
     (if of_nat (DEVINTNUM X + 1) < type
      then kseq (kmodify (sayi ''SUP'' ''Tried a P on invalid dev type: '' type)) panic
      else if of_nat (DEVPERINT X) \<le> no
      then kseq (kmodify (sayi ''SUP'' ''Tried a P on invalid dev no: '' no)) panic
      else kseq (syscall X VERHOGEN (dev_sem_addr X type no) 0 0) (kreturn ()))"

definition p_on_master_sem :: "'h splat \<Rightarrow> (unit, 'h) um" where
  "p_on_master_sem X = kseq (syscall X PASSEREN (addr_master_sem X) 0 0) (kreturn ())"

definition v_on_master_sem :: "'h splat \<Rightarrow> (unit, 'h) um" where
  "v_on_master_sem X = kseq (syscall X VERHOGEN (addr_master_sem X) 0 0) (kreturn ())"

text \<open>\<open>safe_kill\<close> of \<open>sys_support.c\<close>, which the trap handler and the pager use.\<close>

definition safe_kill :: "'h splat \<Rightarrow> (unit, 'h) um" where
  "safe_kill X = kseq (syscall X TERMPROCESS 0 0 0) (kreturn ())"

definition support_trap_handler :: "'h splat \<Rightarrow> u32 \<Rightarrow> (unit, 'h) um" where
  "support_trap_handler X sa = safe_kill X"

end
