(* ===== verification/Pager.thy ===== *)
theory Pager
  imports Support
begin

text \<open>
  \<open>src/pager.c\<close>: the swap pool, its replacement, the flash devices behind it and the TLB
  exception handler, with the order in which the replacement visits the frames.
\<close>

section \<open>The operations\<close>

text \<open>\<open>P\_BIT\<close> of \<open>update\_tlb\<close>.\<close>

definition P_BIT :: u32 where "P_BIT = 0x40000000"

definition update_tlb :: "'h splat \<Rightarrow> u32 \<Rightarrow> u32 \<Rightarrow> 'h ust \<Rightarrow> bool \<times> 'h ust" where
  "update_tlb X entryHi entryLo s =
     (let s1 = upd_uhw (setENTRYHI X entryHi) s;
          s2 = upd_uhw (TLBP X) s1;
          index = getINDEX X (uhw s2)
      in if index AND P_BIT \<noteq> 0 then (False, say ''VM'' ''TLB probe failed'' s2)
         else (True, upd_uhw (TLBWI X) (upd_uhw (setENTRYLO X entryLo) s2)))"

definition choose_frame :: "'h ust \<Rightarrow> u32 \<times> 'h ust" where
  "choose_frame s =
     (let top = frame_top s;
          slot = (\<lambda>i. (top + of_nat i) mod of_nat SP_SIZE)
      in case find (\<lambda>i. e_asid (sp_tbl s (unat (slot i))) = -1) [0..<SP_SIZE] of
           Some i \<Rightarrow> (slot i, s\<lparr>frame_top := slot i\<rparr>)
         | None \<Rightarrow> ((top + 1) mod of_nat SP_SIZE, s\<lparr>frame_top := (top + 1) mod of_nat SP_SIZE\<rparr>))"

definition set_sp_asids :: "bool \<Rightarrow> u32 \<Rightarrow> (unit, 'h) um" where
  "set_sp_asids on asid =
     (if 8 < asid \<or> asid = 0 then kseq (kmodify (sayi ''VM'' ''Invalid asid on sp_asids:'' asid)) panic
      else kmodify (\<lambda>s. s\<lparr>sp_asids :=
        (let m = push_bit (unat (asid - 1)) 1 in if on then sp_asids s OR m else sp_asids s XOR m)\<rparr>))"

definition clean_frames :: "u32 \<Rightarrow> (unit, 'h) um" where
  "clean_frames asid = set_sp_asids False asid"

definition fill_frame :: "u32 \<Rightarrow> u32 \<Rightarrow> nat \<Rightarrow> (unit, 'h) um" where
  "fill_frame sa frame pg_no =
     (if of_nat SP_SIZE \<le> frame then kseq (kmodify (sayi ''VM'' ''Invalid frame number'' frame)) panic
      else kread (\<lambda>s.
        kseq (kmodify (\<lambda>s. s\<lparr>sp_tbl := (sp_tbl s)(unat frame :=
                \<lparr>e_asid = sup_asid (sups s sa), e_vpn = KUSEG + push_bit VPNSHIFT (of_nat pg_no),
                 pg_tbl_entry = (sa, pg_no)\<rparr>)\<rparr>))
             (set_sp_asids True (sup_asid (sups s sa)))))"

definition toggle_int :: "'h splat \<Rightarrow> bool \<Rightarrow> 'h ust \<Rightarrow> 'h ust" where
  "toggle_int X on s =
     (if on then upd_uhw (\<lambda>h. setSTATUS X (getSTATUS X h OR 1) h) s
      else upd_uhw (\<lambda>h. setSTATUS X ((getSTATUS X h OR 1) XOR 1) h) s)"

definition FLASH_SEMS :: "'h splat \<Rightarrow> u32" where
  "FLASH_SEMS X = of_nat (IL_FLASH X) - of_nat (IL_DISK X)"

text \<open>
  The two flash operations. The address \<open>&dev_reg->command\<close> and the field \<open>data0\<close> are offsets
  from the register the platform's \<open>DEV_REG_ADDR\<close> gives.
\<close>

definition read_from_flash :: "'h splat \<Rightarrow> u32 \<Rightarrow> u32 \<Rightarrow> u32 \<Rightarrow> (u32, 'h) um" where
  "read_from_flash X asid pg_no dest =
     (let dev_reg = DEV_REG_ADDR X (FLASHINT X) (unat (asid - 1));
          cmdval = push_bit 8 pg_no OR FLASHREAD
      in kseq (p_on_dev X (FLASH_SEMS X) (asid - 1))
        (kseq (kmodify (set_cell (dev_reg + off_dtp_data0 X) dest))
        (kbind (syscall X DOIO (dev_reg + off_dtp_command X) cmdval 0) (\<lambda>dev_stat.
         kseq (v_on_dev X (FLASH_SEMS X) (asid - 1)) (kreturn dev_stat)))))"

definition write_to_flash :: "'h splat \<Rightarrow> u32 \<Rightarrow> u32 \<Rightarrow> u32 \<Rightarrow> (u32, 'h) um" where
  "write_to_flash X asid blk_no data =
     (let dev_reg = DEV_REG_ADDR X (FLASHINT X) (unat (asid - 1));
          cmdval = push_bit 8 blk_no OR FLASHWRITE
      in kseq (p_on_dev X (FLASH_SEMS X) (asid - 1))
        (kseq (kmodify (set_cell (dev_reg + off_dtp_data0 X) data))
        (kbind (syscall X DOIO (dev_reg + off_dtp_command X) cmdval 0) (\<lambda>dev_stat.
         kseq (v_on_dev X (FLASH_SEMS X) (asid - 1)) (kreturn dev_stat)))))"

text \<open>The page an \<open>EntryHi\<close> names: the stack page is the last one of the table.\<close>

definition page_index :: "'h splat \<Rightarrow> u32 \<Rightarrow> u32" where
  "page_index X ehi =
     (let vpn = ENTRYHI_GET_VPN X ehi in if vpn = STK_PG then of_nat (USERPGTBLSIZE - 1) else vpn)"

definition free_frame :: "'h splat \<Rightarrow> nat \<Rightarrow> u32 \<Rightarrow> (unit, 'h) um" where
  "free_frame X frame asid = (\<lambda>s.
     let (psa, pi) = pg_tbl_entry (sp_tbl s frame);
         s1 = toggle_int X False s;
         s2 = (if pte_entryLO (pte_of s1 (psa, pi)) AND ENTRYLO_VALID X \<noteq> 0
               then upd_pte psa pi (\<lambda>e. e\<lparr>pte_entryLO := pte_entryLO e XOR ENTRYLO_VALID X\<rparr>) s1
               else s1);
         (_, s3) = update_tlb X (pte_entryHI (pte_of s2 (psa, pi))) (pte_entryLO (pte_of s2 (psa, pi))) s2;
         s4 = toggle_int X True s3;
         vpn = page_index X (pte_entryHI (pte_of s4 (psa, pi)))
     in kbind (write_to_flash X asid vpn (ENTRYLO_GET_PFN X (pte_entryLO (pte_of s4 (psa, pi)))))
         (\<lambda>dev_stat.
            if dev_stat \<noteq> READY X then kmodify (sayi ''VM'' ''error writing frame to dev'' dev_stat)
            else kmodify (\<lambda>s. s\<lparr>sp_tbl := (sp_tbl s)(frame := (sp_tbl s frame)\<lparr>e_asid := -1\<rparr>)\<rparr>)) s4)"

text \<open>
  The test on \<open>sp_asids\<close>: the C \<open>char\<close> is signed on MIPS, so it is sign-extended before the
  conjunction with \<open>1 << (asid - 1)\<close>.
\<close>

definition frame_in_use :: "'h ust \<Rightarrow> u32 \<Rightarrow> bool" where
  "frame_in_use s asid \<longleftrightarrow>
     asid \<noteq> -1 \<and> (scast (sp_asids s) :: u32) AND push_bit (unat (asid - 1)) 1 \<noteq> 0"

text \<open>What the handler does once the page is in its frame, at \<open>sp_addr\<close>.\<close>

definition map_page :: "'h splat \<Rightarrow> u32 \<Rightarrow> u32 \<Rightarrow> nat \<Rightarrow> u32 \<Rightarrow> (unit, 'h) um" where
  "map_page X sa frame pg_no sp_addr =
     kseq (kmodify (toggle_int X False))
    (kseq (fill_frame sa frame pg_no)
    (kseq (if USERPGTBLSIZE \<le> pg_no then kstop OutOfBounds
           else kmodify (upd_pte sa pg_no
             (\<lambda>e. e\<lparr>pte_entryLO := sp_addr OR ENTRYLO_VALID X OR ENTRYLO_DIRTY X\<rparr>)))
    (kseq (kread (\<lambda>s. kmodify (\<lambda>s'. snd (update_tlb X (pte_entryHI (pte_of s (sa, pg_no)))
                                                  (pte_entryLO (pte_of s (sa, pg_no))) s'))))
          (kmodify (toggle_int X True)))))"

definition serve_fault :: "'h splat \<Rightarrow> u32 \<Rightarrow> (unit, 'h) um" where
  "serve_fault X sa =
     kseq (syscall X PASSEREN (addr_sp_sem X) 0 0) (\<lambda>s.
       let mpg_no = page_index X (entry_hi (sup_exceptState (sups s sa) PGFAULTEXCEPT));
           (chosen_frame, s1) = choose_frame s;
           owner = e_asid (sp_tbl s1 (unat chosen_frame));
           sp_addr = SP_BEGIN + chosen_frame * PAGESIZE
       in kseq (if frame_in_use s1 owner then free_frame X (unat chosen_frame) (sup_asid (sups s1 sa))
                else kreturn ())
         (kread (\<lambda>s2.
          kbind (read_from_flash X (sup_asid (sups s2 sa)) mpg_no sp_addr) (\<lambda>dev_stat.
            if dev_stat \<noteq> READY X
            then kmodify (sayi ''VM'' ''error reading frame content from dev'' dev_stat)
            else kseq (map_page X sa chosen_frame (unat mpg_no) sp_addr)
                (kseq (syscall X VERHOGEN (addr_sp_sem X) 0 0)
                      (kread (\<lambda>s3. kstop (Resumed (sup_exceptState (sups s3 sa) 0)))))))) s1)"

definition tlb_exc_handler :: "'h splat \<Rightarrow> (unit, 'h) um" where
  "tlb_exc_handler X =
     kbind (syscall X GETSUPPORTPTR 0 0 0) (\<lambda>sa.
       if sa = NULL then kmodify (say ''VM'' ''Error on getsupport'')
       else kread (\<lambda>s.
         if CAUSE_GET_EXCCODE X (cause (sup_exceptState (sups s sa) PGFAULTEXCEPT)) = EXC_MOD X
         then kseq (kmodify (say ''VM'' ''EXECMOD'')) (safe_kill X)
         else serve_fault X sa))"

section \<open>The replacement order\<close>

lemma find_upt_bound: "find P [0..<n] = Some i \<Longrightarrow> i < n \<and> P i"
  by (auto simp: find_Some_iff)

lemma slot_bound: "unat ((x :: u32) mod of_nat SP_SIZE) < SP_SIZE"
proof -
  have "unat (of_nat SP_SIZE :: u32) = SP_SIZE" by (simp add: SP_SIZE_def UPROCMAX_def)
  then show ?thesis by (simp add: unat_mod SP_SIZE_def UPROCMAX_def)
qed

lemma choose_frame_bound:
  assumes "choose_frame s = (k, s')"
  shows "unat k < SP_SIZE" and "s' = s\<lparr>frame_top := k\<rparr>"
  using assms slot_bound[of "frame_top s + 1"] slot_bound[of "frame_top s + of_nat i" for i]
  by (auto simp: choose_frame_def Let_def split: option.splits)

lemma find_map_comp: "find P (map f xs) = map_option f (find (P \<circ> f) xs)"
  by (induction xs) auto

lemma rotate_upt: "0 < n \<Longrightarrow> rotate t [0..<n] = map (\<lambda>i. (t + i) mod n) [0..<n]"
  by (rule nth_equalityI) (simp_all add: nth_rotate)

lemma unat_slot: "i < SP_SIZE \<Longrightarrow> unat ((w + of_nat i :: u32) mod of_nat SP_SIZE) = (unat w + i) mod SP_SIZE"
proof -
  assume i: "i < SP_SIZE"
  have n: "unat (of_nat SP_SIZE :: u32) = SP_SIZE" "SP_SIZE = 16" by (simp_all add: SP_SIZE_def UPROCMAX_def)
  have "unat (of_nat i :: u32) = i" using i by (simp add: unat_of_nat n(2))
  then have "unat (w + of_nat i :: u32) = (unat w + i) mod 2 ^ 32" by (simp add: unat_word_ariths)
  moreover have "(x mod 2 ^ 32) mod 16 = x mod 16" for x :: nat by (rule mod_mod_cancel) simp
  ultimately show ?thesis by (simp add: unat_mod n)
qed

text \<open>Frames in the order the search visits them.\<close>

definition frame_order :: "'h ust \<Rightarrow> nat list" where
  "frame_order s = rotate (unat (frame_top s)) [0..<SP_SIZE]"

definition frame_free :: "'h ust \<Rightarrow> nat \<Rightarrow> bool" where
  "frame_free s k \<longleftrightarrow> e_asid (sp_tbl s k) = -1"

lemma choose_frame_order:
  "choose_frame s = (let k = of_nat (case find (frame_free s) (frame_order s) of
      Some j \<Rightarrow> j | None \<Rightarrow> Suc (unat (frame_top s)) mod SP_SIZE) in (k, s\<lparr>frame_top := k\<rparr>))"
proof -
  let ?t = "unat (frame_top s)"
  let ?slot = "\<lambda>i. (frame_top s + of_nat i) mod of_nat SP_SIZE"
  have pos: "0 < SP_SIZE" by (simp add: SP_SIZE_def UPROCMAX_def)
  have slot: "?slot i = of_nat ((?t + i) mod SP_SIZE)" if "i < SP_SIZE" for i
    by (simp only: unat_slot[OF that, symmetric] of_nat_unat) (simp add: unsigned_ucast_eq)
  have one: "(frame_top s + 1) mod of_nat SP_SIZE = of_nat (Suc ?t mod SP_SIZE)"
    using slot[of 1] by (simp add: SP_SIZE_def UPROCMAX_def)
  have f: "find (\<lambda>i. e_asid (sp_tbl s (unat (?slot i))) = -1) [0..<SP_SIZE] =
      find (frame_free s \<circ> (\<lambda>i. (?t + i) mod SP_SIZE)) [0..<SP_SIZE]"
    by (rule find_cong) (auto simp: frame_free_def unat_slot)
  have r: "find (frame_free s) (frame_order s) =
      map_option (\<lambda>i. (?t + i) mod SP_SIZE) (find (frame_free s \<circ> (\<lambda>i. (?t + i) mod SP_SIZE)) [0..<SP_SIZE])"
    unfolding frame_order_def rotate_upt[OF pos] by (rule find_map_comp)
  show ?thesis
  proof (cases "find (frame_free s \<circ> (\<lambda>i. (?t + i) mod SP_SIZE)) [0..<SP_SIZE]")
    case None
    then show ?thesis using r f one by (simp add: choose_frame_def Let_def)
  next
    case (Some i)
    then have "i < SP_SIZE" by (auto dest: find_upt_bound)
    then show ?thesis using r f Some slot by (simp add: choose_frame_def Let_def)
  qed
qed

end
