(* ===== verification/Swap_Pool.thy ===== *)
theory Swap_Pool
  imports Pager
begin

text \<open>
  The invariant of the swap pool, \<open>pool_ok\<close>: the page tables of the live processes and the swap
  pool table agree, so no two of their pages share a frame. The handler keeps it, step by step,
  under the contract \<open>kernel_rely\<close> of the other processes.
\<close>

section \<open>The swap pool invariant\<close>

definition frame_addr :: "nat \<Rightarrow> u32" where
  "frame_addr k = SP_BEGIN + of_nat k * PAGESIZE"

definition page_valid :: "'h splat \<Rightarrow> 'h ust \<Rightarrow> u32 \<times> nat \<Rightarrow> bool" where
  "page_valid X s e \<longleftrightarrow> pte_entryLO (pte_of s e) AND ENTRYLO_VALID X \<noteq> 0"

definition asid_bit :: "u8 \<Rightarrow> u32 \<Rightarrow> bool" where
  "asid_bit m u \<longleftrightarrow> bit m (unat (u - 1))"

text \<open>The frame \<open>k\<close> of the pool is given to page \<open>e\<close>, and the page table points there.\<close>

definition mapped :: "'h splat \<Rightarrow> 'h ust \<Rightarrow> nat \<Rightarrow> u32 \<times> nat \<Rightarrow> bool" where
  "mapped X s k e \<longleftrightarrow> k < SP_SIZE \<and> e_asid (sp_tbl s k) = sup_asid (sups s (fst e)) \<and>
     pg_tbl_entry (sp_tbl s k) = e \<and>
     pte_entryLO (pte_of s e) = frame_addr k OR ENTRYLO_VALID X OR ENTRYLO_DIRTY X"

text \<open>
  \<open>S\<close> are the support structures of the live processes. The set \<open>F\<close> holds the frames no valid
  page of theirs may be in; it is empty between two faults.
\<close>

definition pool_inv :: "'h splat \<Rightarrow> u32 set \<Rightarrow> nat set \<Rightarrow> 'h ust \<Rightarrow> bool" where
  "pool_inv X S F s \<longleftrightarrow>
     (\<forall>q\<in>S. 1 \<le> sup_asid (sups s q) \<and> sup_asid (sups s q) \<le> 8) \<and>
     (\<forall>q\<in>S. \<forall>p<USERPGTBLSIZE. page_valid X s (q, p) \<longrightarrow>
        asid_bit (sp_asids s) (sup_asid (sups s q)) \<and> (\<exists>k. k \<notin> F \<and> mapped X s k (q, p)))"

abbreviation pool_ok :: "'h splat \<Rightarrow> u32 set \<Rightarrow> 'h ust \<Rightarrow> bool" where
  "pool_ok X S \<equiv> pool_inv X S {}"

definition same_pool :: "u32 set \<Rightarrow> 'h ust \<Rightarrow> 'h ust \<Rightarrow> bool" where
  "same_pool S s s' \<longleftrightarrow> sp_tbl s' = sp_tbl s \<and>
     (\<forall>q. sup_privatePgTbl (sups s' q) = sup_privatePgTbl (sups s q) \<and> sup_asid (sups s' q) = sup_asid (sups s q)) \<and>
     (\<forall>q\<in>S. asid_bit (sp_asids s') (sup_asid (sups s q)) = asid_bit (sp_asids s) (sup_asid (sups s q)))"

lemma same_pool_refl [simp]: "same_pool S s s"
  by (simp add: same_pool_def)

lemma same_pool_trans: "same_pool S s s1 \<Longrightarrow> same_pool S s1 s2 \<Longrightarrow> same_pool S s s2"
  by (simp add: same_pool_def)

lemma pool_inv_cong: "same_pool S s s' \<Longrightarrow> pool_inv X S F s \<Longrightarrow> pool_inv X S F s'"
  by (simp add: pool_inv_def same_pool_def mapped_def page_valid_def pte_of_def)

lemma pool_inv_mono: "pool_inv X S F s \<Longrightarrow> F' \<subseteq> F \<Longrightarrow> pool_inv X S F' s"
  unfolding pool_inv_def by (meson subsetD)

lemma pool_inv_asid: "pool_inv X S F s \<Longrightarrow> q \<in> S \<Longrightarrow> 1 \<le> sup_asid (sups s q) \<and> sup_asid (sups s q) \<le> 8"
  by (simp add: pool_inv_def)

lemma pool_invD:
  assumes "pool_inv X S F s" and "q \<in> S" and "p < USERPGTBLSIZE" and "page_valid X s (q, p)"
  obtains k where "asid_bit (sp_asids s) (sup_asid (sups s q))" and "k \<notin> F" and "mapped X s k (q, p)"
  using assms unfolding pool_inv_def by blast

text \<open>The bits of \<open>EntryLo\<close> the handler uses: one valid bit, and both flags below the frame address.\<close>

definition flags_ok :: "'h splat \<Rightarrow> bool" where
  "flags_ok X \<longleftrightarrow> (\<exists>b<12. ENTRYLO_VALID X = push_bit b 1) \<and> ENTRYLO_DIRTY X AND 0xFFFFF000 = 0"

lemma frame_addr_mask:
  assumes "flags_ok X" and "k < SP_SIZE"
  shows "(frame_addr k OR ENTRYLO_VALID X OR ENTRYLO_DIRTY X) AND 0xFFFFF000 = frame_addr k"
proof -
  obtain b where b: "b < 12" "ENTRYLO_VALID X = push_bit b 1" using assms(1) by (auto simp: flags_ok_def)
  have v: "ENTRYLO_VALID X AND 0xFFFFF000 = 0"
  proof -
    have "b \<in> {0,1,2,3,4,5,6,7,8,9,10,11}" using b(1) by (simp only: insert_iff empty_iff) arith
    then show ?thesis unfolding b(2) by (elim insertE) simp_all
  qed
  have f: "frame_addr k AND 0xFFFFF000 = frame_addr k"
  proof -
    have "k \<in> {0,1,2,3,4,5,6,7,8,9,10,11,12,13,14,15}"
      using assms(2) by (simp only: insert_iff empty_iff SP_SIZE_def UPROCMAX_def) arith
    then show ?thesis
      unfolding frame_addr_def SP_BEGIN_def PAGESIZE_def by (elim insertE) simp_all
  qed
  show ?thesis using assms(1) by (simp add: bit.conj_disj_distrib2 v f flags_ok_def)
qed

lemma frame_addr_inj:
  assumes "k < SP_SIZE" and "j < SP_SIZE" and "frame_addr k = frame_addr j"
  shows "k = j"
proof -
  have "unat (of_nat i * PAGESIZE) = i * 4096" if "i < SP_SIZE" for i
    using that by (simp add: PAGESIZE_def unat_word_ariths unat_of_nat SP_SIZE_def UPROCMAX_def)
  then show ?thesis using assms by (simp add: frame_addr_def) (metis mult_right_cancel zero_neq_numeral)
qed

text \<open>No two valid pages of live processes are in the same frame.\<close>

lemma pool_no_sharing:
  assumes "pool_inv X S F s" and "flags_ok X" and "q \<in> S" and "q' \<in> S" and "p < USERPGTBLSIZE" and "p' < USERPGTBLSIZE"
    and "page_valid X s (q, p)" and "page_valid X s (q', p')"
    and "pte_entryLO (pte_of s (q, p)) AND 0xFFFFF000 = pte_entryLO (pte_of s (q', p')) AND 0xFFFFF000"
  shows "(q, p) = (q', p')"
proof -
  obtain k where k: "mapped X s k (q, p)" by (rule pool_invD[OF assms(1,3,5,7)])
  obtain j where j: "mapped X s j (q', p')" by (rule pool_invD[OF assms(1,4,6,8)])
  have "frame_addr k = frame_addr j"
    using assms(9) k j frame_addr_mask[OF assms(2)] by (simp add: mapped_def)
  then have "k = j" using k j frame_addr_inj by (simp add: mapped_def)
  then show ?thesis using k j by (simp add: mapped_def)
qed

section \<open>What the other processes may do during a fault\<close>

definition on_sp_sem :: "'h splat \<Rightarrow> int \<times> u32 \<times> u32 \<times> u32 \<Rightarrow> bool" where
  "on_sp_sem X c \<longleftrightarrow> fst c \<in> {PASSEREN, VERHOGEN} \<and> fst (snd c) = addr_sp_sem X"

definition sem_calls :: "'h splat \<Rightarrow> 'h ust \<Rightarrow> (int \<times> u32 \<times> u32 \<times> u32) list" where
  "sem_calls X s = filter (on_sp_sem X) (calls s)"

text \<open>The process holds the mutex of the pool: its last call on it was a P.\<close>

definition holding :: "'h splat \<Rightarrow> 'h ust \<Rightarrow> bool" where
  "holding X s \<longleftrightarrow> sem_calls X s \<noteq> [] \<and> fst (last (sem_calls X s)) = PASSEREN"

text \<open>
  The contract of the other processes while this one, with support structure \<open>sa\<close>, is in a
  system call: they leave its support structure alone, they keep the invariant of the pool, and
  while this one holds the mutex and is not releasing it they do not touch the pool.
\<close>

definition kernel_rely :: "'h splat \<Rightarrow> u32 set \<Rightarrow> u32 \<Rightarrow> bool" where
  "kernel_rely X S sa \<longleftrightarrow> (\<forall>n a b c t. let t' = snd (SYSCALL X n a b c t) in
     sups t' sa = sups t sa \<and> calls t' = calls t \<and> (pool_ok X S t \<longrightarrow> pool_ok X S t') \<and>
     (holding X t \<and> \<not> on_sp_sem X (n, a, b, c) \<longrightarrow> same_pool S t t'))"

definition flash_ok :: "'h splat \<Rightarrow> bool" where
  "flash_ok X \<longleftrightarrow> DEVPERINT X = 8 \<and> FLASH_SEMS X \<le> of_nat (DEVINTNUM X + 1) \<and>
     (\<forall>u. 1 \<le> u \<and> u \<le> 8 \<longrightarrow> dev_sem_addr X (FLASH_SEMS X) (u - 1) \<noteq> addr_sp_sem X)"

definition fault_env :: "'h splat \<Rightarrow> u32 set \<Rightarrow> u32 \<Rightarrow> bool" where
  "fault_env X S sa \<longleftrightarrow> kernel_rely X S sa \<and> flash_ok X \<and> flags_ok X \<and> sa \<in> S"

definition stuck :: "'h splat \<Rightarrow> bool" where
  "stuck X \<longleftrightarrow> (\<exists>n\<in>{GETSUPPORTPTR, PASSEREN, VERHOGEN, DOIO}. \<exists>a b c t. fst (SYSCALL X n a b c t) = None)"

text \<open>During the fault: the pool with the frames \<open>F\<close> excluded, the process's own data, the mutex.\<close>

definition in_fault :: "'h splat \<Rightarrow> u32 set \<Rightarrow> u32 \<Rightarrow> u32 \<Rightarrow> (nat \<Rightarrow> state_t) \<Rightarrow>
    (int \<times> u32 \<times> u32 \<times> u32) list \<Rightarrow> nat set \<Rightarrow> 'h ust \<Rightarrow> bool" where
  "in_fault X S sa u es cs F s \<longleftrightarrow> pool_inv X S F s \<and> sup_asid (sups s sa) = u \<and>
     sup_exceptState (sups s sa) = es \<and> sem_calls X s = cs \<and> holding X s"

text \<open>The one way such code may end without returning: a call the process does not come back from.\<close>

definition lost :: "'h splat \<Rightarrow> u32 set \<Rightarrow> sup_stop \<Rightarrow> 'h ust \<Rightarrow> bool" where
  "lost X S w s \<longleftrightarrow> w = Gone \<and> stuck X \<and> pool_ok X S s"

lemma holding_cong: "calls s' = calls s \<Longrightarrow> holding X s' = holding X s"
  by (simp add: holding_def sem_calls_def)

lemma in_fault_cong:
  assumes "in_fault X S sa u es cs F s" and "same_pool S s s'"
    and "sup_exceptState (sups s' sa) = sup_exceptState (sups s sa)" and "calls s' = calls s"
  shows "in_fault X S sa u es cs F s'"
  using assms pool_inv_cong[OF assms(2)] holding_cong[OF assms(4), of X]
  by (simp add: in_fault_def sem_calls_def same_pool_def)

lemma in_fault_lost: "in_fault X S sa u es cs F s \<Longrightarrow> stuck X \<Longrightarrow> lost X S Gone s"
  by (auto simp: in_fault_def lost_def intro: pool_inv_mono)

lemma same_pool_simps:
  "same_pool S s (set_cell a v s)" "same_pool S s (upd_uhw f s)" "same_pool S s (say t m s)"
  "same_pool S s (sayi t m i s)" "same_pool S s (toggle_int X b s)" "same_pool S s (snd (update_tlb X h l s))"
  by (simp_all add: same_pool_def set_cell_def upd_uhw_def say_def sayi_def toggle_int_def update_tlb_def Let_def)

lemma quiet_simps:
  "sups (set_cell a v s) = sups s" "sups (upd_uhw f s) = sups s" "sups (say t m s) = sups s"
  "sups (sayi t m i s) = sups s" "sups (toggle_int X b s) = sups s" "sups (snd (update_tlb X h l s)) = sups s"
  "calls (set_cell a v s) = calls s" "calls (upd_uhw f s) = calls s" "calls (say t m s) = calls s"
  "calls (sayi t m i s) = calls s" "calls (toggle_int X b s) = calls s" "calls (snd (update_tlb X h l s)) = calls s"
  by (simp_all add: set_cell_def upd_uhw_def say_def sayi_def toggle_int_def update_tlb_def Let_def)

lemma in_fault_quiet:
  assumes "in_fault X S sa u es cs F s"
  shows "in_fault X S sa u es cs F (set_cell a v s)" and "in_fault X S sa u es cs F (sayi t m i s)"
    and "in_fault X S sa u es cs F (toggle_int X b s)" and "in_fault X S sa u es cs F (snd (update_tlb X h l s))"
  by (rule in_fault_cong[OF assms]; simp add: same_pool_simps quiet_simps)+

text \<open>A device call during the fault.\<close>

lemma fault_call:
  assumes env: "fault_env X S sa" and n: "n \<in> {PASSEREN, VERHOGEN, DOIO}" "\<not> on_sp_sem X (n, a, b, c)"
  shows "triple (in_fault X S sa u es cs F) (syscall X n a b c)
    (\<lambda>r s. in_fault X S sa u es cs F s \<and> (\<exists>t. fst (SYSCALL X n a b c t) = Some r)) (lost X S)"
proof (rule tripleI)
  fix s
  assume s: "in_fault X S sa u es cs F s"
  let ?t = "s\<lparr>calls := calls s @ [(n, a, b, c)]\<rparr>"
  obtain r t' where t': "SYSCALL X n a b c ?t = (r, t')" by fastforce
  have sem: "sem_calls X ?t = sem_calls X s" using n(2) by (simp add: sem_calls_def)
  have "pool_inv X S F ?t" by (rule pool_inv_cong[of S s]) (use s in \<open>simp_all add: in_fault_def same_pool_def\<close>)
  then have ft: "in_fault X S sa u es cs F ?t" using s sem by (auto simp: in_fault_def holding_def)
  have "same_pool S ?t t' \<and> sups t' sa = sups ?t sa \<and> calls t' = calls ?t"
  proof -
    have "snd (SYSCALL X n a b c ?t) = t'" by (simp add: t')
    moreover have "holding X ?t" using ft by (simp add: in_fault_def)
    moreover have "kernel_rely X S sa" using env by (simp add: fault_env_def)
    ultimately show ?thesis using n(2) unfolding kernel_rely_def Let_def by blast
  qed
  then have f: "in_fault X S sa u es cs F t'" using in_fault_cong[OF ft] by simp
  show "case syscall X n a b c s of
      Ret r s' \<Rightarrow> in_fault X S sa u es cs F s' \<and> (\<exists>t. fst (SYSCALL X n a b c t) = Some r)
    | Stop w s' \<Rightarrow> lost X S w s'"
  proof (cases r)
    case None
    have "fst (SYSCALL X n a b c ?t) = None" using t' None by simp
    then have "stuck X" unfolding stuck_def using n(1) by blast
    then show ?thesis using t' None in_fault_lost[OF f] by (simp add: syscall_def)
  next
    case (Some v)
    have "fst (SYSCALL X n a b c ?t) = Some v" using t' Some by simp
    then have "\<exists>t. fst (SYSCALL X n a b c t) = Some v" by blast
    then show ?thesis using t' Some f by (simp add: syscall_def)
  qed
qed

lemma p_on_dev_fault:
  assumes "fault_env X S sa" and "1 \<le> u" and "u \<le> 8"
  shows "triple (in_fault X S sa v es cs F) (p_on_dev X (FLASH_SEMS X) (u - 1)) (\<lambda>_. in_fault X S sa v es cs F) (lost X S)"
    and "triple (in_fault X S sa v es cs F) (v_on_dev X (FLASH_SEMS X) (u - 1)) (\<lambda>_. in_fault X S sa v es cs F) (lost X S)"
proof -
  have f: "DEVPERINT X = 8" "\<not> of_nat (DEVINTNUM X + 1) < FLASH_SEMS X"
    "dev_sem_addr X (FLASH_SEMS X) (u - 1) \<noteq> addr_sp_sem X"
    using assms by (auto simp: fault_env_def flash_ok_def)
  have "unat u \<le> 8" "1 \<le> unat u" using assms(2,3) by (simp_all add: word_le_nat_alt)
  then have g: "\<not> of_nat (DEVPERINT X) \<le> u - 1"
    using assms(2) by (simp add: f(1) word_le_nat_alt unat_sub)
  have c: "triple (in_fault X S sa v es cs F) (syscall X n (dev_sem_addr X (FLASH_SEMS X) (u - 1)) 0 0)
      (\<lambda>_. in_fault X S sa v es cs F) (lost X S)" if "n \<in> {PASSEREN, VERHOGEN}" for n
    by (rule triple_post[OF fault_call[OF assms(1)]]) (use that f(3) in \<open>auto simp: on_sp_sem_def\<close>)
  show "triple (in_fault X S sa v es cs F) (p_on_dev X (FLASH_SEMS X) (u - 1)) (\<lambda>_. in_fault X S sa v es cs F) (lost X S)"
    unfolding p_on_dev_def if_not_P[OF f(2)] if_not_P[OF g]
    by (rule triple_kseq[OF c triple_kreturn]) simp_all
  show "triple (in_fault X S sa v es cs F) (v_on_dev X (FLASH_SEMS X) (u - 1)) (\<lambda>_. in_fault X S sa v es cs F) (lost X S)"
    unfolding v_on_dev_def if_not_P[OF f(2)] if_not_P[OF g]
    by (rule triple_kseq[OF c triple_kreturn]) simp_all
qed

section \<open>The steps of a fault\<close>

text \<open>A DOIO the device answered with \<open>r\<close>.\<close>

definition device_said :: "'h splat \<Rightarrow> u32 \<Rightarrow> bool" where
  "device_said X r \<longleftrightarrow> (\<exists>a b c t. fst (SYSCALL X DOIO a b c t) = Some r)"

lemma flash_fault:
  assumes env: "fault_env X S sa" and u: "1 \<le> u" "u \<le> 8"
  shows "triple (in_fault X S sa v es cs F) (read_from_flash X u p d)
      (\<lambda>r s. in_fault X S sa v es cs F s \<and> device_said X r) (lost X S)"
    and "triple (in_fault X S sa v es cs F) (write_to_flash X u p d)
      (\<lambda>r s. in_fault X S sa v es cs F s \<and> device_said X r) (lost X S)"
proof -
  note pv = p_on_dev_fault[OF env u]
  have n: "DOIO \<in> {PASSEREN, VERHOGEN, DOIO}" "\<not> on_sp_sem X (DOIO, a, b, c)" for a b c
    by (simp_all add: on_sp_sem_def syscall_numbers)
  have d: "triple (in_fault X S sa v es cs F) (syscall X DOIO a b 0)
      (\<lambda>r s. in_fault X S sa v es cs F s \<and> device_said X r) (lost X S)" for a b
    by (rule triple_post[OF fault_call[OF env n]]) (auto simp: device_said_def)
  have e: "triple (\<lambda>s. in_fault X S sa v es cs F s \<and> device_said X r)
      (kseq (v_on_dev X (FLASH_SEMS X) (u - 1)) (kreturn r))
      (\<lambda>r s. in_fault X S sa v es cs F s \<and> device_said X r) (lost X S)" for r
  proof (cases "device_said X r")
    case True
    show ?thesis
      by (rule triple_pre[OF triple_kseq[OF pv(2) triple_kreturn]]) (simp_all add: True)
  qed (simp add: triple_def)
  show "triple (in_fault X S sa v es cs F) (read_from_flash X u p d)
      (\<lambda>r s. in_fault X S sa v es cs F s \<and> device_said X r) (lost X S)"
    unfolding read_from_flash_def Let_def
    by (rule triple_kseq[OF pv(1)], rule triple_kseq[OF triple_kmodify], erule in_fault_quiet, rule triple_kbind[OF d e])
  show "triple (in_fault X S sa v es cs F) (write_to_flash X u p d)
      (\<lambda>r s. in_fault X S sa v es cs F s \<and> device_said X r) (lost X S)"
    unfolding write_to_flash_def Let_def
    by (rule triple_kseq[OF pv(1)], rule triple_kseq[OF triple_kmodify], erule in_fault_quiet, rule triple_kbind[OF d e])
qed

lemma asid_in_use:
  assumes "1 \<le> u" and "u \<le> 8"
  shows "frame_in_use s u \<longleftrightarrow> asid_bit (sp_asids s) u"
proof -
  let ?i = "unat (u - 1)"
  have "unat u \<le> 8" "1 \<le> unat u" using assms by (simp_all add: word_le_nat_alt)
  then have i: "?i < 8" using assms(1) by (simp add: unat_sub)
  have "u \<noteq> -1" using assms(2) word_order.extremum_uniqueI[of "8 :: u32"] by auto
  moreover have "(scast (sp_asids s) :: u32) AND push_bit ?i 1 \<noteq> 0 \<longleftrightarrow> bit (scast (sp_asids s) :: u32) ?i"
    by (simp add: and_exp_eq_0_iff_not_bit push_bit_of_1)
  moreover have "bit (scast (sp_asids s) :: u32) ?i = bit (sp_asids s) ?i"
    using i by (cases "?i = 7") (auto simp: bit_signed_iff min_def)
  ultimately show ?thesis by (simp add: frame_in_use_def asid_bit_def)
qed

text \<open>Clearing the valid bit of the page that is in frame \<open>k\<close> takes the frame out of use.\<close>

definition invalidate :: "'h splat \<Rightarrow> u32 \<times> nat \<Rightarrow> 'h ust \<Rightarrow> 'h ust" where
  "invalidate X e s =
     (if page_valid X s e then upd_pte (fst e) (snd e) (\<lambda>t. t\<lparr>pte_entryLO := pte_entryLO t XOR ENTRYLO_VALID X\<rparr>) s else s)"

lemma pte_of_upd_pte:
  "pte_of (upd_pte sa i f s) e = (if e = (sa, i) then f (pte_of s e) else pte_of s e)"
  by (cases e) (auto simp: pte_of_def upd_pte_def upd_sup_def)

lemma upd_pte_sel [simp]:
  "sup_asid (sups (upd_pte sa i f s) q) = sup_asid (sups s q)"
  "sup_exceptState (sups (upd_pte sa i f s) q) = sup_exceptState (sups s q)"
  "calls (upd_pte sa i f s) = calls s" "sp_tbl (upd_pte sa i f s) = sp_tbl s" "sp_asids (upd_pte sa i f s) = sp_asids s"
  by (simp_all add: upd_pte_def upd_sup_def)

lemma clear_valid:
  assumes "flags_ok X" and "x AND ENTRYLO_VALID X \<noteq> 0"
  shows "(x XOR ENTRYLO_VALID X) AND ENTRYLO_VALID X = 0"
proof -
  obtain b where "b < 12" "ENTRYLO_VALID X = push_bit b 1" using assms(1) by (auto simp: flags_ok_def)
  then show ?thesis using assms(2) by (simp add: and_exp_eq_0_iff_not_bit push_bit_of_1 bit_simps)
qed

lemma invalidate_valid:
  assumes "flags_ok X" and "page_valid X (invalidate X e s) e'"
  shows "e' \<noteq> e" and "pte_of (invalidate X e s) e' = pte_of s e'"
proof -
  show ne: "e' \<noteq> e"
    using assms clear_valid[OF assms(1)]
    by (cases e) (auto simp: invalidate_def page_valid_def pte_of_upd_pte split: if_splits)
  show "pte_of (invalidate X e s) e' = pte_of s e'"
    using ne by (cases e) (auto simp: invalidate_def pte_of_upd_pte)
qed

lemma invalidate_sel [simp]:
  "sup_asid (sups (invalidate X e s) q) = sup_asid (sups s q)"
  "sup_exceptState (sups (invalidate X e s) q) = sup_exceptState (sups s q)"
  "calls (invalidate X e s) = calls s" "sp_tbl (invalidate X e s) = sp_tbl s" "sp_asids (invalidate X e s) = sp_asids s"
  by (simp_all add: invalidate_def)

lemma in_fault_invalidate:
  assumes "in_fault X S sa u es cs {} s" and "flags_ok X"
  shows "in_fault X S sa u es cs {k} (invalidate X (pg_tbl_entry (sp_tbl s k)) s)"
proof -
  let ?s = "invalidate X (pg_tbl_entry (sp_tbl s k)) s"
  have inv: "pool_inv X S {} s" using assms(1) by (simp add: in_fault_def)
  have "pool_inv X S {k} ?s"
    unfolding pool_inv_def
  proof (intro conjI ballI allI impI)
    fix q p
    assume q: "q \<in> S" "p < USERPGTBLSIZE" "page_valid X ?s (q, p)"
    note v = invalidate_valid[OF assms(2) q(3)]
    have "page_valid X s (q, p)" using q(3) v(2) by (simp add: page_valid_def)
    from pool_invD[OF inv q(1,2) this] obtain j where
      j: "asid_bit (sp_asids s) (sup_asid (sups s q))" "mapped X s j (q, p)" by blast
    show "asid_bit (sp_asids ?s) (sup_asid (sups ?s q))" using j(1) by simp
    have "j \<noteq> k" using j(2) v(1) by (auto simp: mapped_def)
    moreover have "mapped X ?s j (q, p)" using j(2) v(2) by (simp add: mapped_def)
    ultimately show "\<exists>j. j \<notin> {k} \<and> mapped X ?s j (q, p)" by blast
  qed (use pool_inv_asid[OF inv] in simp_all)
  then show ?thesis using assms(1) by (auto simp: in_fault_def holding_def sem_calls_def)
qed

lemma in_fault_unused:
  assumes "in_fault X S sa u es cs {} s" and "\<not> frame_in_use s (e_asid (sp_tbl s k))"
  shows "in_fault X S sa u es cs {k} s"
proof -
  have inv: "pool_inv X S {} s" using assms(1) by (simp add: in_fault_def)
  have "pool_inv X S {k} s"
    unfolding pool_inv_def
  proof (intro conjI ballI allI impI)
    fix q p
    assume q: "q \<in> S" "p < USERPGTBLSIZE" "page_valid X s (q, p)"
    from pool_invD[OF inv q] obtain j where
      j: "asid_bit (sp_asids s) (sup_asid (sups s q))" "mapped X s j (q, p)" by blast
    show "asid_bit (sp_asids s) (sup_asid (sups s q))" by (rule j(1))
    have "frame_in_use s (sup_asid (sups s q))" using asid_in_use pool_inv_asid[OF inv q(1)] j(1) by blast
    then have "j \<noteq> k" using assms(2) j(2) by (auto simp: mapped_def)
    then show "\<exists>j. j \<notin> {k} \<and> mapped X s j (q, p)" using j(2) by blast
  qed (use pool_inv_asid[OF inv] in simp_all)
  then show ?thesis using assms(1) by (simp add: in_fault_def)
qed

lemma in_fault_release:
  assumes "in_fault X S sa u es cs {k} s"
  shows "in_fault X S sa u es cs {k} (s\<lparr>sp_tbl := (sp_tbl s)(k := t)\<rparr>)"
proof -
  have "pool_inv X S {k} (s\<lparr>sp_tbl := (sp_tbl s)(k := t)\<rparr>)"
    using assms unfolding in_fault_def pool_inv_def by (fastforce simp: mapped_def page_valid_def pte_of_def)
  then show ?thesis using assms by (auto simp: in_fault_def holding_def sem_calls_def)
qed

text \<open>\<open>free_frame\<close> with the page it evicts named once.\<close>

lemma free_frame_alt:
  "free_frame X k u s =
     (let e = pg_tbl_entry (sp_tbl s k);
          s2 = invalidate X e (toggle_int X False s);
          s4 = toggle_int X True (snd (update_tlb X (pte_entryHI (pte_of s2 e)) (pte_entryLO (pte_of s2 e)) s2))
      in kbind (write_to_flash X u (page_index X (pte_entryHI (pte_of s4 e))) (ENTRYLO_GET_PFN X (pte_entryLO (pte_of s4 e))))
          (\<lambda>dev_stat.
             if dev_stat \<noteq> READY X then kmodify (sayi ''VM'' ''error writing frame to dev'' dev_stat)
             else kmodify (\<lambda>s. s\<lparr>sp_tbl := (sp_tbl s)(k := (sp_tbl s k)\<lparr>e_asid := -1\<rparr>)\<rparr>)) s4)"
proof -
  obtain psa pi where e: "pg_tbl_entry (sp_tbl s k) = (psa, pi)" by fastforce
  show ?thesis
    unfolding free_frame_def e Let_def prod.case invalidate_def page_valid_def fst_conv snd_conv split_beta by (rule refl)
qed

lemma free_frame_fault:
  assumes env: "fault_env X S sa" and u: "1 \<le> u" "u \<le> 8"
  shows "triple (in_fault X S sa v es cs {}) (free_frame X k u) (\<lambda>_. in_fault X S sa v es cs {k}) (lost X S)"
proof (rule tripleI)
  fix s
  assume s: "in_fault X S sa v es cs {} s"
  have fl: "flags_ok X" using env by (simp add: fault_env_def)
  obtain psa pi where e: "pg_tbl_entry (sp_tbl s k) = (psa, pi)" by fastforce
  let ?s1 = "toggle_int X False s"
  let ?s2 = "invalidate X (psa, pi) ?s1"
  let ?s3 = "snd (update_tlb X (pte_entryHI (pte_of ?s2 (psa, pi))) (pte_entryLO (pte_of ?s2 (psa, pi))) ?s2)"
  let ?s4 = "toggle_int X True ?s3"
  have "sp_tbl ?s1 = sp_tbl s" by (simp add: toggle_int_def upd_uhw_def)
  then have "in_fault X S sa v es cs {k} ?s2"
    using in_fault_invalidate[OF in_fault_quiet(3)[OF s, where b = False] fl, where k = k] by (simp only: e)
  then have s4: "in_fault X S sa v es cs {k} ?s4" by (intro in_fault_quiet)
  have "triple (in_fault X S sa v es cs {k}) (kbind (write_to_flash X u p d) (\<lambda>dev_stat.
      if dev_stat \<noteq> READY X then kmodify (sayi ''VM'' ''error writing frame to dev'' dev_stat)
      else kmodify (\<lambda>s. s\<lparr>sp_tbl := (sp_tbl s)(k := (sp_tbl s k)\<lparr>e_asid := -1\<rparr>)\<rparr>)))
      (\<lambda>_. in_fault X S sa v es cs {k}) (lost X S)" for p d
    by (rule triple_kbind[OF flash_fault(2)[OF env u]])
       (auto intro!: triple_kmodify triple_if in_fault_quiet in_fault_release)
  note body = tripleD[OF this s4]
  have "free_frame X k u s = kbind (write_to_flash X u (page_index X (pte_entryHI (pte_of ?s4 (psa, pi))))
        (ENTRYLO_GET_PFN X (pte_entryLO (pte_of ?s4 (psa, pi)))))
      (\<lambda>dev_stat.
        if dev_stat \<noteq> READY X then kmodify (sayi ''VM'' ''error writing frame to dev'' dev_stat)
        else kmodify (\<lambda>s. s\<lparr>sp_tbl := (sp_tbl s)(k := (sp_tbl s k)\<lparr>e_asid := -1\<rparr>)\<rparr>)) ?s4"
    by (simp only: free_frame_alt e Let_def)
  then show "case free_frame X k u s of Ret _ s' \<Rightarrow> in_fault X S sa v es cs {k} s' | Stop w s' \<Rightarrow> lost X S w s'"
    using body by (simp only:)
qed

lemma asid_bit_or: "1 \<le> u \<Longrightarrow> u \<le> 8 \<Longrightarrow> asid_bit (m OR push_bit (unat (u - 1)) 1) u"
  and asid_bit_or_mono: "asid_bit m w \<Longrightarrow> asid_bit (m OR x) w"
proof -
  assume u: "1 \<le> u" "u \<le> 8"
  then have "unat u \<le> 8" "1 \<le> unat u" by (simp_all add: word_le_nat_alt)
  then have "unat (u - 1) < 8" using u(1) by (simp add: unat_sub)
  then show "asid_bit (m OR push_bit (unat (u - 1)) 1) u" by (simp add: asid_bit_def bit_simps)
qed (simp add: asid_bit_def bit_simps)

text \<open>The three tables after the page has been given its frame.\<close>

definition with_page :: "'h splat \<Rightarrow> u32 \<Rightarrow> nat \<Rightarrow> nat \<Rightarrow> 'h ust \<Rightarrow> 'h ust" where
  "with_page X sa k pg s = upd_pte sa pg
     (\<lambda>e. e\<lparr>pte_entryLO := frame_addr k OR ENTRYLO_VALID X OR ENTRYLO_DIRTY X\<rparr>)
     (s\<lparr>sp_tbl := (sp_tbl s)(k := \<lparr>e_asid = sup_asid (sups s sa), e_vpn = KUSEG + push_bit VPNSHIFT (of_nat pg),
                                 pg_tbl_entry = (sa, pg)\<rparr>),
        sp_asids := sp_asids s OR push_bit (unat (sup_asid (sups s sa) - 1)) 1\<rparr>)"

lemma in_fault_with_page:
  assumes "in_fault X S sa u es cs {k} s" and "flags_ok X" and "sa \<in> S" and "k < SP_SIZE"
  shows "in_fault X S sa u es cs {} (with_page X sa k pg s)" and "mapped X (with_page X sa k pg s) k (sa, pg)"
    and "page_valid X (with_page X sa k pg s) (sa, pg)"
proof -
  let ?s = "with_page X sa k pg s"
  have inv: "pool_inv X S {k} s" using assms(1) by (simp add: in_fault_def)
  have asid: "sup_asid (sups ?s q) = sup_asid (sups s q)" for q
    by (simp add: with_page_def)
  have pte: "pte_of ?s e = (if e = (sa, pg)
      then (pte_of s e)\<lparr>pte_entryLO := frame_addr k OR ENTRYLO_VALID X OR ENTRYLO_DIRTY X\<rparr> else pte_of s e)" for e
    by (simp add: with_page_def pte_of_upd_pte) (simp add: pte_of_def)
  have tbl: "sp_tbl ?s j = (if j = k then \<lparr>e_asid = sup_asid (sups s sa), e_vpn = KUSEG + push_bit VPNSHIFT (of_nat pg),
      pg_tbl_entry = (sa, pg)\<rparr> else sp_tbl s j)" for j
    by (simp add: with_page_def)
  show m: "mapped X ?s k (sa, pg)" using assms(4) by (simp add: mapped_def asid pte tbl)
  obtain b where b: "b < 12" "ENTRYLO_VALID X = push_bit b 1" using assms(2) by (auto simp: flags_ok_def)
  have "(frame_addr k OR ENTRYLO_VALID X OR ENTRYLO_DIRTY X) AND ENTRYLO_VALID X \<noteq> 0"
    using b(1) by (simp add: b(2) and_exp_eq_0_iff_not_bit push_bit_of_1 bit_simps)
  then show "page_valid X ?s (sa, pg)" by (simp add: page_valid_def pte)
  have "pool_inv X S {} ?s"
    unfolding pool_inv_def
  proof (intro conjI ballI allI impI)
    fix q p
    assume q: "q \<in> S" "p < USERPGTBLSIZE" "page_valid X ?s (q, p)"
    have bits: "sp_asids ?s = sp_asids s OR push_bit (unat (sup_asid (sups s sa) - 1)) 1"
      by (simp add: with_page_def)
    have "asid_bit (sp_asids ?s) (sup_asid (sups ?s q)) \<and> (\<exists>j. mapped X ?s j (q, p))"
    proof (cases "(q, p) = (sa, pg)")
      case True
      then show ?thesis using m asid_bit_or pool_inv_asid[OF inv assms(3)] by (auto simp: bits asid)
    next
      case False
      then have "page_valid X s (q, p)" using q(3) by (auto simp: page_valid_def pte split: if_splits)
      from pool_invD[OF inv q(1,2) this] obtain j where
        j: "asid_bit (sp_asids s) (sup_asid (sups s q))" "j \<noteq> k" "mapped X s j (q, p)" by blast
      have "mapped X ?s j (q, p)" using j(2,3) False by (auto simp: mapped_def asid pte tbl)
      then show ?thesis using asid_bit_or_mono[OF j(1)] by (auto simp: bits asid)
    qed
    then show "asid_bit (sp_asids ?s) (sup_asid (sups ?s q))" "\<exists>j. j \<notin> {} \<and> mapped X ?s j (q, p)" by blast+
  qed (use pool_inv_asid[OF inv] asid in simp_all)
  moreover have "sem_calls X ?s = sem_calls X s" "sup_exceptState (sups ?s sa) = sup_exceptState (sups s sa)"
    by (simp_all add: sem_calls_def with_page_def)
  ultimately show "in_fault X S sa u es cs {} ?s" using assms(1) by (auto simp: in_fault_def holding_def asid)
qed

lemma mapped_cong:
  assumes "same_pool S s s'"
  shows "mapped X s' k e = mapped X s k e" and "page_valid X s' e = page_valid X s e"
  using assms by (simp_all add: same_pool_def mapped_def page_valid_def pte_of_def)

lemma frame_addr_unat: "SP_BEGIN + frame * PAGESIZE = frame_addr (unat frame)"
  by (simp add: frame_addr_def)

lemma map_page_fault:
  assumes env: "fault_env X S sa" and k: "unat frame < SP_SIZE" and pg: "pg < USERPGTBLSIZE"
  shows "triple (in_fault X S sa u es cs {unat frame}) (map_page X sa frame pg (SP_BEGIN + frame * PAGESIZE))
    (\<lambda>_ s. in_fault X S sa u es cs {} s \<and> mapped X s (unat frame) (sa, pg) \<and> page_valid X s (sa, pg)) E"
proof (rule tripleI)
  fix s
  assume s: "in_fault X S sa u es cs {unat frame} s"
  have fl: "flags_ok X" "sa \<in> S" using env by (simp_all add: fault_env_def)
  let ?s1 = "toggle_int X False s"
  let ?s2 = "with_page X sa (unat frame) pg ?s1"
  let ?s3 = "snd (update_tlb X (pte_entryHI (pte_of ?s2 (sa, pg))) (pte_entryLO (pte_of ?s2 (sa, pg))) ?s2)"
  have s1: "in_fault X S sa u es cs {unat frame} ?s1" by (rule in_fault_quiet(3)[OF s])
  note P = in_fault_with_page[OF s1 fl k, where pg = pg]
  have "1 \<le> u" "u \<le> 8" using s pool_inv_asid[OF _ fl(2)] by (auto simp: in_fault_def)
  then have u: "\<not> 8 < u" "u \<noteq> 0" by auto
  have nf: "\<not> of_nat SP_SIZE \<le> frame"
    using k by (simp add: word_le_nat_alt SP_SIZE_def UPROCMAX_def)
  have "sup_asid (sups ?s1 sa) = u" using s1 by (simp add: in_fault_def)
  then have "map_page X sa frame pg (SP_BEGIN + frame * PAGESIZE) s = Ret () (toggle_int X True ?s3)"
    using nf pg u unfolding frame_addr_unat
    by (simp add: map_page_def fill_frame_def set_sp_asids_def with_page_def kseq_def kbind_def kmodify_def kread_def
        Let_def)
  moreover have sp: "same_pool S ?s2 (toggle_int X True ?s3)"
    by (rule same_pool_trans[OF same_pool_simps(6) same_pool_simps(5)])
  ultimately show "case map_page X sa frame pg (SP_BEGIN + frame * PAGESIZE) s of
      Ret _ s' \<Rightarrow> in_fault X S sa u es cs {} s' \<and> mapped X s' (unat frame) (sa, pg) \<and> page_valid X s' (sa, pg)
    | Stop w s' \<Rightarrow> E w s'"
    using in_fault_quiet(3)[OF in_fault_quiet(4)[OF P(1)]] P(2,3) by (simp add: mapped_cong[OF sp])
qed

text \<open>Taking a frame: the victim's page leaves it, the missing page is read into it.\<close>

lemma take_frame_fault:
  assumes env: "fault_env X S sa" and u: "1 \<le> u" "u \<le> 8" and s: "in_fault X S sa u es cs {} s"
  shows "case (if frame_in_use s (e_asid (sp_tbl s k)) then free_frame X k (sup_asid (sups s sa)) else kreturn ()) s of
    Ret _ s' \<Rightarrow> in_fault X S sa u es cs {k} s' | Stop w s' \<Rightarrow> lost X S w s'"
proof -
  have "sup_asid (sups s sa) = u" using s by (simp add: in_fault_def)
  then show ?thesis
    using tripleD[OF free_frame_fault[OF env u] s] in_fault_unused[OF s] by (simp add: kreturn_def)
qed

text \<open>How a fault ends: the process goes on with its page mapped, or the pool stays locked.\<close>

definition fault_served :: "'h splat \<Rightarrow> u32 set \<Rightarrow> u32 \<Rightarrow> nat \<Rightarrow> (nat \<Rightarrow> state_t) \<Rightarrow>
    (int \<times> u32 \<times> u32 \<times> u32) list \<Rightarrow> sup_stop \<Rightarrow> 'h ust \<Rightarrow> bool" where
  "fault_served X S sa pg es cs w s \<longleftrightarrow> w = Resumed (es 0) \<and> pool_ok X S s \<and> device_said X (READY X) \<and>
     sem_calls X s = cs @ [(VERHOGEN, addr_sp_sem X, 0, 0)] \<and>
     (\<exists>k s3. pool_ok X S s3 \<and> mapped X s3 k (sa, pg) \<and> page_valid X s3 (sa, pg) \<and> sem_calls X s3 = cs \<and>
        s = snd (SYSCALL X VERHOGEN (addr_sp_sem X) 0 0
              (s3\<lparr>calls := calls s3 @ [(VERHOGEN, addr_sp_sem X, 0, 0)]\<rparr>)))"

definition read_failed :: "'h splat \<Rightarrow> u32 set \<Rightarrow> (int \<times> u32 \<times> u32 \<times> u32) list \<Rightarrow> 'h ust \<Rightarrow> bool" where
  "read_failed X S cs s \<longleftrightarrow> pool_ok X S s \<and> sem_calls X s = cs \<and> (\<exists>r. r \<noteq> READY X \<and> device_said X r)"

lemma calls_update_simps:
  "pool_inv X S F (s\<lparr>calls := c\<rparr>) = pool_inv X S F s" "sups (s\<lparr>calls := c\<rparr>) = sups s"
  by (simp_all add: pool_inv_def mapped_def page_valid_def pte_of_def)

text \<open>A call on the mutex itself.\<close>

lemma mutex_call:
  assumes env: "fault_env X S sa" and n: "n \<in> {PASSEREN, VERHOGEN}"
    and t: "SYSCALL X n (addr_sp_sem X) 0 0 (s\<lparr>calls := calls s @ [(n, addr_sp_sem X, 0, 0)]\<rparr>) = (r, t')"
    and inv: "pool_ok X S s"
  shows "pool_ok X S t'" and "sups t' sa = sups s sa" and "sem_calls X t' = sem_calls X s @ [(n, addr_sp_sem X, 0, 0)]"
    and "r = None \<Longrightarrow> stuck X"
proof -
  let ?t = "s\<lparr>calls := calls s @ [(n, addr_sp_sem X, 0, 0)]\<rparr>"
  have "kernel_rely X S sa" using env by (simp add: fault_env_def)
  then have "sups t' sa = sups ?t sa \<and> calls t' = calls ?t \<and> (pool_ok X S ?t \<longrightarrow> pool_ok X S t')"
    using t unfolding kernel_rely_def Let_def by (metis snd_conv)
  then show "pool_ok X S t'" "sups t' sa = sups s sa" "sem_calls X t' = sem_calls X s @ [(n, addr_sp_sem X, 0, 0)]"
    using inv n by (simp_all add: calls_update_simps sem_calls_def on_sp_sem_def)
  have f: "fst (SYSCALL X n (addr_sp_sem X) 0 0 ?t) = r" by (simp add: t)
  show "r = None \<Longrightarrow> stuck X" unfolding stuck_def using f n by blast
qed

lemma release_fault:
  assumes env: "fault_env X S sa" and dev: "device_said X (READY X)"
  shows "triple (\<lambda>s. in_fault X S sa u es cs {} s \<and> mapped X s k (sa, pg) \<and> page_valid X s (sa, pg))
    (kseq (syscall X VERHOGEN (addr_sp_sem X) 0 0) (kread (\<lambda>s. kstop (Resumed (sup_exceptState (sups s sa) 0)))))
    (\<lambda>_ :: unit. read_failed X S cs) (\<lambda>w s. lost X S w s \<or> fault_served X S sa pg es cs w s)"
proof (rule tripleI)
  fix s
  assume s: "in_fault X S sa u es cs {} s \<and> mapped X s k (sa, pg) \<and> page_valid X s (sa, pg)"
  let ?t = "s\<lparr>calls := calls s @ [(VERHOGEN, addr_sp_sem X, 0, 0)]\<rparr>"
  obtain r t' where t': "SYSCALL X VERHOGEN (addr_sp_sem X) 0 0 ?t = (r, t')" by fastforce
  have inv: "pool_ok X S s" "sup_exceptState (sups s sa) = es" "sem_calls X s = cs" using s by (simp_all add: in_fault_def)
  have m: "pool_ok X S t'" "sups t' sa = sups s sa" "sem_calls X t' = sem_calls X s @ [(VERHOGEN, addr_sp_sem X, 0, 0)]"
    "r = None \<Longrightarrow> stuck X" using mutex_call[OF env _ t' inv(1)] by simp_all
  have "lost X S Gone t'" if "r = None" using m(1,4) that by (simp add: lost_def)
  moreover have "fault_served X S sa pg es cs (Resumed (es 0)) t'"
    unfolding fault_served_def using m(1,3) s inv t' dev by (auto intro!: exI[of _ k] exI[of _ s])
  ultimately show "case kseq (syscall X VERHOGEN (addr_sp_sem X) 0 0) (kread (\<lambda>s. kstop (Resumed (sup_exceptState (sups s sa) 0)))) s of
      Ret (_ :: unit) s' \<Rightarrow> read_failed X S cs s'
    | Stop w s' \<Rightarrow> lost X S w s' \<or> fault_served X S sa pg es cs w s'"
    using t' m(2) inv(2)
    by (cases r) (simp_all add: kseq_def kbind_def syscall_def kread_def kstop_def)
qed

lemma read_and_map_fault:
  assumes env: "fault_env X S sa" and k: "unat frame < SP_SIZE" and pg: "unat mpg < USERPGTBLSIZE" and u: "1 \<le> u" "u \<le> 8"
  shows "triple (in_fault X S sa u es cs {unat frame})
    (kbind (read_from_flash X u mpg (SP_BEGIN + frame * PAGESIZE)) (\<lambda>dev_stat.
       if dev_stat \<noteq> READY X then kmodify (sayi ''VM'' ''error reading frame content from dev'' dev_stat)
       else kseq (map_page X sa frame (unat mpg) (SP_BEGIN + frame * PAGESIZE))
            (kseq (syscall X VERHOGEN (addr_sp_sem X) 0 0)
                  (kread (\<lambda>s. kstop (Resumed (sup_exceptState (sups s sa) 0)))))))
    (\<lambda>_. read_failed X S cs) (\<lambda>w s. lost X S w s \<or> fault_served X S sa (unat mpg) es cs w s)"
proof -
  let ?A = "in_fault X S sa u es cs"
  have read: "triple (?A {unat frame}) (read_from_flash X u mpg (SP_BEGIN + frame * PAGESIZE))
      (\<lambda>r s. ?A {unat frame} s \<and> device_said X r)
      (\<lambda>w s. lost X S w s \<or> fault_served X S sa (unat mpg) es cs w s)"
    by (rule triple_post[OF flash_fault(1)[OF env u]]) auto
  have bad: "triple (\<lambda>s. ?A {unat frame} s \<and> device_said X r)
      (kmodify (sayi ''VM'' ''error reading frame content from dev'' r)) (\<lambda>_. read_failed X S cs) E" if "r \<noteq> READY X" for r E
  proof (rule triple_kmodify)
    fix s
    assume s: "?A {unat frame} s \<and> device_said X r"
    have "?A {unat frame} (sayi ''VM'' ''error reading frame content from dev'' r s)"
      using s by (intro in_fault_quiet(2)) simp
    then have "?A {} (sayi ''VM'' ''error reading frame content from dev'' r s)"
      using pool_inv_mono[OF _ empty_subsetI] by (simp only: in_fault_def) blast
    then show "read_failed X S cs (sayi ''VM'' ''error reading frame content from dev'' r s)"
      using s that by (auto simp: read_failed_def in_fault_def)
  qed
  have good: "triple (\<lambda>s. ?A {unat frame} s \<and> device_said X r)
      (kseq (map_page X sa frame (unat mpg) (SP_BEGIN + frame * PAGESIZE))
            (kseq (syscall X VERHOGEN (addr_sp_sem X) 0 0)
                  (kread (\<lambda>s. kstop (Resumed (sup_exceptState (sups s sa) 0))))))
      (\<lambda>_ :: unit. read_failed X S cs) (\<lambda>w s. lost X S w s \<or> fault_served X S sa (unat mpg) es cs w s)" if "r = READY X" for r
  proof (cases "device_said X r")
    case True
    then have dev: "device_said X (READY X)" by (simp add: that)
    show ?thesis
      by (rule triple_pre[OF triple_kseq[OF map_page_fault[OF env k pg, where u = u] release_fault[OF env dev]]]) simp
  qed (simp add: triple_def)
  show ?thesis by (rule triple_kbind[OF read], rule triple_if[OF bad good]) simp_all
qed

lemma serve_fault_run:
  assumes env: "fault_env (X :: 'h splat) S sa" and inv: "pool_ok X S s"
    and pg: "page_index X (entry_hi (sup_exceptState (sups s sa) PGFAULTEXCEPT)) = mpg" "unat mpg < USERPGTBLSIZE"
    and cs: "cs = sem_calls X s @ [(PASSEREN, addr_sp_sem X, 0, 0)]" and es: "es = sup_exceptState (sups s sa)"
  shows "case serve_fault X sa s of
      Ret _ s' \<Rightarrow> read_failed X S cs s'
    | Stop w s' \<Rightarrow> lost X S w s' \<or> fault_served X S sa (unat mpg) es cs w s'"
proof -
  let ?t = "s\<lparr>calls := calls s @ [(PASSEREN, addr_sp_sem X, 0, 0)]\<rparr>"
  define u where "u = sup_asid (sups s sa)"
  have u: "1 \<le> u" "u \<le> 8" using pool_inv_asid[OF inv] env by (auto simp: fault_env_def u_def)
  obtain r t' where t': "SYSCALL X PASSEREN (addr_sp_sem X) 0 0 ?t = (r, t')" by fastforce
  have m: "pool_ok X S t'" "sups t' sa = sups s sa" "sem_calls X t' = cs" "r = None \<Longrightarrow> stuck X"
    using mutex_call[OF env _ t' inv] by (simp_all add: cs)
  show ?thesis
  proof (cases r)
    case None
    then show ?thesis using m t' by (simp add: serve_fault_def kseq_def kbind_def syscall_def lost_def)
  next
    case (Some v)
    obtain k s1 where k: "choose_frame t' = (k, s1)" by fastforce
    note kb = choose_frame_bound[OF k]
    have "in_fault X S sa u es cs {} t'" using m(1,2,3) by (auto simp: in_fault_def u_def es holding_def cs)
    then have s1: "in_fault X S sa u es cs {} s1"
      by (rule in_fault_cong) (simp_all add: kb(2) same_pool_def)
    note taken = take_frame_fault[OF env u s1, of "unat k"]
    define free where "free = (if frame_in_use s1 (e_asid (sp_tbl s1 (unat k)))
                  then free_frame X (unat k) (sup_asid (sups s1 sa)) else kreturn ())"
    define rest where "rest = (\<lambda>s2 :: 'h ust. kbind (read_from_flash X (sup_asid (sups s2 sa)) mpg (SP_BEGIN + k * PAGESIZE))
        (\<lambda>dev_stat.
           if dev_stat \<noteq> READY X then kmodify (sayi ''VM'' ''error reading frame content from dev'' dev_stat)
           else kseq (map_page X sa k (unat mpg) (SP_BEGIN + k * PAGESIZE))
                (kseq (syscall X VERHOGEN (addr_sp_sem X) 0 0)
                      (kread (\<lambda>s. kstop (Resumed (sup_exceptState (sups s sa) 0)))))))"
    have "page_index X (entry_hi (sup_exceptState (sups t' sa) PGFAULTEXCEPT)) = mpg" by (simp add: m(2) pg(1))
    moreover have "syscall X PASSEREN (addr_sp_sem X) 0 0 s = Ret v t'" using t' Some by (simp add: syscall_def)
    ultimately have run: "serve_fault X sa s = kseq free (kread rest) s1"
      unfolding serve_fault_def by (simp only: kseq_Ret Let_def k prod.case free_def rest_def)
    show ?thesis
    proof (cases "free s1")
      case (Stop w s2)
      then show ?thesis using taken unfolding run free_def[symmetric] by (simp add: kseq_Stop)
    next
      case (Ret x s2)
      have s2: "in_fault X S sa u es cs {unat k} s2" using taken Ret unfolding free_def[symmetric] by simp
      then have "sup_asid (sups s2 sa) = u" by (simp add: in_fault_def)
      then have "kseq free (kread rest) s1 = kbind (read_from_flash X u mpg (SP_BEGIN + k * PAGESIZE))
          (\<lambda>dev_stat.
             if dev_stat \<noteq> READY X then kmodify (sayi ''VM'' ''error reading frame content from dev'' dev_stat)
             else kseq (map_page X sa k (unat mpg) (SP_BEGIN + k * PAGESIZE))
                  (kseq (syscall X VERHOGEN (addr_sp_sem X) 0 0)
                        (kread (\<lambda>s. kstop (Resumed (sup_exceptState (sups s sa) 0)))))) s2"
        by (simp add: kseq_Ret[where m = free, OF Ret] kread_run rest_def)
      then show ?thesis unfolding run using tripleD[OF read_and_map_fault[OF env kb(1) pg(2) u] s2] by (simp only:)
    qed
  qed
qed

section \<open>The handler\<close>

text \<open>The first request of the handler, made in \<open>s\<close>, is answered with the support structure \<open>sa\<close>.\<close>

definition answers_support :: "'h splat \<Rightarrow> u32 \<Rightarrow> 'h ust \<Rightarrow> bool" where
  "answers_support X sa s \<longleftrightarrow> sa \<noteq> NULL \<and>
     fst (SYSCALL X GETSUPPORTPTR 0 0 0 (s\<lparr>calls := calls s @ [(GETSUPPORTPTR, 0, 0, 0)]\<rparr>)) = Some sa"

text \<open>A call that is not on the mutex, made outside the critical section.\<close>

lemma outside_call:
  assumes env: "fault_env X S sa" and n: "\<not> on_sp_sem X (n, a, b, c)" and inv: "pool_ok X S s"
    and t: "SYSCALL X n a b c (s\<lparr>calls := calls s @ [(n, a, b, c)]\<rparr>) = (r, t')"
  shows "pool_ok X S t'" and "sups t' sa = sups s sa" and "sem_calls X t' = sem_calls X s"
proof -
  let ?t = "s\<lparr>calls := calls s @ [(n, a, b, c)]\<rparr>"
  have "kernel_rely X S sa" using env by (simp add: fault_env_def)
  moreover have "snd (SYSCALL X n a b c ?t) = t'" by (simp add: t)
  ultimately have "sups t' sa = sups ?t sa \<and> calls t' = calls ?t \<and> (pool_ok X S ?t \<longrightarrow> pool_ok X S t')"
    unfolding kernel_rely_def Let_def by blast
  then show "pool_ok X S t'" "sups t' sa = sups s sa" "sem_calls X t' = sem_calls X s"
    using inv n by (simp_all add: calls_update_simps sem_calls_def)
qed

lemma support_call:
  assumes env: "fault_env X S sa" and inv: "pool_ok X S s" and ans: "answers_support X sa s"
  obtains t where "syscall X GETSUPPORTPTR 0 0 0 s = Ret sa t" and "pool_ok X S t" and "sups t sa = sups s sa"
    and "sem_calls X t = sem_calls X s"
proof -
  obtain r t where t: "SYSCALL X GETSUPPORTPTR 0 0 0 (s\<lparr>calls := calls s @ [(GETSUPPORTPTR, 0, 0, 0)]\<rparr>) = (r, t)" by fastforce
  moreover have "fst (SYSCALL X GETSUPPORTPTR 0 0 0 (s\<lparr>calls := calls s @ [(GETSUPPORTPTR, 0, 0, 0)]\<rparr>)) = Some sa"
    using ans unfolding answers_support_def by blast
  ultimately have "r = Some sa" by simp
  moreover have "\<not> on_sp_sem X (GETSUPPORTPTR, 0, 0, 0)" by (simp add: on_sp_sem_def syscall_numbers)
  ultimately show thesis using that outside_call[OF env _ inv t] t by (simp add: syscall_def)
qed

lemma safe_kill_pool:
  assumes env: "fault_env X S sa" and inv: "pool_ok X S s"
  shows "case safe_kill X s of Ret _ s' \<Rightarrow> pool_ok X S s' | Stop w s' \<Rightarrow> w = Gone \<and> pool_ok X S s'"
proof -
  obtain r t where t: "SYSCALL X TERMPROCESS 0 0 0 (s\<lparr>calls := calls s @ [(TERMPROCESS, 0, 0, 0)]\<rparr>) = (r, t)" by fastforce
  moreover have "\<not> on_sp_sem X (TERMPROCESS, 0, 0, 0)" by (simp add: on_sp_sem_def syscall_numbers)
  ultimately show ?thesis using outside_call(1)[OF env _ inv t]
    by (cases r) (simp_all add: safe_kill_def kseq_def kbind_def kreturn_def syscall_def)
qed

text \<open>The whole handler on a fault it serves, and on a write to a page that may not be written.\<close>

lemma tlb_exc_handler_serves:
  assumes env: "fault_env X S sa" and inv: "pool_ok X S s" and ans: "answers_support X sa s"
    and es: "es = sup_exceptState (sups s sa)"
    and exc: "CAUSE_GET_EXCCODE X (cause (es PGFAULTEXCEPT)) \<noteq> EXC_MOD X"
    and pg: "page_index X (entry_hi (es PGFAULTEXCEPT)) = mpg" "unat mpg < USERPGTBLSIZE"
    and cs: "cs = sem_calls X s @ [(PASSEREN, addr_sp_sem X, 0, 0)]"
  shows "case tlb_exc_handler X s of
      Ret _ s' \<Rightarrow> read_failed X S cs s'
    | Stop w s' \<Rightarrow> lost X S w s' \<or> fault_served X S sa (unat mpg) es cs w s'"
proof -
  obtain t where t: "syscall X GETSUPPORTPTR 0 0 0 s = Ret sa t" "pool_ok X S t" "sups t sa = sups s sa"
    "sem_calls X t = sem_calls X s" by (rule support_call[OF env inv ans])
  have nn: "sa \<noteq> NULL" using ans by (simp add: answers_support_def)
  have es': "es = sup_exceptState (sups t sa)" by (simp add: t(3) es)
  have cs': "cs = sem_calls X t @ [(PASSEREN, addr_sp_sem X, 0, 0)]" by (simp add: t(4) cs)
  have "tlb_exc_handler X s = serve_fault X sa t"
    using exc nn by (simp add: tlb_exc_handler_def kbind_Ret[where m = "syscall X GETSUPPORTPTR 0 0 0", OF t(1)] kread_def es')
  then show ?thesis
    using serve_fault_run[OF env t(2) _ pg(2) cs' es'] pg(1) by (simp add: es')
qed

lemma tlb_exc_handler_served:
  assumes "fault_env X S sa" and "pool_ok X S s" and "answers_support X sa s"
    and "CAUSE_GET_EXCCODE X (cause (sup_exceptState (sups s sa) PGFAULTEXCEPT)) \<noteq> EXC_MOD X"
    and "page_index X (entry_hi (sup_exceptState (sups s sa) PGFAULTEXCEPT)) = mpg" and "unat mpg < USERPGTBLSIZE"
    and "\<not> stuck X" and "\<forall>r. device_said X r \<longrightarrow> r = READY X"
  obtains s' k s3 where "tlb_exc_handler X s = Stop (Resumed (sup_exceptState (sups s sa) 0)) s'"
    and "sem_calls X s' = sem_calls X s @ [(PASSEREN, addr_sp_sem X, 0, 0), (VERHOGEN, addr_sp_sem X, 0, 0)]"
    and "s' = snd (SYSCALL X VERHOGEN (addr_sp_sem X) 0 0 (s3\<lparr>calls := calls s3 @ [(VERHOGEN, addr_sp_sem X, 0, 0)]\<rparr>))"
    and "pool_ok X S s3" and "mapped X s3 k (sa, unat mpg)" and "page_valid X s3 (sa, unat mpg)"
proof -
  have "\<exists>s'. tlb_exc_handler X s = Stop (Resumed (sup_exceptState (sups s sa) 0)) s' \<and>
    sem_calls X s' = sem_calls X s @ [(PASSEREN, addr_sp_sem X, 0, 0), (VERHOGEN, addr_sp_sem X, 0, 0)] \<and>
    (\<exists>k s3. mapped X s3 k (sa, unat mpg) \<and> page_valid X s3 (sa, unat mpg) \<and> pool_ok X S s3 \<and>
       s' = snd (SYSCALL X VERHOGEN (addr_sp_sem X) 0 0
              (s3\<lparr>calls := calls s3 @ [(VERHOGEN, addr_sp_sem X, 0, 0)]\<rparr>)))"
    using tlb_exc_handler_serves[OF assms(1-3) refl assms(4,5,6) refl] assms(7,8)
    by (auto simp: read_failed_def lost_def fault_served_def split: out.splits)
  then show thesis by (elim exE conjE) (rule that)
qed

lemma tlb_exc_handler_pool:
  assumes env: "fault_env X S sa" and inv: "pool_ok X S s" and ans: "answers_support X sa s"
    and pg: "unat (page_index X (entry_hi (sup_exceptState (sups s sa) PGFAULTEXCEPT))) < USERPGTBLSIZE"
  shows "case tlb_exc_handler X s of
      Ret _ s' \<Rightarrow> pool_ok X S s'
    | Stop w s' \<Rightarrow> pool_ok X S s' \<and> (w = Gone \<or> w = Resumed (sup_exceptState (sups s sa) 0))"
proof (cases "CAUSE_GET_EXCCODE X (cause (sup_exceptState (sups s sa) PGFAULTEXCEPT)) = EXC_MOD X")
  case True
  obtain t where t: "syscall X GETSUPPORTPTR 0 0 0 s = Ret sa t" "pool_ok X S t" "sups t sa = sups s sa"
    by (rule support_call[OF env inv ans])
  have nn: "sa \<noteq> NULL" using ans by (simp add: answers_support_def)
  have run: "tlb_exc_handler X s = safe_kill X (say ''VM'' ''EXECMOD'' t)"
    using True nn by (simp add: tlb_exc_handler_def kbind_Ret[where m = "syscall X GETSUPPORTPTR 0 0 0", OF t(1)] kread_def t(3) kseq_Ret[where m = "kmodify f" for f, OF kmodify_run])
  have "pool_ok X S (say ''VM'' ''EXECMOD'' t)" by (rule pool_inv_cong[OF same_pool_simps(3) t(2)])
  from safe_kill_pool[OF env this] show ?thesis unfolding run by (simp split: out.splits)
next
  case False
  show ?thesis
    using tlb_exc_handler_serves[OF env inv ans refl False refl pg refl]
    by (auto simp: read_failed_def lost_def fault_served_def split: out.splits)
qed

section \<open>Two slips\<close>

text \<open>
  \<open>clean_frames\<close> flips the bit instead of clearing it: for a process with no page in the pool, it
  marks the frames as in use.
\<close>

lemma clean_frames_flips:
  assumes "1 \<le> asid" and "asid \<le> 8"
  shows "clean_frames asid s = Ret () (s\<lparr>sp_asids := sp_asids s XOR push_bit (unat (asid - 1)) 1\<rparr>)"
    and "asid_bit (sp_asids s XOR push_bit (unat (asid - 1)) 1) asid \<longleftrightarrow> \<not> asid_bit (sp_asids s) asid"
proof -
  have u: "\<not> 8 < asid" "asid \<noteq> 0" using assms by auto
  show "clean_frames asid s = Ret () (s\<lparr>sp_asids := sp_asids s XOR push_bit (unat (asid - 1)) 1\<rparr>)"
    using u by (simp add: clean_frames_def set_sp_asids_def kmodify_def)
  have "unat asid \<le> 8" "1 \<le> unat asid" using assms by (simp_all add: word_le_nat_alt)
  then have "unat (asid - 1) < 8" using assms(1) by (simp add: unat_sub)
  then show "asid_bit (sp_asids s XOR push_bit (unat (asid - 1)) 1) asid \<longleftrightarrow> \<not> asid_bit (sp_asids s) asid"
    by (simp add: asid_bit_def bit_simps)
qed

text \<open>
  The machine reports a failed probe in bit 31 of \<open>Index\<close>, \<open>PRESENTFLAG\<close>; \<open>update_tlb\<close> looks at
  bit 30, so it overwrites a TLB slot with an entry that is not in the TLB and reports success.
\<close>

lemma failed_probe_overwrites:
  assumes "getINDEX X (TLBP X (setENTRYHI X h (uhw s))) = PRESENTFLAG"
  shows "update_tlb X h l s = (True, upd_uhw (\<lambda>u. TLBWI X (setENTRYLO X l (TLBP X (setENTRYHI X h u)))) s)"
  using assms by (simp add: update_tlb_def Let_def upd_uhw_def PRESENTFLAG_def P_BIT_def)

end
