(* ===== verification/Sys_Support.thy ===== *)
theory Sys_Support
  imports Swap_Pool
begin

text \<open>
  \<open>src/sys_support.c\<close> and the two handlers of \<open>src/support.c\<close>: the system calls a user process
  makes to the support level. A \<open>char\<close> is read with its sign, as on MIPS.
\<close>

section \<open>The operations\<close>

definition INTMIN :: u32 where "INTMIN = 0x80000000"

definition PRINTER_SEMS :: "'h splat \<Rightarrow> u32" where
  "PRINTER_SEMS X = of_nat (IL_PRINTER X) - of_nat (IL_DISK X)"

definition TERMIN_SEMS :: "'h splat \<Rightarrow> u32" where
  "TERMIN_SEMS X = of_nat (IL_TERMINAL X) - of_nat (IL_DISK X)"

definition TERMOUT_SEMS :: "'h splat \<Rightarrow> u32" where
  "TERMOUT_SEMS X = of_nat (IL_TERMINAL X) - of_nat (IL_DISK X) + 1"

definition get_TOD :: "'h splat \<Rightarrow> (u32, 'h) um" where
  "get_TOD X = (\<lambda>s. case STCK X (uhw s) of (t, h) \<Rightarrow> Ret t (s\<lparr>uhw := h\<rparr>))"

definition terminate :: "'h splat \<Rightarrow> u32 \<Rightarrow> (unit, 'h) um" where
  "terminate X asid = kseq (clean_frames asid) (kseq (syscall X TERMPROCESS 0 0 0) (kreturn ()))"

text \<open>
  The loop of \<open>write_to_printer\<close> with \<open>n\<close> characters to go, the next one the \<open>i\<close>-th: it ends at the
  terminator or at the first character the device does not take.
\<close>

fun printer_loop :: "'h splat \<Rightarrow> u32 \<Rightarrow> u32 \<Rightarrow> nat \<Rightarrow> u32 \<Rightarrow> (u32, 'h) um" where
  "printer_loop X asid va 0 i = kseq (v_on_dev X (PRINTER_SEMS X) (asid - 1)) (kreturn i)"
| "printer_loop X asid va (Suc n) i =
     (let dev_reg = DEV_REG_ADDR X (IL_PRINTER X) (unat (asid - 1))
      in kread (\<lambda>s.
        let c = chars s (va + i)
        in kseq (kmodify (set_cell (dev_reg + off_dtp_data0 X) (scast c)))
          (if c = 0 then kseq (v_on_dev X (PRINTER_SEMS X) (asid - 1)) (kreturn i)
           else kbind (syscall X DOIO (dev_reg + off_dtp_command X) TRANSMITCHAR 0) (\<lambda>status.
             if status \<noteq> READY X
             then kseq (v_on_dev X (PRINTER_SEMS X) (asid - 1))
                       (kread (\<lambda>s'. kreturn (- cells s' (dev_reg + off_dtp_status X))))
             else printer_loop X asid va n (i + 1)))))"

definition bad_buffer :: "u32 \<Rightarrow> u32 \<Rightarrow> bool" where
  "bad_buffer virtAddr len \<longleftrightarrow> 128 < sint len \<or> sint len < 0 \<or> virtAddr < KUSEG"

definition write_to_printer :: "'h splat \<Rightarrow> u32 \<Rightarrow> u32 \<Rightarrow> u32 \<Rightarrow> (u32, 'h) um" where
  "write_to_printer X virtAddr len asid =
     (if bad_buffer virtAddr len then syscall X TERMINATE 0 0 0
      else kseq (p_on_dev X (PRINTER_SEMS X) (asid - 1)) (printer_loop X asid virtAddr (unat len) 0))"

fun terminal_loop :: "'h splat \<Rightarrow> u32 \<Rightarrow> u32 \<Rightarrow> nat \<Rightarrow> u32 \<Rightarrow> (u32, 'h) um" where
  "terminal_loop X asid va 0 i = kseq (v_on_dev X (TERMOUT_SEMS X) (asid - 1)) (kreturn i)"
| "terminal_loop X asid va (Suc n) i =
     (let dev_reg = DEV_REG_ADDR X (IL_TERMINAL X) (unat (asid - 1))
      in kread (\<lambda>s.
        let c = chars s (va + i); cmdval = push_bit 8 (scast c) OR TRANSMITCHAR
        in if c = 0 then kseq (v_on_dev X (TERMOUT_SEMS X) (asid - 1)) (kreturn i)
           else kbind (syscall X DOIO (dev_reg + off_transm_command X) cmdval 0) (\<lambda>status.
             if status AND TERMSTATMASK \<noteq> OKCHARTRANS
             then kseq (v_on_dev X (TERMOUT_SEMS X) (asid - 1))
                       (kread (\<lambda>s'. kreturn (- cells s' (dev_reg + off_transm_status X))))
             else terminal_loop X asid va n (i + 1))))"

definition write_to_terminal :: "'h splat \<Rightarrow> u32 \<Rightarrow> u32 \<Rightarrow> u32 \<Rightarrow> (u32, 'h) um" where
  "write_to_terminal X virtAddr len asid =
     (if bad_buffer virtAddr len then syscall X TERMINATE 0 0 0
      else kseq (p_on_dev X (TERMOUT_SEMS X) (asid - 1)) (terminal_loop X asid virtAddr (unat len) 0))"

text \<open>The reading loop goes on until a newline comes, so it may never end.\<close>

partial_function (option) read_loop ::
  "'h splat \<Rightarrow> u32 \<Rightarrow> u32 \<Rightarrow> u32 \<Rightarrow> 'h ust \<Rightarrow> (sup_stop, u32, 'h ust) out option" where
  "read_loop X asid va i s =
     (case syscall X DOIO (DEV_REG_ADDR X (IL_TERMINAL X) (unat (asid - 1)) + off_recv_command X) TRANSMITCHAR 0 s of
        Stop w s' \<Rightarrow> Some (Stop w s')
      | Ret stat s' \<Rightarrow>
          (if stat AND TERMSTATMASK \<noteq> OKCHARTRANS
           then Some (kseq (v_on_dev X (TERMIN_SEMS X) (asid - 1)) (kreturn (- stat)) s')
           else let s'' = s'\<lparr>chars := (chars s')(va := ucast (drop_bit 8 stat))\<rparr>
                in if drop_bit 8 stat \<noteq> 10 then read_loop X asid (va + 1) (i + 1) s''
                   else Some (kseq (v_on_dev X (TERMIN_SEMS X) (asid - 1)) (kreturn (i + 1)) s'')))"

definition read_from_terminal :: "'h splat \<Rightarrow> u32 \<Rightarrow> u32 \<Rightarrow> (u32, 'h) um" where
  "read_from_terminal X virtAddr asid =
     kseq (if virtAddr < KUSEG then safe_kill X else kreturn ())
    (kseq (p_on_dev X (TERMIN_SEMS X) (asid - 1))
          (\<lambda>s. case read_loop X asid virtAddr 0 s of None \<Rightarrow> Stop Endless s | Some r \<Rightarrow> r))"

text \<open>The state the caller goes back to: \<open>v0\<close> if there is an answer, and past the \<open>syscall\<close>.\<close>

definition set_return :: "'h splat \<Rightarrow> u32 \<Rightarrow> u32 \<Rightarrow> 'h ust \<Rightarrow> 'h ust" where
  "set_return X sa ret = upd_sup sa (\<lambda>q.
     let st = sup_exceptState q GENERALEXCEPT;
         st1 = (if ret \<noteq> INTMIN then set_reg (reg_v0 X) ret st else st);
         st2 = set_reg (reg_t9 X) (pc_epc st1 + WORDLEN) st1;
         st3 = st2\<lparr>pc_epc := pc_epc st1 + WORDLEN\<rparr>
     in q\<lparr>sup_exceptState := (sup_exceptState q)(GENERALEXCEPT := st3)\<rparr>)"

definition support_syscall_handler :: "'h splat \<Rightarrow> u32 \<Rightarrow> (unit, 'h) um" where
  "support_syscall_handler X sa = kread (\<lambda>s.
     let st = sup_exceptState (sups s sa) GENERALEXCEPT;
         number = sint (gpr st (reg_a0 X)); arg1 = gpr st (reg_a1 X); arg2 = gpr st (reg_a2 X);
         asid = sup_asid (sups s sa)
     in kbind
         (if number = GETTOD then get_TOD X
          else if number = TERMINATE then kseq (terminate X asid) (kreturn INTMIN)
          else if number = WRITEPRINTER then write_to_printer X arg1 arg2 asid
          else if number = WRITETERMINAL then write_to_terminal X arg1 arg2 asid
          else if number = READTERMINAL then read_from_terminal X arg1 asid
          else kseq (kmodify (say ''sS'' ''Attempt to do a syscall >5'')) (kseq (safe_kill X) (kreturn INTMIN)))
         (\<lambda>ret. kseq (kmodify (set_return X sa ret))
            (kread (\<lambda>s'. kstop (Resumed (sup_exceptState (sups s' sa) GENERALEXCEPT))))))"

definition support_exec_handler :: "'h splat \<Rightarrow> (unit, 'h) um" where
  "support_exec_handler X =
     kbind (syscall X GETSUPPORTPTR 0 0 0) (\<lambda>sa.
       if sa = NULL then kmodify (say ''SUP'' ''Error on get support'')
       else kread (\<lambda>s.
         if CAUSE_GET_EXCCODE X (cause (sup_exceptState (sups s sa) GENERALEXCEPT)) = EXC_SYS X
         then support_syscall_handler X sa
         else support_trap_handler X sa))"

section \<open>Writing to the terminal\<close>

text \<open>A kernel whose calls come back and leave the caller's memory and its history alone.\<close>

definition polite :: "'h splat \<Rightarrow> bool" where
  "polite X \<longleftrightarrow> (\<forall>n\<in>{PASSEREN, VERHOGEN, DOIO}. \<forall>a b c t. \<exists>r t'.
     SYSCALL X n a b c t = (Some r, t') \<and> calls t' = calls t \<and> chars t' = chars t)"

lemma polite_call:
  assumes "polite X" and "n \<in> {PASSEREN, VERHOGEN, DOIO}"
  obtains r s' where "syscall X n a b c s = Ret r s'" and "calls s' = calls s @ [(n, a, b, c)]" and "chars s' = chars s"
    and "\<exists>t. fst (SYSCALL X n a b c t) = Some r"
proof -
  let ?t = "s\<lparr>calls := calls s @ [(n, a, b, c)]\<rparr>"
  obtain r s' where r: "SYSCALL X n a b c ?t = (Some r, s')" "calls s' = calls ?t" "chars s' = chars ?t"
    using assms unfolding polite_def by blast
  then have "fst (SYSCALL X n a b c ?t) = Some r" by simp
  then have "\<exists>t. fst (SYSCALL X n a b c t) = Some r" by blast
  then show thesis using that[of r s'] r by (simp add: syscall_def)
qed

text \<open>Device \<open>no\<close> of the class \<open>type\<close> exists.\<close>

definition dev_exists :: "'h splat \<Rightarrow> u32 \<Rightarrow> u32 \<Rightarrow> bool" where
  "dev_exists X type no \<longleftrightarrow> type \<le> of_nat (DEVINTNUM X + 1) \<and> no < of_nat (DEVPERINT X)"

lemma polite_pv:
  assumes "polite X" and "dev_exists X type no"
  shows "\<exists>s'. p_on_dev X type no s = Ret () s' \<and> calls s' = calls s @ [(PASSEREN, dev_sem_addr X type no, 0, 0)] \<and> chars s' = chars s"
    and "\<exists>s'. v_on_dev X type no s = Ret () s' \<and> calls s' = calls s @ [(VERHOGEN, dev_sem_addr X type no, 0, 0)] \<and> chars s' = chars s"
proof -
  have d: "\<not> of_nat (DEVINTNUM X + 1) < type" "\<not> of_nat (DEVPERINT X) \<le> no"
    using assms(2) by (auto simp: dev_exists_def not_less not_le)
  obtain r s' where "syscall X PASSEREN (dev_sem_addr X type no) 0 0 s = Ret r s'"
    "calls s' = calls s @ [(PASSEREN, dev_sem_addr X type no, 0, 0)]" "chars s' = chars s"
    using polite_call[OF assms(1), of PASSEREN] by blast
  then show "\<exists>s'. p_on_dev X type no s = Ret () s' \<and> calls s' = calls s @ [(PASSEREN, dev_sem_addr X type no, 0, 0)] \<and> chars s' = chars s"
    unfolding p_on_dev_def if_not_P[OF d(1)] if_not_P[OF d(2)] by (simp add: kseq_Ret kreturn_def)
  obtain r s' where "syscall X VERHOGEN (dev_sem_addr X type no) 0 0 s = Ret r s'"
    "calls s' = calls s @ [(VERHOGEN, dev_sem_addr X type no, 0, 0)]" "chars s' = chars s"
    using polite_call[OF assms(1), of VERHOGEN] by blast
  then show "\<exists>s'. v_on_dev X type no s = Ret () s' \<and> calls s' = calls s @ [(VERHOGEN, dev_sem_addr X type no, 0, 0)] \<and> chars s' = chars s"
    unfolding v_on_dev_def if_not_P[OF d(1)] if_not_P[OF d(2)] by (simp add: kseq_Ret kreturn_def)
qed

lemma write_to_flash_calls:
  assumes pol: "polite X" and dev: "dev_exists X (FLASH_SEMS X) (u - 1)"
  shows "\<exists>r s'. write_to_flash X u blk d s = Ret r s' \<and> calls s' = calls s @
    [(PASSEREN, dev_sem_addr X (FLASH_SEMS X) (u - 1), 0, 0),
     (DOIO, DEV_REG_ADDR X (FLASHINT X) (unat (u - 1)) + off_dtp_command X, push_bit 8 blk OR FLASHWRITE, 0),
     (VERHOGEN, dev_sem_addr X (FLASH_SEMS X) (u - 1), 0, 0)]"
proof -
  let ?reg = "DEV_REG_ADDR X (FLASHINT X) (unat (u - 1))"
  obtain s1 where s1: "p_on_dev X (FLASH_SEMS X) (u - 1) s = Ret () s1"
    "calls s1 = calls s @ [(PASSEREN, dev_sem_addr X (FLASH_SEMS X) (u - 1), 0, 0)]"
    using polite_pv(1)[OF pol dev] by blast
  let ?s2 = "set_cell (?reg + off_dtp_data0 X) d s1"
  have doio: "DOIO \<in> {PASSEREN, VERHOGEN, DOIO}" by simp
  obtain r s3 where s3: "syscall X DOIO (?reg + off_dtp_command X) (push_bit 8 blk OR FLASHWRITE) 0 ?s2 = Ret r s3"
    "calls s3 = calls ?s2 @ [(DOIO, ?reg + off_dtp_command X, push_bit 8 blk OR FLASHWRITE, 0)]"
    by (rule polite_call[OF pol doio])
  obtain s4 where s4: "v_on_dev X (FLASH_SEMS X) (u - 1) s3 = Ret () s4"
    "calls s4 = calls s3 @ [(VERHOGEN, dev_sem_addr X (FLASH_SEMS X) (u - 1), 0, 0)]"
    using polite_pv(2)[OF pol dev] by blast
  have "write_to_flash X u blk d s = Ret r s4"
    using s1(1) s3(1) s4(1) by (simp add: write_to_flash_def Let_def kseq_def kbind_def kmodify_def kreturn_def)
  then show ?thesis using s1(2) s3(2) s4(2) by (simp add: quiet_simps)
qed

lemma free_frame_calls:
  assumes pol: "polite X" and dev: "dev_exists X (FLASH_SEMS X) (u - 1)"
  shows "\<exists>s'. free_frame X k u s = Ret () s' \<and> calls s' = calls s @
    [(PASSEREN, dev_sem_addr X (FLASH_SEMS X) (u - 1), 0, 0),
     (DOIO, DEV_REG_ADDR X (FLASHINT X) (unat (u - 1)) + off_dtp_command X,
      push_bit 8 (page_index X (pte_entryHI (pte_of s (pg_tbl_entry (sp_tbl s k))))) OR FLASHWRITE, 0),
     (VERHOGEN, dev_sem_addr X (FLASH_SEMS X) (u - 1), 0, 0)]"
proof -
  obtain psa pi where e: "pg_tbl_entry (sp_tbl s k) = (psa, pi)" by fastforce
  define s4 where "s4 = toggle_int X True (snd (update_tlb X
      (pte_entryHI (pte_of (invalidate X (psa, pi) (toggle_int X False s)) (psa, pi)))
      (pte_entryLO (pte_of (invalidate X (psa, pi) (toggle_int X False s)) (psa, pi)))
      (invalidate X (psa, pi) (toggle_int X False s))))"
  have hi: "pte_entryHI (pte_of s4 (psa, pi)) = pte_entryHI (pte_of s (psa, pi))"
  proof -
    have "pte_of s4 (psa, pi) = pte_of (invalidate X (psa, pi) (toggle_int X False s)) (psa, pi)"
      by (simp add: s4_def pte_of_def quiet_simps)
    then show ?thesis by (simp add: invalidate_def pte_of_upd_pte) (simp add: pte_of_def quiet_simps)
  qed
  obtain r s5 where w: "write_to_flash X u (page_index X (pte_entryHI (pte_of s4 (psa, pi))))
      (ENTRYLO_GET_PFN X (pte_entryLO (pte_of s4 (psa, pi)))) s4 = Ret r s5"
    "calls s5 = calls s4 @ [(PASSEREN, dev_sem_addr X (FLASH_SEMS X) (u - 1), 0, 0),
     (DOIO, DEV_REG_ADDR X (FLASHINT X) (unat (u - 1)) + off_dtp_command X,
      push_bit 8 (page_index X (pte_entryHI (pte_of s4 (psa, pi)))) OR FLASHWRITE, 0),
     (VERHOGEN, dev_sem_addr X (FLASH_SEMS X) (u - 1), 0, 0)]"
    using write_to_flash_calls[OF pol dev] by blast
  have c: "calls s4 = calls s" by (simp add: s4_def quiet_simps)
  have "free_frame X k u s = (if r \<noteq> READY X then kmodify (sayi ''VM'' ''error writing frame to dev'' r)
      else kmodify (\<lambda>s. s\<lparr>sp_tbl := (sp_tbl s)(k := (sp_tbl s k)\<lparr>e_asid := -1\<rparr>)\<rparr>)) s5"
    unfolding free_frame_alt e Let_def s4_def[symmetric] by (simp only: kbind_Ret[where m = "write_to_flash X u b d" for b d, OF w(1)])
  then show ?thesis using w(2) unfolding hi c e by (auto simp: kmodify_def quiet_simps)
qed

text \<open>The text at \<open>va\<close>: up to the terminator, \<open>n\<close> characters at most.\<close>

definition text_at :: "'h ust \<Rightarrow> u32 \<Rightarrow> nat \<Rightarrow> u8 list" where
  "text_at s va n = takeWhile (\<lambda>c. c \<noteq> 0) (map (\<lambda>j. chars s (va + of_nat j)) [0..<n])"

lemma text_at_Suc:
  "text_at s va (Suc n) = (if chars s va = 0 then [] else chars s va # text_at s (va + 1) n)"
proof -
  have "map (\<lambda>j. chars s (va + of_nat j)) [0..<Suc n] = chars s va # map (\<lambda>j. chars s (va + 1 + of_nat j)) [0..<n]"
    unfolding upt_conv_Cons[OF zero_less_Suc] map_Suc_upt[symmetric] by (simp add: add.assoc)
  then show ?thesis by (simp add: text_at_def)
qed

lemma text_at_cong: "chars s' = chars s \<Longrightarrow> text_at s' va n = text_at s va n"
  by (simp add: text_at_def)

definition term_reg :: "'h splat \<Rightarrow> u32 \<Rightarrow> u32" where
  "term_reg X asid = DEV_REG_ADDR X (IL_TERMINAL X) (unat (asid - 1))"

definition term_call :: "'h splat \<Rightarrow> u32 \<Rightarrow> u8 \<Rightarrow> int \<times> u32 \<times> u32 \<times> u32" where
  "term_call X asid c = (DOIO, term_reg X asid + off_transm_command X, push_bit 8 (scast c) OR TRANSMITCHAR, 0)"

definition refused :: "'h splat \<Rightarrow> u32 \<Rightarrow> bool" where
  "refused X r \<longleftrightarrow> device_said X r \<and> r AND TERMSTATMASK \<noteq> OKCHARTRANS"

lemma terminal_loop_run:
  assumes pol: "polite X" and dev: "dev_exists X (TERMOUT_SEMS X) (asid - 1)"
  shows "\<exists>k r s'. terminal_loop X asid va n i s = Ret r s' \<and> k \<le> length (text_at s (va + i) n) \<and>
    calls s' = calls s @ map (term_call X asid) (take k (text_at s (va + i) n)) @
      [(VERHOGEN, dev_sem_addr X (TERMOUT_SEMS X) (asid - 1), 0, 0)] \<and>
    (k = length (text_at s (va + i) n) \<and> r = i + of_nat k \<or>
     (\<exists>x. refused X x) \<and> r = - cells s' (term_reg X asid + off_transm_status X))"
proof (induction n arbitrary: i s)
  case 0
  obtain s' where "v_on_dev X (TERMOUT_SEMS X) (asid - 1) s = Ret () s'"
    "calls s' = calls s @ [(VERHOGEN, dev_sem_addr X (TERMOUT_SEMS X) (asid - 1), 0, 0)]"
    using polite_pv(2)[OF pol dev] by blast
  then show ?case by (auto simp: kseq_Ret kreturn_def text_at_def intro!: exI[of _ 0])
next
  case (Suc n)
  let ?c = "chars s (va + i)"
  show ?case
  proof (cases "?c = 0")
    case True
    obtain s' where "v_on_dev X (TERMOUT_SEMS X) (asid - 1) s = Ret () s'"
      "calls s' = calls s @ [(VERHOGEN, dev_sem_addr X (TERMOUT_SEMS X) (asid - 1), 0, 0)]"
      using polite_pv(2)[OF pol dev] by blast
    then show ?thesis using True
      by (auto simp: Let_def kseq_Ret kreturn_def kread_def text_at_Suc intro!: exI[of _ 0])
  next
    case False
    have t: "text_at s (va + i) (Suc n) = ?c # text_at s (va + (i + 1)) n"
      using False by (simp add: text_at_Suc add.assoc)
    have doio: "DOIO \<in> {PASSEREN, VERHOGEN, DOIO}" by simp
    obtain r s1 where r: "syscall X DOIO (term_reg X asid + off_transm_command X) (push_bit 8 (scast ?c) OR TRANSMITCHAR) 0 s = Ret r s1"
      "calls s1 = calls s @ [(DOIO, term_reg X asid + off_transm_command X, push_bit 8 (scast ?c) OR TRANSMITCHAR, 0)]"
      "chars s1 = chars s"
      "\<exists>t. fst (SYSCALL X DOIO (term_reg X asid + off_transm_command X) (push_bit 8 (scast ?c) OR TRANSMITCHAR) 0 t) = Some r"
      by (rule polite_call[OF pol doio])
    note r = r(1) r(2)[folded term_call_def] r(3,4)
    have said: "device_said X r" using r(4) unfolding device_said_def by blast
    show ?thesis
    proof (cases "r AND TERMSTATMASK = OKCHARTRANS")
      case True
      have "terminal_loop X asid va (Suc n) i s = terminal_loop X asid va n (i + 1) s1"
        using False True r(1) by (simp add: Let_def kread_def kbind_def term_reg_def)
      then obtain k r' s' where l: "terminal_loop X asid va (Suc n) i s = Ret r' s'"
        and k: "k \<le> length (text_at s (va + (i + 1)) n)"
        and c: "calls s' = calls s1 @ map (term_call X asid) (take k (text_at s (va + (i + 1)) n)) @
          [(VERHOGEN, dev_sem_addr X (TERMOUT_SEMS X) (asid - 1), 0, 0)]"
        and e: "k = length (text_at s (va + (i + 1)) n) \<and> r' = i + 1 + of_nat k \<or>
         (\<exists>x. refused X x) \<and> r' = - cells s' (term_reg X asid + off_transm_status X)"
        using Suc.IH[of "i + 1" s1] unfolding text_at_cong[OF r(3)] by auto
      have "i + 1 + of_nat k = i + of_nat (Suc k)" by simp
      with e have "Suc k = length (?c # text_at s (va + (i + 1)) n) \<and> r' = i + of_nat (Suc k) \<or>
         (\<exists>x. refused X x) \<and> r' = - cells s' (term_reg X asid + off_transm_status X)" by (simp only: length_Cons) blast
      moreover have "calls s' = calls s @ map (term_call X asid) (take (Suc k) (?c # text_at s (va + (i + 1)) n)) @
          [(VERHOGEN, dev_sem_addr X (TERMOUT_SEMS X) (asid - 1), 0, 0)]" using c r(2) by simp
      ultimately show ?thesis unfolding t using l k
        by (intro exI[of _ "Suc k"] exI[of _ r'] exI[of _ s'] conjI) simp_all
    next
      case bad: False
      obtain s' where "v_on_dev X (TERMOUT_SEMS X) (asid - 1) s1 = Ret () s'"
        "calls s' = calls s1 @ [(VERHOGEN, dev_sem_addr X (TERMOUT_SEMS X) (asid - 1), 0, 0)]"
        using polite_pv(2)[OF pol dev] by blast
      then have "terminal_loop X asid va (Suc n) i s = Ret (- cells s' (term_reg X asid + off_transm_status X)) s'"
        using False bad r(1) by (simp add: Let_def kread_def kbind_def kseq_Ret kreturn_def term_reg_def)
      moreover have "refused X r" using bad said by (simp add: refused_def)
      ultimately show ?thesis
        using \<open>calls s' = _\<close> r(2) unfolding t by (intro exI[of _ "Suc 0"]) auto
    qed
  qed
qed

lemma write_to_terminal_run:
  assumes pol: "polite X" and dev: "dev_exists X (TERMOUT_SEMS X) (asid - 1)" and buf: "\<not> bad_buffer va len"
  shows "\<exists>k r s'. write_to_terminal X va len asid s = Ret r s' \<and> k \<le> length (text_at s va (unat len)) \<and>
    calls s' = calls s @ [(PASSEREN, dev_sem_addr X (TERMOUT_SEMS X) (asid - 1), 0, 0)] @
      map (term_call X asid) (take k (text_at s va (unat len))) @
      [(VERHOGEN, dev_sem_addr X (TERMOUT_SEMS X) (asid - 1), 0, 0)] \<and>
    (k = length (text_at s va (unat len)) \<and> r = of_nat k \<or>
     (\<exists>x. refused X x) \<and> r = - cells s' (term_reg X asid + off_transm_status X))"
proof -
  obtain s1 where s1: "p_on_dev X (TERMOUT_SEMS X) (asid - 1) s = Ret () s1"
    "calls s1 = calls s @ [(PASSEREN, dev_sem_addr X (TERMOUT_SEMS X) (asid - 1), 0, 0)]" "chars s1 = chars s"
    using polite_pv(1)[OF pol dev] by blast
  have "write_to_terminal X va len asid s = terminal_loop X asid va (unat len) 0 s1"
    using buf s1(1) by (simp add: write_to_terminal_def kseq_Ret)
  then show ?thesis
    using terminal_loop_run[OF pol dev, of va "unat len" 0 s1] unfolding text_at_cong[OF s1(3)] s1(2) by simp
qed

section \<open>Going back to the caller\<close>

definition leaves_sup :: "'h splat \<Rightarrow> u32 \<Rightarrow> bool" where
  "leaves_sup X sa \<longleftrightarrow> (\<forall>n a b c t. sups (snd (SYSCALL X n a b c t)) sa = sups t sa)"

text \<open>Code that leaves the support structure alone and never itself resumes a saved state.\<close>

abbreviation plain :: "u32 \<Rightarrow> support_t \<Rightarrow> ('a, 'h) um \<Rightarrow> bool" where
  "plain sa q m \<equiv> triple (\<lambda>s. sups s sa = q) m (\<lambda>_ s. sups s sa = q) (\<lambda>w _. \<forall>st. w \<noteq> Resumed st)"

lemma plain_syscall:
  assumes "leaves_sup X sa"
  shows "plain sa q (syscall X n a b c)"
proof (rule tripleI)
  fix s :: "'a ust"
  assume q: "sups s sa = q"
  let ?t = "s\<lparr>calls := calls s @ [(n, a, b, c)]\<rparr>"
  have "sups (snd (SYSCALL X n a b c ?t)) sa = q" using assms q by (simp add: leaves_sup_def)
  then show "case syscall X n a b c s of Ret _ s' \<Rightarrow> sups s' sa = q | Stop w s' \<Rightarrow> \<forall>st. w \<noteq> Resumed st"
    by (auto simp: syscall_def split: prod.split option.split)
qed

lemma plain_kreturn: "plain sa q (kreturn a)"
  by (rule triple_kreturn)

lemma plain_kread: "(\<And>s. plain sa q (m s)) \<Longrightarrow> plain sa q (kread m)"
  by (fastforce simp: triple_def kread_def split: out.splits)

lemma plain_panic: "plain sa q (kseq (kmodify (sayi t m i)) panic)"
  by (simp add: triple_def kseq_def kbind_def kmodify_def panic_def kstop_def)

lemma plain_kseq: "plain sa q m \<Longrightarrow> plain sa q n \<Longrightarrow> plain sa q (kseq m n)"
  by (rule triple_kseq)

lemma plain_kbind: "plain sa q m \<Longrightarrow> (\<And>a. plain sa q (f a)) \<Longrightarrow> plain sa q (kbind m f)"
  by (rule triple_kbind)

lemmas plain_intros = plain_panic plain_kseq plain_kbind plain_kreturn plain_kread triple_if

lemma plain_pv:
  assumes "leaves_sup X sa"
  shows "plain sa q (p_on_dev X type no)" and "plain sa q (v_on_dev X type no)"
  unfolding p_on_dev_def v_on_dev_def by (intro plain_panic triple_if; intro plain_intros plain_syscall assms)+

lemma plain_safe_kill: "leaves_sup X sa \<Longrightarrow> plain sa q (safe_kill X)"
  unfolding safe_kill_def by (intro plain_intros plain_syscall)

lemma plain_set_cell: "plain sa q (kmodify (set_cell a v))"
  by (rule triple_kmodify) (simp add: quiet_simps)

lemma plain_printer:
  assumes "leaves_sup X sa"
  shows "plain sa q (write_to_printer X va len asid)"
proof -
  have "plain sa q (printer_loop X asid va n i)" for n i
    by (induction n arbitrary: i)
       (auto simp only: printer_loop.simps Let_def intro!: plain_intros plain_pv plain_syscall plain_set_cell assms)
  then show ?thesis
    unfolding write_to_printer_def by (intro plain_intros plain_pv plain_syscall assms)
qed

lemma plain_terminal:
  assumes "leaves_sup X sa"
  shows "plain sa q (write_to_terminal X va len asid)"
proof -
  have "plain sa q (terminal_loop X asid va n i)" for n i
    by (induction n arbitrary: i)
       (auto simp only: terminal_loop.simps Let_def intro!: plain_intros plain_pv plain_syscall assms)
  then show ?thesis
    unfolding write_to_terminal_def by (intro plain_intros plain_pv plain_syscall assms)
qed

lemma plain_read_loop:
  assumes l: "leaves_sup (X :: 'h splat) sa" and r: "read_loop X asid va i s = Some r" and q: "sups s sa = q"
  shows "case r of Ret _ s' \<Rightarrow> sups s' sa = q | Stop w s' \<Rightarrow> \<forall>st. w \<noteq> Resumed st"
proof -
  have "leaves_sup X sa \<longrightarrow> sups s sa = q \<longrightarrow>
      (case r of Ret _ s' \<Rightarrow> sups s' sa = q | Stop w s' \<Rightarrow> \<forall>st. w \<noteq> Resumed st)"
  proof (rule read_loop.raw_induct[OF _ r], intro impI)
    fix rec :: "'h splat \<Rightarrow> u32 \<Rightarrow> u32 \<Rightarrow> u32 \<Rightarrow> 'h ust \<Rightarrow> (sup_stop, u32, 'h ust) out option"
      and X :: "'h splat" and asid va i :: u32 and s :: "'h ust" and r
    assume IH: "\<And>X asid va i s r. rec (X :: 'h splat) asid va i s = Some r \<Longrightarrow>
        leaves_sup X sa \<longrightarrow> sups s sa = q \<longrightarrow>
        (case r of Ret _ s' \<Rightarrow> sups s' sa = q | Stop w s' \<Rightarrow> \<forall>st. w \<noteq> Resumed st)"
    let ?sys = "syscall X DOIO (DEV_REG_ADDR X (IL_TERMINAL X) (unat (asid - 1)) + off_recv_command X) TRANSMITCHAR 0 s"
    assume body: "(case ?sys of Stop w s' \<Rightarrow> Some (Stop w s')
        | Ret stat s' \<Rightarrow>
          (if stat AND TERMSTATMASK \<noteq> OKCHARTRANS
           then Some (kseq (v_on_dev X (TERMIN_SEMS X) (asid - 1)) (kreturn (- stat)) s')
           else let s'' = s'\<lparr>chars := (chars s')(va := ucast (drop_bit 8 stat))\<rparr>
                in if drop_bit 8 stat \<noteq> 10 then rec X asid (va + 1) (i + 1) s''
                   else Some (kseq (v_on_dev X (TERMIN_SEMS X) (asid - 1)) (kreturn (i + 1)) s''))) = Some r"
      and l: "leaves_sup X sa" and q: "sups s sa = q"
    have call: "case ?sys of Ret _ s' \<Rightarrow> sups s' sa = q | Stop w s' \<Rightarrow> \<forall>st. w \<noteq> Resumed st"
      by (rule tripleD[OF plain_syscall[OF l] q])
    have fin: "case kseq (v_on_dev X (TERMIN_SEMS X) (asid - 1)) (kreturn v) t of
        Ret _ s' \<Rightarrow> sups s' sa = q | Stop w s' \<Rightarrow> \<forall>st. w \<noteq> Resumed st" if "sups t sa = q" for v :: u32 and t
      by (rule tripleD[OF plain_kseq[OF plain_pv(2)[OF l] plain_kreturn]]) (rule that)
    show "case r of Ret _ s' \<Rightarrow> sups s' sa = q | Stop w s' \<Rightarrow> \<forall>st. w \<noteq> Resumed st"
    proof (cases ?sys)
      case (Stop w s')
      then have "r = Stop w s'" using body by simp
      then show ?thesis using call Stop by simp
    next
      case (Ret v s')
      then have s': "sups s' sa = q" using call by simp
      show ?thesis
        using body Ret s' fin[of s'] fin[of "s'\<lparr>chars := (chars s')(va := ucast (drop_bit 8 v))\<rparr>"] IH l
        by (auto simp: Let_def split: if_splits)
    qed
  qed
  then show ?thesis using l q by blast
qed

lemma plain_read:
  assumes "leaves_sup X sa"
  shows "plain sa q (read_from_terminal X va asid)"
proof -
  have "plain sa q (\<lambda>s. case read_loop X asid va 0 s of None \<Rightarrow> Stop Endless s | Some r \<Rightarrow> r)"
    by (rule tripleI) (use plain_read_loop[OF assms] in \<open>auto split: option.split out.splits\<close>)
  then show ?thesis
    unfolding read_from_terminal_def by (intro plain_intros plain_pv plain_safe_kill assms)
qed

lemma plain_set_sp_asids: "plain sa q (set_sp_asids on asid)"
  unfolding set_sp_asids_def by (intro triple_if plain_panic triple_kmodify) simp

lemma plain_terminate:
  assumes "leaves_sup X sa"
  shows "plain sa q (terminate X asid)"
  unfolding terminate_def clean_frames_def by (intro plain_intros plain_set_sp_asids plain_syscall assms)

text \<open>The state the caller is resumed in: only \<open>v0\<close>, \<open>t9\<close> and the program counter change.\<close>

definition returned :: "'h splat \<Rightarrow> u32 \<Rightarrow> state_t \<Rightarrow> state_t" where
  "returned X v st = (set_reg (reg_t9 X) (pc_epc st + WORDLEN)
     (if v = INTMIN then st else set_reg (reg_v0 X) v st))\<lparr>pc_epc := pc_epc st + WORDLEN\<rparr>"

lemma set_return_state:
  "sup_exceptState (sups (set_return X sa v s) sa) GENERALEXCEPT =
     returned X v (sup_exceptState (sups s sa) GENERALEXCEPT)"
  by (simp add: set_return_def upd_sup_def returned_def Let_def set_reg_def)

definition support_service :: "'h splat \<Rightarrow> u32 \<Rightarrow> state_t \<Rightarrow> (u32, 'h) um" where
  "support_service X asid st =
     (let number = sint (gpr st (reg_a0 X)); arg1 = gpr st (reg_a1 X); arg2 = gpr st (reg_a2 X)
      in if number = GETTOD then get_TOD X
         else if number = TERMINATE then kseq (terminate X asid) (kreturn INTMIN)
         else if number = WRITEPRINTER then write_to_printer X arg1 arg2 asid
         else if number = WRITETERMINAL then write_to_terminal X arg1 arg2 asid
         else if number = READTERMINAL then read_from_terminal X arg1 asid
         else kseq (kmodify (say ''sS'' ''Attempt to do a syscall >5'')) (kseq (safe_kill X) (kreturn INTMIN)))"

lemma plain_service:
  assumes "leaves_sup X sa"
  shows "plain sa q (support_service X asid st)"
proof -
  have "plain sa q (get_TOD X)" by (simp add: triple_def get_TOD_def split: prod.split)
  moreover have "plain sa q (kmodify (say t m))" for t m by (rule triple_kmodify) (simp add: quiet_simps)
  ultimately show ?thesis
    unfolding support_service_def Let_def
    by (intro triple_if plain_kseq plain_kreturn plain_terminate plain_printer plain_terminal plain_read plain_safe_kill assms)
qed

lemma support_syscall_handler_run:
  assumes l: "leaves_sup X sa" and old: "old = sup_exceptState (sups s sa) GENERALEXCEPT"
  shows "case support_service X (sup_asid (sups s sa)) old s of
      Ret v s1 \<Rightarrow> support_syscall_handler X sa s = Stop (Resumed (returned X v old)) (set_return X sa v s1)
    | Stop w s1 \<Rightarrow> support_syscall_handler X sa s = Stop w s1 \<and> (\<forall>st. w \<noteq> Resumed st)"
proof -
  let ?m = "support_service X (sup_asid (sups s sa)) old"
  have run: "support_syscall_handler X sa s = kbind ?m (\<lambda>ret. kseq (kmodify (set_return X sa ret))
      (kread (\<lambda>s'. kstop (Resumed (sup_exceptState (sups s' sa) GENERALEXCEPT))))) s"
    by (simp only: support_syscall_handler_def kread_def Let_def support_service_def old)
  have p: "case ?m s of Ret v s1 \<Rightarrow> sups s1 sa = sups s sa | Stop w s1 \<Rightarrow> \<forall>st. w \<noteq> Resumed st"
    by (rule tripleD[OF plain_service[OF l] refl])
  show ?thesis
  proof (cases "?m s")
    case (Ret v s1)
    then show ?thesis using p unfolding run
      by (simp add: kbind_def kseq_def kmodify_def kread_def kstop_def set_return_state old)
  next
    case (Stop w s1)
    then show ?thesis using p unfolding run by (simp add: kbind_def)
  qed
qed

end
