(* ===== verification/Two_Levels.thy ===== *)
theory Two_Levels
  imports Kernel_Runs Sys_Support
begin

text \<open>
  The two levels together. The kernel passes an exception up: it stores the state the machine saved
  in the support structure and loads the context of a handler, which runs over the same memory and
  asks the kernel which structure is its own. Both answers are those of the model of the kernel, so
  the runs of this theory go from the exception of a user process to the state it is resumed in.
\<close>

section \<open>One memory\<close>

text \<open>The kernel's view of the platform of the support level.\<close>

definition kernel_plat :: "'h splat \<Rightarrow> 'h plat" where
  "kernel_plat X = plat.truncate X"

lemma kernel_plat_sel [simp]:
  "CAUSE_GET_EXCCODE (kernel_plat X) = CAUSE_GET_EXCCODE X" "EXC_MOD (kernel_plat X) = EXC_MOD X"
  "EXC_SYS (kernel_plat X) = EXC_SYS X" "reg_v0 (kernel_plat X) = reg_v0 X" "reg_a0 (kernel_plat X) = reg_a0 X"
  "reg_t9 (kernel_plat X) = reg_t9 X" "WORD_SIZE (kernel_plat X) = WORD_SIZE X"
  by (simp_all add: kernel_plat_def plat.truncate_def)

text \<open>
  The handler starts in the memory the kernel leaves: support structures, words and log are those of
  the kernel state; the tables of the pager, which the kernel does not know, are those of \<open>t\<close>, and
  so are the registers the context load sets.
\<close>

definition entered :: "'h kst \<Rightarrow> 'h ust \<Rightarrow> 'h ust" where
  "entered s t = t\<lparr>sups := supports s, cells := mem s, ulog := klogb s\<rparr>"

lemma entered_sel [simp]:
  "sups (entered s t) = supports s" "cells (entered s t) = mem s" "ulog (entered s t) = klogb s"
  "calls (entered s t) = calls t" "sp_tbl (entered s t) = sp_tbl t" "sp_asids (entered s t) = sp_asids t"
  "uhw (entered s t) = uhw t" "frame_top (entered s t) = frame_top t" "chars (entered s t) = chars t"
  by (simp_all add: entered_def)

lemma sem_calls_entered [simp]: "sem_calls X (entered s t) = sem_calls X t"
  by (simp add: sem_calls_def)

text \<open>Passing an exception up changes no page table, so the pool stays as it was.\<close>

lemma entered_pool:
  assumes "supports s' = supports (set_exceptState sa kind st s)" and "sups t = supports s" and "pool_ok X S t"
  shows "pool_ok X S (entered s' t)"
proof (rule pool_inv_cong[OF _ assms(3)])
  show "same_pool S t (entered s' t)" using assms(1,2) by (simp add: same_pool_def set_exceptState_def)
qed

section \<open>The question the handlers start with\<close>

text \<open>
  The answer the support level gets to its request \<open>n\<close> is the one the kernel gives: v0 of the state
  that is loaded after the handler of the kernel has run on that request, from the state \<open>s\<close> it
  left, with whatever the processor and the memory hold then.
\<close>

definition answered_by_kernel :: "'h splat \<Rightarrow> 'h kst \<Rightarrow> int \<Rightarrow> 'h ust \<Rightarrow> bool" where
  "answered_by_kernel X s n t \<longleftrightarrow> (\<exists>m st su h st' s'.
     sys_request (kernel_plat X) (outside m st su h s) n \<and>
     exception_handler (kernel_plat X) (outside m st su h s) = Stop (Ldst st') s' \<and>
     fst (SYSCALL X n 0 0 0 (t\<lparr>calls := calls t @ [(n, 0, 0, 0)]\<rparr>)) = Some (gpr st' (reg_v0 X)))"

lemma support_answer:
  assumes run: "running (kernel_plat X) a s A" and U: "layout_ok (kernel_plat X)" and r: "reg_v0 X \<noteq> reg_t9 X"
    and q: "answered_by_kernel X s GETSUPPORTPTR t" and sa: "p_supportStruct (pcbs s a) \<noteq> NULL"
  shows "answers_support X (p_supportStruct (pcbs s a)) t"
proof -
  let ?U = "kernel_plat X"
  obtain m st su h st' s' where k: "sys_request ?U (outside m st su h s) GETSUPPORTPTR"
    "exception_handler ?U (outside m st su h s) = Stop (Ldst st') s'"
    "fst (SYSCALL X GETSUPPORTPTR 0 0 0 (t\<lparr>calls := calls t @ [(GETSUPPORTPTR, 0, 0, 0)]\<rparr>)) = Some (gpr st' (reg_v0 X))"
    using q unfolding answered_by_kernel_def by blast
  let ?s = "outside m st su h s"
  have "exception_handler ?U ?s = Stop (Ldst ((answered ?U (answer ?U ?s a GETSUPPORTPTR) (states ?s BIOSDATAPAGE))
        \<lparr>status := loaded_status ?U ((pcbs ?s a)\<lparr>p_s := states ?s BIOSDATAPAGE\<rparr>)\<rparr>)) s''" if "s'' = s'" for s''
    using k(2) that by (rule_tac answering_pass[OF outside_running[OF run] U k(1)]) auto
  then have "gpr st' (reg_v0 X) = answer ?U ?s a GETSUPPORTPTR"
    using k(2) r by (simp add: answered_def past_def set_reg_def)
  also have "\<dots> = p_supportStruct (pcbs s a)" by (simp add: answer_def outside_def syscall_numbers)
  finally show ?thesis using sa k(3) by (simp add: answers_support_def)
qed

section \<open>From the exception to the handler\<close>

text \<open>What the handler of the support level finds when the kernel has passed an exception up.\<close>

definition handed_up :: "'h splat \<Rightarrow> nat \<Rightarrow> nat \<Rightarrow> 'h kst \<Rightarrow> kabs \<Rightarrow> 'h kst \<Rightarrow> bool" where
  "handed_up X a kind s A s' \<longleftrightarrow>
     (let sa = p_supportStruct (pcbs s a); c = sup_exceptContext (supports s sa) kind in
      exception_handler (kernel_plat X) s = Stop (Ldcxt (cx_stackPtr c) (cx_status c) (cx_pc c)) s' \<and>
      running (kernel_plat X) a s' A \<and> p_supportStruct (pcbs s' a) = sa \<and> mem s' = mem s \<and>
      supports s' = supports (set_exceptState sa kind (states s BIOSDATAPAGE) s))"

lemma handed_up:
  assumes "running (kernel_plat X) a s A" and "passed_kind (kernel_plat X) s = Some kind"
    and "p_supportStruct (pcbs s a) \<noteq> NULL"
  obtains s' where "handed_up X a kind s A s'"
  by (rule passed_up_pass[OF assms]) (simp add: handed_up_def Let_def that)

lemma handed_up_state:
  assumes "handed_up X a kind s A s'"
  shows "sup_exceptState (supports s' (p_supportStruct (pcbs s a))) kind = states s BIOSDATAPAGE"
    and "sup_asid (supports s' sb) = sup_asid (supports s sb)"
  using assms by (simp_all add: handed_up_def Let_def set_exceptState_def)

section \<open>What the handlers do with it\<close>

lemma support_exec_handler_run:
  assumes "answers_support X sa t" and "leaves_sup X sa"
  obtains t1 where "syscall X GETSUPPORTPTR 0 0 0 t = Ret sa t1" and "sups t1 sa = sups t sa"
    and "support_exec_handler X t =
      (if CAUSE_GET_EXCCODE X (cause (sup_exceptState (sups t sa) GENERALEXCEPT)) = EXC_SYS X
       then support_syscall_handler X sa t1 else safe_kill X t1)"
proof -
  let ?t = "t\<lparr>calls := calls t @ [(GETSUPPORTPTR, 0, 0, 0)]\<rparr>"
  obtain t1 where t1: "SYSCALL X GETSUPPORTPTR 0 0 0 ?t = (Some sa, t1)"
    using assms(1) by (cases "SYSCALL X GETSUPPORTPTR 0 0 0 ?t") (simp add: answers_support_def)
  then have s1: "syscall X GETSUPPORTPTR 0 0 0 t = Ret sa t1" by (simp add: syscall_def)
  have "sups (snd (SYSCALL X GETSUPPORTPTR 0 0 0 ?t)) sa = sups ?t sa" using assms(2) unfolding leaves_sup_def by blast
  then have s2: "sups t1 sa = sups t sa" by (simp add: t1)
  have "sa \<noteq> NULL" using assms(1) by (simp add: answers_support_def)
  then have "support_exec_handler X t =
      (if CAUSE_GET_EXCCODE X (cause (sup_exceptState (sups t sa) GENERALEXCEPT)) = EXC_SYS X
       then support_syscall_handler X sa t1 else safe_kill X t1)"
    by (simp add: support_exec_handler_def kbind_Ret[where m = "syscall X GETSUPPORTPTR 0 0 0", OF s1]
        kread_def s2 support_trap_handler_def)
  with s1 s2 show thesis by (rule that)
qed

text \<open>A refill of a page the table has loads its entry.\<close>

lemma refill_run:
  assumes "act_proc s = Some a" and "p_supportStruct (pcbs s a) = sa" and "sa \<noteq> NULL"
    and "page_index X (entry_hi (states s BIOSDATAPAGE)) = mpg" and "unat mpg < USERPGTBLSIZE"
  shows "uTLB_RefillHandler (kernel_plat X) s = Stop (Ldst (states s BIOSDATAPAGE))
    (upd_hw (\<lambda>h. TLBWR (kernel_plat X)
       (setENTRYLO (kernel_plat X) (pte_entryLO (sup_privatePgTbl (supports s sa) (unat mpg)))
       (setENTRYHI (kernel_plat X) (pte_entryHI (sup_privatePgTbl (supports s sa) (unat mpg))) h))) s)"
proof -
  let ?v = "ENTRYHI_GET_VPN X (entry_hi (states s BIOSDATAPAGE))"
  have "(if ?v = STK_PG then USERPGTBLSIZE - 1 else unat ?v) = unat mpg"
    using assms(4) by (auto simp: page_index_def Let_def USERPGTBLSIZE_def split: if_splits)
  moreover have "ENTRYHI_GET_VPN (kernel_plat X) = ENTRYHI_GET_VPN X" by (simp add: kernel_plat_def plat.truncate_def)
  ultimately show ?thesis
    using assms by (simp add: uTLB_RefillHandler_def Let_def upd_hw_def)
qed

end
