(* ===== verification/Platform_Example.thy ===== *)
theory Platform_Example
  imports Kernel
begin

text \<open>
  A concrete platform: the values the uMPS3 documentation gives for what the model takes as
  parameters, with a processor that has a status register, a cause register and a clock. The
  witnesses of the properties are evaluated on it, from the state the boot leads to.
\<close>

type_synonym cpu3 = "u32 \<times> u32 \<times> u32"

definition umps :: "cpu3 plat" where
  "umps =
     \<lparr>pcb_base = 0x20002000, sizeof_pcb = 0xC8, offset_p_s = 0x1C,
      addr_sem_it = 0x20004000, addr_sem_disk = 0x20004100, addr_sem_flash = 0x20004200,
      addr_sem_net = 0x20004300, addr_sem_printer = 0x20004400, addr_sem_term_in = 0x20004500,
      addr_sem_term_out = 0x20004600, addr_exception_handler = 0x20001100,
      addr_uTLB_RefillHandler = 0x20001200, addr_instantiator_proc = 0x20001300,
      STATE_GPR_LEN = 29, reg_v0 = 1, reg_a0 = 3, reg_a1 = 4, reg_a2 = 5, reg_a3 = 6, reg_t9 = 23, reg_sp = 25,
      WORD_SIZE = 4,
      DEVPERINT = 8, N_EXT_IL = 5, N_DEV_PER_IL = 8, N_INTERRUPT_LINES = 8,
      IL_IPI = 0, IL_CPUTIMER = 1, IL_TIMER = 2, IL_DISK = 3, IL_FLASH = 4, IL_ETHERNET = 5, IL_PRINTER = 6,
      IL_TERMINAL = 7, DEV_REG_START = 0x10000054, DEV_REG_SIZE = 0x10,
      DEV_REG_ADDR = (\<lambda>line dev. 0x10000054 + of_nat (line - 3) * 0x80 + of_nat dev * 0x10),
      CDEV_BITMAP_ADDR = (\<lambda>line. 0x10000040 + of_nat (line - 3) * 4),
      devreg = (\<lambda>line dev. 0x10000054 + of_nat line * 0x80 + of_nat dev * 0x10),
      off_dtp_status = 0, off_dtp_command = 4, off_recv_status = 0, off_recv_command = 4,
      off_transm_status = 8, off_transm_command = 12,
      off_tlb_refill_handler = 0, off_tlb_refill_stackPtr = 4, off_exception_handler = 8, off_exception_stackPtr = 12,
      CAUSE_GET_EXCCODE = (\<lambda>c. drop_bit 2 (c AND 0x7C)), CAUSE_IP = (\<lambda>i. push_bit (8 + i) 1),
      EXC_INT = 0, EXC_MOD = 1, EXC_TLBL = 2, EXC_TLBS = 3, EXC_ADEL = 4, EXC_ADES = 5, EXC_IBE = 6, EXC_DBE = 7,
      EXC_SYS = 8, EXC_BP = 9, EXC_RI = 10, EXC_CPU = 11, EXC_OV = 12,
      STATUS_IEc = 1, STATUS_KUc = 2, STATUS_IEp = 4, STATUS_KUp = 8, STATUS_KUp_BIT = 3, STATUS_IM_MASK = 0xFF00,
      STATUS_TE = 0x08000000, ENTRYHI_GET_VPN = (\<lambda>x. drop_bit 12 (x AND 0x3FFFF000)),
      getSTATUS = fst, setSTATUS = (\<lambda>v (st, c, t). (v, c, t)), getCAUSE = (\<lambda>(st, c, t). c),
      setTIMER = (\<lambda>v h. h), LDIT = (\<lambda>v h. h), STCK = (\<lambda>(st, c, t). (t, (st, c, t + 1))),
      setENTRYHI = (\<lambda>v h. h), setENTRYLO = (\<lambda>v h. h), TLBWR = (\<lambda>h. h)\<rparr>"

lemma umps_layout: "layout_ok umps"
  by (simp add: layout_ok_def umps_def MAXPROC_def NULL_def)

lemma umps_lines: "lines_ok umps"
  by (simp add: lines_ok_def umps_def)

definition zero_state :: state_t where
  "zero_state = \<lparr>entry_hi = 0, cause = 0, status = 0, pc_epc = 0, gpr = (\<lambda>_. 0), hi = 0, lo = 0\<rparr>"

definition power_on :: "cpu3 kst" where
  "power_on =
     \<lparr>lh = \<lparr>nxt = (\<lambda>_. NullRef), prv = (\<lambda>_. NullRef)\<rparr>,
      pcbs = (\<lambda>_. \<lparr>p_parent = None, p_s = zero_state, p_time = 0, p_tm_updt = 0, p_semAdd = 0,
                   p_supportStruct = 0, p_prio = 0, p_pid = 0\<rparr>),
      s_key = (\<lambda>_. 0), act_proc = None, yielded_proc = None, sb_procs = 0, procs_count = 0,
      mem = (\<lambda>_. 0), states = (\<lambda>_. zero_state),
      supports = (\<lambda>_. \<lparr>sup_asid = 0, sup_exceptState = (\<lambda>_. zero_state),
                         sup_exceptContext = (\<lambda>_. \<lparr>cx_stackPtr = 0, cx_status = 0, cx_pc = 0\<rparr>),
                         sup_privatePgTbl = (\<lambda>_. \<lparr>pte_entryHI = 0, pte_entryLO = 0\<rparr>)\<rparr>),
      klogb = \<lparr>klog_line_index = 0, klog_char_index = 0, klog_buffer = (\<lambda>_ _. CHR 0x00)\<rparr>,
      hw = (0, 0, 0)\<rparr>"

lemma power_on_boot: "boot_ok power_on"
  by (simp add: boot_ok_def power_on_def)

text \<open>The first process is running.\<close>

definition first_run :: "cpu3 kst" where
  "first_run = out_st (kernel_main umps power_on)"

lemma first_run:
  "kernel_main umps power_on = Stop (out_why (kernel_main umps power_on)) first_run"
  "running umps 0 first_run main_abs" "p_prio (pcbs first_run 0) = PROCESS_PRIO_LOW"
  "p_parent (pcbs first_run 0) = None" "p_supportStruct (pcbs first_run 0) = NULL"
proof -
  obtain st s' where r: "kernel_main umps power_on = Stop (Ldst st) s'" "running umps 0 s' main_abs"
    "p_prio (pcbs s' 0) = PROCESS_PRIO_LOW" "p_parent (pcbs s' 0) = None" "p_supportStruct (pcbs s' 0) = NULL"
    by (rule kernel_main_run[OF power_on_boot umps_layout])
  then have f: "first_run = s'" by (simp add: first_run_def)
  show "kernel_main umps power_on = Stop (out_why (kernel_main umps power_on)) first_run" by (simp add: r(1) f)
  show "running umps 0 first_run main_abs" "p_prio (pcbs first_run 0) = PROCESS_PRIO_LOW"
    "p_parent (pcbs first_run 0) = None" "p_supportStruct (pcbs first_run 0) = NULL"
    using r f by simp_all
qed

text \<open>The first process with a word of memory set, and the state in which it waits on it.\<close>

definition with_word :: "u32 \<Rightarrow> u32 \<Rightarrow> cpu3 kst" where
  "with_word k v = store_mem k v first_run"

lemma with_word:
  "running umps 0 (with_word k v) main_abs" "kinv umps (with_word k v) main_abs" "mem (with_word k v) k = v"
  "p_prio (pcbs (with_word k v) 0) = PROCESS_PRIO_LOW" "waiting (with_word k v) main_abs j = []"
  "act_proc (with_word k v) = Some 0"
proof -
  have r: "kinv umps first_run main_abs" using first_run(2) by (simp add: running_def)
  show k: "kinv umps (with_word k v) main_abs" unfolding with_word_def by (rule store_mem_kinv[OF r])
  then show "running umps 0 (with_word k v) main_abs" "act_proc (with_word k v) = Some 0"
    using first_run(2) by (simp_all add: running_def with_word_def)
  show "mem (with_word k v) k = v" "p_prio (pcbs (with_word k v) 0) = PROCESS_PRIO_LOW"
    using first_run(3) by (simp_all add: with_word_def)
  show "waiting (with_word k v) main_abs j = []" by (rule waiting_none) (simp add: main_abs_def)
qed

definition asleep :: "u32 \<Rightarrow> cpu3 kst" where
  "asleep k = out_st (passeren k (with_word k 0))"

lemma asleep:
  assumes "k \<noteq> NULL"
  obtains A where "kinv umps (asleep k) A" and "waiting (asleep k) A k = [0]" and "mem (asleep k) k = 0"
    and "p_prio (pcbs (asleep k) 0) = PROCESS_PRIO_LOW" and "a_lq A = []" and "a_hq A = []" and "a_det A = []"
    and "blocked_on k 0 (with_word k 0) main_abs (asleep k) A" and "a_alive A \<noteq> []" and "act_proc (asleep k) = Some 0"
    and "yielded_proc (asleep k) = None"
proof -
  have d: "0 \<in> set (a_det main_abs)" by (simp add: main_abs_def)
  obtain s' A where p: "passeren k (with_word k 0) = Ret NOTHING s'" "kinv umps s' A"
    "blocked_on k 0 (with_word k 0) main_abs s' A"
    by (rule passeren_blocks[OF with_word(2) with_word(6) d assms with_word(3)])
  have s': "asleep k = s'" by (simp add: asleep_def p(1))
  have w: "waiting s' A k = [0]" using p(3) by (simp add: blocked_on_def with_word(5))
  have al: "set (a_alive A) = set (a_alive main_abs)" using p(3) by (simp add: blocked_on_def)
  have rest: "mem s' k = 0" "p_prio (pcbs s' 0) = PROCESS_PRIO_LOW" "a_lq A = []" "a_hq A = []" "a_det A = []"
    "act_proc s' = Some 0" "yielded_proc s' = None"
    using p(3) with_word[of k 0]
    by (simp_all add: blocked_on_def same_user_def main_abs_def running_def)
  have ne: "a_alive A \<noteq> []" using al by (auto simp: main_abs_def a_alive_def)
  show thesis
    by (rule that[of A]) (use p(2,3) w rest ne in \<open>simp_all add: s'\<close>)
qed

text \<open>The first process after it has created \<open>n\<close> others.\<close>

fun crowd :: "nat \<Rightarrow> cpu3 kst" where
  "crowd 0 = first_run"
| "crowd (Suc n) = out_st (mk_proc umps 0x20005000 PROCESS_PRIO_LOW NULL (crowd n))"

lemma crowd:
  "n \<le> 19 \<Longrightarrow> \<exists>A. running umps 0 (crowd n) A \<and> a_free A = [Suc n..<MAXPROC] \<and> a_lq A = [1..<Suc n] \<and>
     a_hq A = [] \<and> a_blocked A = [] \<and> p_prio (pcbs (crowd n) 0) = PROCESS_PRIO_LOW"
proof (induction n)
  case 0
  then show ?case using first_run(2,3) by (auto simp: main_abs_def a_blocked_def intro!: exI[of _ main_abs])
next
  case (Suc n)
  then obtain A where A: "running umps 0 (crowd n) A" "a_free A = [Suc n..<MAXPROC]" "a_lq A = [1..<Suc n]"
    "a_hq A = []" "a_blocked A = []" "p_prio (pcbs (crowd n) 0) = PROCESS_PRIO_LOW" by auto
  with Suc.prems have f: "a_free A = Suc n # [Suc (Suc n)..<MAXPROC]" by (simp add: MAXPROC_def upt_conv_Cons)
  note R = runningD[OF A(1)]
  obtain s' where m: "mk_proc umps 0x20005000 PROCESS_PRIO_LOW NULL (crowd n) = Ret (Some (Suc n)) s'"
    "kinv umps s' (a_create PROCESS_PRIO_LOW 0 (Suc n) A)" "same_user (crowd n) s'"
    "pcbs s' = (pcbs (crowd n))(Suc n := new_pcb umps (crowd n) 0 0x20005000 PROCESS_PRIO_LOW NULL (Suc n))"
    by (rule mk_proc_kinv[OF R(1,3,6) f])
  have "running umps 0 s' (a_create PROCESS_PRIO_LOW 0 (Suc n) A)"
    using m R by (simp add: running_def same_user_def a_create_def)
  moreover have "remove1 (Suc n) [Suc n..<MAXPROC] = [Suc (Suc n)..<MAXPROC]"
    using f A(2) by (metis remove1.simps(2))
  ultimately show ?case using m(1,4) A(2-6)
    by (intro exI[of _ "a_create PROCESS_PRIO_LOW 0 (Suc n) A"]) (simp add: a_create_def)
qed

text \<open>The first process with a support structure, in user mode.\<close>

definition supported :: "cpu3 kst" where
  "supported = upd_pcb 0 (\<lambda>q. q\<lparr>p_supportStruct := 0x20006000\<rparr>)
     (outside (\<lambda>_. 0) (\<lambda>_. zero_state) (supports first_run) (8, 0, 0) first_run)"

lemma supported:
  "running umps 0 supported main_abs" "p_supportStruct (pcbs supported 0) = 0x20006000"
  "hw supported = (8, 0, 0)" "states supported a = zero_state" "act_proc supported = Some 0"
proof -
  have "kinv umps (outside (\<lambda>_. 0) (\<lambda>_. zero_state) (supports first_run) (8, 0, 0) first_run) main_abs"
    using first_run(2) by (simp add: running_def outside_kinv)
  then have "kinv umps supported main_abs" unfolding supported_def by (rule kinv_cong) simp_all
  then show "running umps 0 supported main_abs" "act_proc supported = Some 0"
    using first_run(2) by (simp_all add: running_def supported_def)
  show "p_supportStruct (pcbs supported 0) = 0x20006000" "hw supported = (8, 0, 0)" "states supported a = zero_state"
    by (simp_all add: supported_def outside_def)
qed

end
