(* ===== verification/Init_Proc.thy ===== *)
theory Init_Proc
  imports Sys_Support
begin

text \<open>
  \<open>src/init_proc.c\<close>: the first process of the machine, which builds the support structures of the
  eight user processes, starts them, waits for each and ends.
\<close>

section \<open>The operations\<close>

definition tp_state_addr :: "'h splat \<Rightarrow> nat \<Rightarrow> u32" where
  "tp_state_addr X i = addr_tp_states X + of_nat i * sizeof_state X"

definition tp_supp_addr :: "'h splat \<Rightarrow> nat \<Rightarrow> u32" where
  "tp_supp_addr X i = addr_tp_supps X + of_nat i * sizeof_support X"

text \<open>The processor state of the \<open>i\<close>-th process, over whatever its memory held.\<close>

definition uproc_state :: "'h splat \<Rightarrow> nat \<Rightarrow> state_t \<Rightarrow> state_t" where
  "uproc_state X i st =
     (set_reg (reg_sp X) USERSTACKTOP (set_reg (reg_t9 X) UPROCSTARTADDR (st\<lparr>pc_epc := UPROCSTARTADDR\<rparr>)))
       \<lparr>status := STATUS_TE X OR STATUS_IEc X OR STATUS_KUp X OR STATUS_IM_MASK X,
        entry_hi := push_bit (ENTRYHI_ASID_BIT X) (of_nat i)\<rparr>"

text \<open>
  The two exception contexts of the \<open>i\<close>-th support structure. The stack pointers are taken from
  \<open>tp_supps[i]\<close>, the structure after it.
\<close>

definition uproc_contexts :: "'h splat \<Rightarrow> nat \<Rightarrow> support_t \<Rightarrow> support_t" where
  "uproc_contexts X i q =
     (let st = (STATUS_TE X OR STATUS_IM_MASK X OR STATUS_KUp X OR STATUS_IEc X) XOR STATUS_KUp X
      in q\<lparr>sup_exceptContext := (sup_exceptContext q)
        (0 := \<lparr>cx_stackPtr = tp_supp_addr X i + off_sup_stackTLB X + 4 * (500 - 1), cx_status = st,
               cx_pc = addr_tlb_exc_handler X\<rparr>,
         1 := \<lparr>cx_stackPtr = tp_supp_addr X i + off_sup_stackGen X + 4 * (500 - 1), cx_status = st,
               cx_pc = addr_support_exec_handler X\<rparr>)\<rparr>)"

definition start_uproc :: "'h splat \<Rightarrow> nat \<Rightarrow> (unit, 'h) um" where
  "start_uproc X i =
     (let sta = tp_state_addr X (i - 1); sa = tp_supp_addr X (i - 1)
      in kseq (kmodify (sayi ''IP'' ''creating uproc'' (of_nat i)))
        (kseq (kmodify (\<lambda>s. s\<lparr>sup_states := (sup_states s)(sta := uproc_state X i (sup_states s sta))\<rparr>))
        (kseq (kmodify (upd_sup sa (\<lambda>q. q\<lparr>sup_asid := of_nat i\<rparr>)))
        (kseq (init_page_table X sa (of_nat i))
        (kseq (kmodify (upd_sup sa (uproc_contexts X i)))
        (kseq (syscall X CREATEPROCESS sta PROCESS_PRIO_LOW sa) (kreturn ())))))))"

definition instantiator_proc :: "'h splat \<Rightarrow> (unit, 'h) um" where
  "instantiator_proc X =
     kseq (kmodify (init_supp_structures X))
    (kseq (fold (\<lambda>i m. kseq m (start_uproc X i)) [1..<UPROCMAX + 1] (kreturn ()))
    (kseq (fold (\<lambda>i m. kseq m (p_on_master_sem X)) [1..<UPROCMAX + 1] (kreturn ()))
    (kseq (syscall X TERMPROCESS 0 0 0) (kreturn ()))))"

section \<open>Starting a process\<close>

lemma fold_upd_pte:
  "pte_of (fold (\<lambda>i. upd_pte sa i (\<lambda>_. f i)) [0..<n] s) e = (if fst e = sa \<and> snd e < n then f (snd e) else pte_of s e)"
  "sup_asid (sups (fold (\<lambda>i. upd_pte sa i (\<lambda>_. f i)) [0..<n] s) q) = sup_asid (sups s q)"
  "calls (fold (\<lambda>i. upd_pte sa i (\<lambda>_. f i)) [0..<n] s) = calls s"
  "sup_states (fold (\<lambda>i. upd_pte sa i (\<lambda>_. f i)) [0..<n] s) = sup_states s"
proof (induction n)
  case (Suc n)
  {
    case 1
    show ?case using Suc.IH(1) by (cases e) (auto simp: pte_of_upd_pte less_Suc_eq)
  next
    case 2
    show ?case using Suc.IH(2) by simp
  next
    case 3
    show ?case using Suc.IH(3) by simp
  next
    case 4
    show ?case using Suc.IH(4) by (simp add: upd_pte_def upd_sup_def)
  }
qed simp_all

text \<open>The page table of a process with ASID \<open>u\<close> that has no page in memory.\<close>

definition fresh_table :: "'h splat \<Rightarrow> u32 \<Rightarrow> u32 \<Rightarrow> 'h ust \<Rightarrow> bool" where
  "fresh_table X sa u s \<longleftrightarrow> (\<forall>p<USERPGTBLSIZE. pte_of s (sa, p) =
     \<lparr>pte_entryHI = KUSEG + (if p = USERPGTBLSIZE - 1 then GETPAGENO else push_bit VPNSHIFT (of_nat p)) + push_bit ASIDSHIFT u,
      pte_entryLO = ENTRYLO_DIRTY X\<rparr>)"

lemma init_page_table_run:
  assumes "sa + off_sup_privatePgTbl X \<noteq> NULL" and "0 < sint u" and "sint u \<le> int UPROCMAX"
  shows "\<exists>s'. init_page_table X sa u s = Ret () s' \<and> fresh_table X sa u s' \<and>
    sup_asid (sups s' q) = sup_asid (sups s q) \<and> calls s' = calls s \<and> sup_states s' = sup_states s"
proof -
  let ?f = "\<lambda>i. \<lparr>pte_entryHI = KUSEG + push_bit VPNSHIFT (of_nat i) + push_bit ASIDSHIFT u, pte_entryLO = ENTRYLO_DIRTY X\<rparr>"
  let ?s1 = "fold (\<lambda>i. upd_pte sa i (\<lambda>_. ?f i)) [0..<USERPGTBLSIZE - 1] s"
  let ?s2 = "upd_pte sa (USERPGTBLSIZE - 1) (\<lambda>_.
      \<lparr>pte_entryHI = KUSEG + GETPAGENO + push_bit ASIDSHIFT u, pte_entryLO = ENTRYLO_DIRTY X\<rparr>) ?s1"
  have "\<not> (sa + off_sup_privatePgTbl X = NULL \<or> sint u \<le> 0 \<or> int UPROCMAX < sint u)" using assms by auto
  then have "init_page_table X sa u s = Ret () ?s2"
    unfolding init_page_table_def by (simp only: if_False kmodify_def Let_def)
  moreover have "fresh_table X sa u ?s2"
    unfolding fresh_table_def pte_of_upd_pte fold_upd_pte(1) by (auto simp: USERPGTBLSIZE_def)
  moreover have "sup_asid (sups ?s2 q) = sup_asid (sups s q)" "calls ?s2 = calls s"
    by (simp_all only: upd_pte_sel fold_upd_pte)
  moreover have "sup_states ?s2 = sup_states s"
    using fold_upd_pte(4)[of sa ?f "USERPGTBLSIZE - 1" s] by (simp add: upd_pte_def upd_sup_def)
  ultimately show ?thesis by blast
qed

text \<open>What the kernel finds when it is asked to create the \<open>i\<close>-th process.\<close>

definition uproc_ready :: "'h splat \<Rightarrow> nat \<Rightarrow> 'h ust \<Rightarrow> bool" where
  "uproc_ready X i s \<longleftrightarrow>
     (let st = sup_states s (tp_state_addr X (i - 1)); sa = tp_supp_addr X (i - 1); q = sups s sa in
      pc_epc st = UPROCSTARTADDR \<and> gpr st (reg_t9 X) = UPROCSTARTADDR \<and> gpr st (reg_sp X) = USERSTACKTOP \<and>
      entry_hi st = push_bit (ENTRYHI_ASID_BIT X) (of_nat i) \<and>
      sup_asid q = of_nat i \<and> fresh_table X sa (of_nat i) s \<and>
      cx_pc (sup_exceptContext q 0) = addr_tlb_exc_handler X \<and>
      cx_pc (sup_exceptContext q 1) = addr_support_exec_handler X \<and>
      cx_stackPtr (sup_exceptContext q 0) = tp_supp_addr X i + off_sup_stackTLB X + 1996 \<and>
      cx_stackPtr (sup_exceptContext q 1) = tp_supp_addr X i + off_sup_stackGen X + 1996)"

definition create_call :: "'h splat \<Rightarrow> nat \<Rightarrow> int \<times> u32 \<times> u32 \<times> u32" where
  "create_call X i = (CREATEPROCESS, tp_state_addr X (i - 1), PROCESS_PRIO_LOW, tp_supp_addr X (i - 1))"

text \<open>A kernel that comes back from the calls the first process makes, but for the one that ends it.\<close>

definition starter_ok :: "'h splat \<Rightarrow> bool" where
  "starter_ok X \<longleftrightarrow> (\<forall>a b c t. calls (snd (SYSCALL X CREATEPROCESS a b c t)) = calls t \<and>
     calls (snd (SYSCALL X PASSEREN a b c t)) = calls t \<and> calls (snd (SYSCALL X TERMPROCESS a b c t)) = calls t \<and>
     fst (SYSCALL X CREATEPROCESS a b c t) \<noteq> None \<and> fst (SYSCALL X PASSEREN a b c t) \<noteq> None \<and>
     fst (SYSCALL X TERMPROCESS a b c t) = None) \<and>
     reg_t9 X \<noteq> reg_sp X \<and> (\<forall>i<UPROCMAX. tp_supp_addr X i + off_sup_privatePgTbl X \<noteq> NULL)"

lemma upd_sup_contexts:
  "pte_of (upd_sup sa (uproc_contexts X i) s) e = pte_of s e"
  "sup_asid (sups (upd_sup sa (uproc_contexts X i) s) q) = sup_asid (sups s q)"
  "sup_exceptContext (sups (upd_sup sa (uproc_contexts X i) s) sa) = sup_exceptContext (uproc_contexts X i (sups s sa))"
  "calls (upd_sup sa (uproc_contexts X i) s) = calls s" "sup_states (upd_sup sa (uproc_contexts X i) s) = sup_states s"
  by (simp_all add: upd_sup_def pte_of_def uproc_contexts_def Let_def)

lemma start_uproc_run:
  assumes ok: "starter_ok X" and i: "1 \<le> i" "i \<le> UPROCMAX"
  shows "\<exists>t. uproc_ready X i t \<and> calls t = calls s \<and>
    start_uproc X i s = Ret () (snd (SYSCALL X CREATEPROCESS (tp_state_addr X (i - 1)) PROCESS_PRIO_LOW (tp_supp_addr X (i - 1))
       (t\<lparr>calls := calls t @ [create_call X i]\<rparr>)))"
proof -
  let ?sta = "tp_state_addr X (i - 1)" and ?sa = "tp_supp_addr X (i - 1)"
  let ?s1 = "sayi ''IP'' ''creating uproc'' (of_nat i) s"
  let ?s2 = "?s1\<lparr>sup_states := (sup_states ?s1)(?sta := uproc_state X i (sup_states ?s1 ?sta))\<rparr>"
  let ?s3 = "upd_sup ?sa (\<lambda>q. q\<lparr>sup_asid := of_nat i\<rparr>) ?s2"
  have "i \<in> {1, 2, 3, 4, 5, 6, 7, 8}" using i by (simp only: UPROCMAX_def insert_iff empty_iff) arith
  then have u: "0 < sint (of_nat i :: u32)" "sint (of_nat i :: u32) \<le> int UPROCMAX"
    by (auto simp: UPROCMAX_def)
  have nn: "?sa + off_sup_privatePgTbl X \<noteq> NULL" using ok i by (simp add: starter_ok_def)
  obtain s4 where s4: "init_page_table X ?sa (of_nat i) ?s3 = Ret () s4" "fresh_table X ?sa (of_nat i) s4"
    "sup_asid (sups s4 ?sa) = sup_asid (sups ?s3 ?sa)" "calls s4 = calls ?s3" "sup_states s4 = sup_states ?s3"
    using init_page_table_run[OF nn u] by blast
  let ?t = "upd_sup ?sa (uproc_contexts X i) s4"
  have a: "sup_asid (sups ?s3 ?sa) = of_nat i" by (simp add: upd_sup_def)
  have st1: "sup_states ?s3 ?sta = uproc_state X i (sup_states s ?sta)" by (simp add: upd_sup_def sayi_def)
  have "calls ?s3 = calls s" unfolding upd_sup_def sayi_def by simp
  note st = st1 this
  have "uproc_ready X i ?t"
    using ok s4(2,3,5) a st(1)
    by (simp add: uproc_ready_def Let_def upd_sup_contexts fresh_table_def uproc_state_def starter_ok_def)
      (simp add: uproc_contexts_def Let_def)
  moreover have "calls ?t = calls s" by (simp only: upd_sup_contexts s4(4) st(2))
  moreover obtain r where r: "fst (SYSCALL X CREATEPROCESS ?sta PROCESS_PRIO_LOW ?sa
      (?t\<lparr>calls := calls ?t @ [create_call X i]\<rparr>)) = Some r"
    using ok unfolding starter_ok_def by blast
  then have "syscall X CREATEPROCESS ?sta PROCESS_PRIO_LOW ?sa ?t = Ret r (snd (SYSCALL X CREATEPROCESS ?sta PROCESS_PRIO_LOW ?sa
      (?t\<lparr>calls := calls ?t @ [create_call X i]\<rparr>)))"
    unfolding create_call_def by (rule syscall_Ret)
  then have "start_uproc X i s = Ret () (snd (SYSCALL X CREATEPROCESS ?sta PROCESS_PRIO_LOW ?sa
       (?t\<lparr>calls := calls ?t @ [create_call X i]\<rparr>)))"
    using s4(1) by (simp add: start_uproc_def Let_def kseq_def kbind_def kmodify_def kreturn_def)
  ultimately show ?thesis by blast
qed

text \<open>A loop whose body makes one call per round.\<close>

lemma fold_calls:
  assumes "\<And>i t. i \<in> set xs \<Longrightarrow> \<exists>t'. body i t = Ret () t' \<and> calls t' = calls t @ [f i]"
    and "m s = Ret () s0"
  shows "\<exists>s'. fold (\<lambda>i m. kseq m (body i)) xs m s = Ret () s' \<and> calls s' = calls s0 @ map f xs"
  using assms
proof (induction xs arbitrary: m s0)
  case (Cons i xs)
  obtain t' where t': "body i s0 = Ret () t'" "calls t' = calls s0 @ [f i]" using Cons.prems(1)[of i s0] by auto
  have "kseq m (body i) s = Ret () t'" using Cons.prems(2) t'(1) by (simp add: kseq_Ret)
  from Cons.IH[OF Cons.prems(1), of "kseq m (body i)", OF _ this] show ?case using t'(2) by auto
qed simp

lemma start_uproc_calls:
  assumes ok: "starter_ok X" and i: "1 \<le> i" "i \<le> UPROCMAX"
  shows "\<exists>t'. start_uproc X i s = Ret () t' \<and> calls t' = calls s @ [create_call X i]"
  using start_uproc_run[OF assms, of s] ok by (auto simp: starter_ok_def)

lemma p_on_master_calls:
  assumes "starter_ok X"
  shows "\<exists>t'. p_on_master_sem X s = Ret () t' \<and> calls t' = calls s @ [(PASSEREN, addr_master_sem X, 0, 0)]"
proof -
  obtain r where r: "fst (SYSCALL X PASSEREN (addr_master_sem X) 0 0 (s\<lparr>calls := calls s @ [(PASSEREN, addr_master_sem X, 0, 0)]\<rparr>)) = Some r"
    using assms unfolding starter_ok_def by blast
  show ?thesis using syscall_Ret[OF r] assms by (simp add: p_on_master_sem_def kseq_Ret kreturn_def starter_ok_def)
qed

lemma init_supp_structures_calls: "calls (init_supp_structures X s) = calls s"
proof -
  have a: "calls (fold (\<lambda>j s. set_cell (g j) 1 s) js s) = calls s" for g :: "nat \<Rightarrow> u32" and js and s :: "'a ust"
    by (induction js arbitrary: s) (simp_all add: set_cell_def)
  have b: "calls (fold (\<lambda>i s. fold (\<lambda>j s. set_cell (g i j) 1 s) js s) is s) = calls s"
    for g :: "nat \<Rightarrow> nat \<Rightarrow> u32" and js "is" and s :: "'a ust"
    by (induction "is" arbitrary: s) (simp_all add: a)
  have c: "calls (fold (\<lambda>i s. s\<lparr>sp_tbl := (sp_tbl s)(i := (sp_tbl s i)\<lparr>e_asid := -1\<rparr>)\<rparr>) is s) = calls s"
    for "is" and s :: "'a ust"
    by (induction "is" arbitrary: s) simp_all
  show ?thesis unfolding init_supp_structures_def Let_def b c by (simp add: set_cell_def)
qed

lemma instantiator_run:
  assumes ok: "starter_ok X"
  shows "\<exists>s'. instantiator_proc X s = Stop Gone s' \<and>
    calls s' = calls s @ map (create_call X) [1..<UPROCMAX + 1] @
      replicate UPROCMAX (PASSEREN, addr_master_sem X, 0, 0) @ [(TERMPROCESS, 0, 0, 0)]"
proof -
  let ?s1 = "init_supp_structures X s"
  have r: "kreturn () t = Ret () t" for t by (simp add: kreturn_def)
  have "\<exists>s2. fold (\<lambda>i m. kseq m (start_uproc X i)) [1..<UPROCMAX + 1] (kreturn ()) ?s1 = Ret () s2 \<and>
      calls s2 = calls ?s1 @ map (create_call X) [1..<UPROCMAX + 1]"
    by (rule fold_calls[where m = "kreturn ()", OF start_uproc_calls[OF ok] r]) auto
  then obtain s2 where s2: "fold (\<lambda>i m. kseq m (start_uproc X i)) [1..<UPROCMAX + 1] (kreturn ()) ?s1 = Ret () s2"
    "calls s2 = calls ?s1 @ map (create_call X) [1..<UPROCMAX + 1]" by blast
  have "\<exists>s3. fold (\<lambda>i m. kseq m (p_on_master_sem X)) [1..<UPROCMAX + 1] (kreturn ()) s2 = Ret () s3 \<and>
      calls s3 = calls s2 @ map (\<lambda>_. (PASSEREN, addr_master_sem X, 0, 0)) [1..<UPROCMAX + 1]"
    by (rule fold_calls[where m = "kreturn ()", OF p_on_master_calls[OF ok] r])
  then obtain s3 where s3: "fold (\<lambda>i m. kseq m (p_on_master_sem X)) [1..<UPROCMAX + 1] (kreturn ()) s2 = Ret () s3"
    "calls s3 = calls s2 @ map (\<lambda>_. (PASSEREN, addr_master_sem X, 0, 0)) [1..<UPROCMAX + 1]" by blast
  have "fst (SYSCALL X TERMPROCESS 0 0 0 (s3\<lparr>calls := calls s3 @ [(TERMPROCESS, 0, 0, 0)]\<rparr>)) = None"
    using ok by (simp add: starter_ok_def)
  note gone = syscall_Gone[OF this]
  have "instantiator_proc X s = Stop Gone (snd (SYSCALL X TERMPROCESS 0 0 0 (s3\<lparr>calls := calls s3 @ [(TERMPROCESS, 0, 0, 0)]\<rparr>)))"
    unfolding instantiator_proc_def
    by (subst kseq_Ret[OF kmodify_run], subst kseq_Ret[where m = "fold m xs k" for m xs k, OF s2(1)],
        subst kseq_Ret[where m = "fold m xs k" for m xs k, OF s3(1)],
        rule kseq_Stop[where m = "syscall X TERMPROCESS 0 0 0", OF gone])
  moreover have "map (\<lambda>_. (PASSEREN, addr_master_sem X, 0, 0)) [1..<UPROCMAX + 1] = replicate UPROCMAX (PASSEREN, addr_master_sem X, 0, 0)"
    by (simp add: map_replicate_const)
  ultimately show ?thesis using ok by (simp add: starter_ok_def s3(2) s2(2) init_supp_structures_calls)
qed

end
