(* ===== verification/Support_Example.thy ===== *)
theory Support_Example
  imports Platform_Example Init_Proc
begin

text \<open>
  A concrete platform for the support level: the one of \<open>Platform_Example\<close> with the values of the
  support headers, and a kernel that serves every call at once, but for the one that ends the
  process, and answers \<open>reply\<close> to a device
  request. The witnesses of the support properties are evaluated on it.
\<close>

definition kernel_answer :: "u32 \<Rightarrow> int \<Rightarrow> u32 option" where
  "kernel_answer reply n =
     (if n = TERMPROCESS then None else if n = GETSUPPORTPTR then Some 0x20006000
      else if n = DOIO then Some reply else Some 0)"

definition umps_sup :: "u32 \<Rightarrow> cpu3 splat" where
  "umps_sup reply = plat.extend umps
     (splat.fields 0x20005000 0x20005004 0x20005100 0x20005400 0x20006000 0x8C 0x1180
        0x144 0x244 0xA14 0x20001400 0x20001500 8 5 4 1 0x200 0x400 (\<lambda>x. drop_bit 12 (x AND 0xFFFFF000)) 6
        (\<lambda>h. h) (\<lambda>h. h) (\<lambda>_. 0) (\<lambda>n a b c t. (kernel_answer reply n, t)))"

lemma umps_sup_sel [simp]:
  "addr_sp_sem (umps_sup r) = 0x20005000" "addr_master_sem (umps_sup r) = 0x20005004"
  "addr_dev_sems (umps_sup r) = 0x20005100" "addr_tp_states (umps_sup r) = 0x20005400"
  "addr_tp_supps (umps_sup r) = 0x20006000" "sizeof_state (umps_sup r) = 0x8C"
  "sizeof_support (umps_sup r) = 0x1180" "off_sup_privatePgTbl (umps_sup r) = 0x144"
  "off_sup_stackTLB (umps_sup r) = 0x244" "off_sup_stackGen (umps_sup r) = 0xA14"
  "off_dtp_data0 (umps_sup r) = 8" "DEVINTNUM (umps_sup r) = 5" "FLASHINT (umps_sup r) = 4"
  "READY (umps_sup r) = 1" "ENTRYLO_VALID (umps_sup r) = 0x200"
  "ENTRYLO_DIRTY (umps_sup r) = 0x400" "ENTRYHI_ASID_BIT (umps_sup r) = 6"
  "SYSCALL (umps_sup r) n a b c t = (kernel_answer r n, t)"
  "addr_tlb_exc_handler (umps_sup r) = 0x20001400" "addr_support_exec_handler (umps_sup r) = 0x20001500"
  by (simp_all add: umps_sup_def plat.extend_def splat.fields_def)

lemma umps_sup_plat [simp]:
  "DEVPERINT (umps_sup r) = 8" "IL_DISK (umps_sup r) = 3" "IL_FLASH (umps_sup r) = 4" "IL_PRINTER (umps_sup r) = 6"
  "IL_TERMINAL (umps_sup r) = 7" "reg_v0 (umps_sup r) = 1" "reg_a0 (umps_sup r) = 3" "reg_a1 (umps_sup r) = 4"
  "reg_a2 (umps_sup r) = 5" "reg_t9 (umps_sup r) = 23" "reg_sp (umps_sup r) = 25"
  "EXC_MOD (umps_sup r) = 1" "EXC_SYS (umps_sup r) = 8"
  "CAUSE_GET_EXCCODE (umps_sup r) v = drop_bit 2 (v AND 0x7C)"
  "ENTRYHI_GET_VPN (umps_sup r) v = drop_bit 12 (v AND 0x3FFFF000)"
  "DEV_REG_ADDR (umps_sup r) l d = 0x10000054 + of_nat (l - 3) * 0x80 + of_nat d * 0x10"
  "off_dtp_command (umps_sup r) = 4" "off_transm_command (umps_sup r) = 12" "off_transm_status (umps_sup r) = 8"
  "STCK (umps_sup r) h = (case h of (st, c, t) \<Rightarrow> (t, (st, c, t + 1)))"
  by (simp_all add: umps_sup_def plat.extend_def umps_def)

text \<open>A memory with one process, ASID 1, whose pages are all out, and an empty swap pool.\<close>

definition one_support :: support_t where
  "one_support = \<lparr>sup_asid = 1, sup_exceptState = (\<lambda>_. zero_state),
     sup_exceptContext = (\<lambda>_. \<lparr>cx_stackPtr = 0, cx_status = 0, cx_pc = 0\<rparr>),
     sup_privatePgTbl = (\<lambda>_. \<lparr>pte_entryHI = 0, pte_entryLO = 0\<rparr>)\<rparr>"

definition fresh :: "cpu3 ust" where
  "fresh = \<lparr>sp_tbl = (\<lambda>_. \<lparr>e_asid = -1, e_vpn = 0, pg_tbl_entry = (0, 0)\<rparr>), sp_asids = 0, frame_top = 0,
     cells = (\<lambda>_. 0), chars = (\<lambda>_. 0), sups = (\<lambda>_. one_support), sup_states = (\<lambda>_. zero_state),
     ulog = \<lparr>klog_line_index = 0, klog_char_index = 0, klog_buffer = (\<lambda>_ _. CHR 0x00)\<rparr>,
     uhw = (0, 0, 0), calls = []\<rparr>"

lemma fresh_sel [simp]:
  "sups fresh q = one_support" "sup_asid one_support = 1" "sup_exceptState one_support k = zero_state"
  "calls fresh = []" "sp_tbl fresh k = \<lparr>e_asid = -1, e_vpn = 0, pg_tbl_entry = (0, 0)\<rparr>"
  "pte_of fresh e = \<lparr>pte_entryHI = 0, pte_entryLO = 0\<rparr>" "chars fresh a = 0" "uhw fresh = (0, 0, 0)" "frame_top fresh = 0"
  by (simp_all add: fresh_def one_support_def pte_of_def)

lemma fresh_pool: "pool_ok (umps_sup r) {0x20006000} fresh"
  by (simp add: pool_inv_def page_valid_def)

lemma quiet_kernel:
  "polite (umps_sup r)" "leaves_sup (umps_sup r) sa" "\<not> stuck (umps_sup r)"
  "device_said (umps_sup r) x \<longleftrightarrow> x = r"
  by (auto simp: polite_def leaves_sup_def stuck_def device_said_def kernel_answer_def syscall_numbers)

lemma quiet_support: "answers_support (umps_sup r) 0x20006000 t"
  by (simp add: answers_support_def kernel_answer_def NULL_def syscall_numbers)

lemma umps_sup_sems:
  "FLASH_SEMS (umps_sup r) = 1" "TERMOUT_SEMS (umps_sup r) = 5" "TERMIN_SEMS (umps_sup r) = 4"
  by (simp_all add: FLASH_SEMS_def TERMOUT_SEMS_def TERMIN_SEMS_def)

lemma quiet_env: "fault_env (umps_sup r) {0x20006000} 0x20006000"
proof -
  have "kernel_rely (umps_sup r) {0x20006000} 0x20006000" by (simp add: kernel_rely_def)
  moreover have "flags_ok (umps_sup r)"
    unfolding flags_ok_def by (intro conjI exI[of _ 9]) simp_all
  moreover have "dev_sem_addr (umps_sup r) 1 (u - 1) \<noteq> 0x20005000" if "1 \<le> u" "u \<le> 8" for u
  proof -
    have "unat u \<in> {1, 2, 3, 4, 5, 6, 7, 8}" using that by (simp add: word_le_nat_alt) arith
    then have "u \<in> {1, 2, 3, 4, 5, 6, 7, 8}" by (simp add: word_unat_eq_iff)
    then show ?thesis by (auto simp: dev_sem_addr_def)
  qed
  ultimately show ?thesis by (simp add: fault_env_def flash_ok_def umps_sup_sems)
qed

lemma umps_sup_starter: "starter_ok (umps_sup r)"
proof -
  have "tp_supp_addr (umps_sup r) i + off_sup_privatePgTbl (umps_sup r) \<noteq> NULL" if "i < UPROCMAX" for i
  proof -
    have "i \<in> {0, 1, 2, 3, 4, 5, 6, 7}" using that by (simp only: UPROCMAX_def insert_iff empty_iff) arith
    then show ?thesis by (auto simp: tp_supp_addr_def NULL_def)
  qed
  then show ?thesis by (simp add: starter_ok_def kernel_answer_def syscall_numbers)
qed

lemma umps_sup_devices:
  "dev_exists (umps_sup r) (FLASH_SEMS (umps_sup r)) 0" "dev_exists (umps_sup r) (TERMOUT_SEMS (umps_sup r)) 0"
  by (simp_all add: dev_exists_def umps_sup_sems)

end
