(* ===== verification/System_Spec.thy ===== *)
theory System_Spec
  imports Two_Levels Support_Example
begin

text \<open>
  The properties of the two levels together: a page fault and a system call of a user process, from
  the exception through both levels to the state the process is resumed in.
\<close>

section \<open>The concrete platform\<close>

lemma kernel_plat_umps [simp]: "kernel_plat (umps_sup r) = umps"
  by (simp add: kernel_plat_def umps_sup_def plat.truncate_def plat.extend_def)

text \<open>The kernel of that platform answers the process with its support structure.\<close>

lemma umps_answered:
  assumes run: "running umps a s A" and sa: "p_supportStruct (pcbs s a) = 0x20006000"
  shows "answered_by_kernel (umps_sup r) s GETSUPPORTPTR t"
proof -
  define rq where "rq = outside (\<lambda>_. 0) (\<lambda>_. zero_state\<lparr>cause := 0x20, gpr := (\<lambda>_. 0)(3 := -8)\<rparr>) (supports s) (0, 0, 0) s"
  have req: "sys_request umps rq GETSUPPORTPTR"
    by (simp add: sys_request_def sys_code_def rq_def outside_def umps_def zero_state_def syscall_numbers)
  have "running umps a rq A" unfolding rq_def by (rule outside_running[OF run])
  then obtain st s' where k: "exception_handler umps rq = Stop (Ldst st) s'"
    "st = (answered umps (answer umps rq a GETSUPPORTPTR) (states rq BIOSDATAPAGE))
        \<lparr>status := loaded_status umps ((pcbs rq a)\<lparr>p_s := states rq BIOSDATAPAGE\<rparr>)\<rparr>"
    by (rule answering_pass[OF _ umps_layout req]) auto
  have reg: "reg_v0 umps = 1" "reg_t9 umps = 23" by (simp_all add: umps_def)
  have "answer umps rq a GETSUPPORTPTR = 0x20006000" using sa by (simp add: answer_def syscall_numbers rq_def outside_def)
  then have "gpr st 1 = 0x20006000" by (simp add: k(2) answered_def past_def set_reg_def reg)
  moreover have "kernel_answer r GETSUPPORTPTR = Some 0x20006000" by (simp add: kernel_answer_def syscall_numbers)
  ultimately show ?thesis
    unfolding answered_by_kernel_def kernel_plat_umps
    using req k(1) unfolding rq_def by (intro exI conjI) auto
qed

lemma umps_asked:
  assumes "handed_up (umps_sup r) a kind s A s'" and "p_supportStruct (pcbs s a) = 0x20006000"
  shows "answered_by_kernel (umps_sup r) s' GETSUPPORTPTR t"
proof (rule umps_answered)
  show "running umps a s' A" "p_supportStruct (pcbs s' a) = 0x20006000"
    using assms by (simp_all add: handed_up_def Let_def)
qed

section \<open>A page fault\<close>

text \<open>
  C6. A page fault, from the access that misses to its retry. The kernel passes the fault up to the
  TLB handler in the support structure of the process, with the state of the access; when every call
  comes back and the flash devices work, the handler resumes the process in exactly that state. It
  takes the mutex of the pool once and gives it back once, and when it gives it back the missing
  page is valid, in a frame of the pool that the pool's table gives to it, and a TLB refill for the
  page loads that frame. The answer to the handler's first request, for the support structure, is
  the one the kernel's own system call computes.
\<close>

theorem page_fault_round_trip:
  fixes X :: "'h splat"
  assumes run: "running (kernel_plat X) a s A" and U: "layout_ok (kernel_plat X)" and r: "reg_v0 X \<noteq> reg_t9 X"
    and f: "f = states s BIOSDATAPAGE" and kind: "passed_kind (kernel_plat X) s = Some PGFAULTEXCEPT"
    and exc: "CAUSE_GET_EXCCODE X (cause f) \<noteq> EXC_MOD X"
    and pg: "page_index X (entry_hi f) = mpg" "unat mpg < USERPGTBLSIZE"
    and sa: "p_supportStruct (pcbs s a) = sa" "sa \<noteq> NULL"
    and pool: "sups t = supports s" "pool_ok X S t" and env: "fault_env X S sa"
    and ask: "\<And>s'. handed_up X a PGFAULTEXCEPT s A s' \<Longrightarrow> answered_by_kernel X s' GETSUPPORTPTR (entered s' t)"
    and ready: "\<not> stuck X" "\<forall>v. device_said X v \<longrightarrow> v = READY X"
  shows "\<exists>s' t' k t3. handed_up X a PGFAULTEXCEPT s A s' \<and>
    tlb_exc_handler X (entered s' t) = Stop (Resumed f) t' \<and>
    sem_calls X t' = sem_calls X t @ [(PASSEREN, addr_sp_sem X, 0, 0), (VERHOGEN, addr_sp_sem X, 0, 0)] \<and>
    t' = snd (SYSCALL X VERHOGEN (addr_sp_sem X) 0 0
      (t3\<lparr>calls := calls t3 @ [(VERHOGEN, addr_sp_sem X, 0, 0)]\<rparr>)) \<and>
    pool_ok X S t3 \<and> mapped X t3 k (sa, unat mpg) \<and> page_valid X t3 (sa, unat mpg) \<and>
    (\<forall>s4. act_proc s4 = Some a \<and> p_supportStruct (pcbs s4 a) = sa \<and> supports s4 = sups t3 \<and> states s4 BIOSDATAPAGE = f \<longrightarrow>
      uTLB_RefillHandler (kernel_plat X) s4 = Stop (Ldst f) (upd_hw (\<lambda>h. TLBWR (kernel_plat X)
        (setENTRYLO (kernel_plat X) (frame_addr k OR ENTRYLO_VALID X OR ENTRYLO_DIRTY X)
        (setENTRYHI (kernel_plat X) (pte_entryHI (pte_of t3 (sa, unat mpg))) h))) s4))"
proof -
  obtain s' where h: "handed_up X a PGFAULTEXCEPT s A s'" by (rule handed_up[OF run kind]) (use sa in simp_all)
  then have h': "running (kernel_plat X) a s' A" "p_supportStruct (pcbs s' a) = sa"
    "supports s' = supports (set_exceptState sa PGFAULTEXCEPT f s)" by (simp_all add: handed_up_def Let_def sa f)
  have es: "sup_exceptState (sups (entered s' t) sa) PGFAULTEXCEPT = f"
    using handed_up_state(1)[OF h] by (simp add: sa f)
  have ans: "answers_support X sa (entered s' t)"
    using support_answer[OF h'(1) U r ask[OF h]] h'(2) sa(2) by simp
  have inv: "pool_ok X S (entered s' t)" by (rule entered_pool[OF h'(3) pool])
  have exc': "CAUSE_GET_EXCCODE X (cause (sup_exceptState (sups (entered s' t) sa) PGFAULTEXCEPT)) \<noteq> EXC_MOD X"
    and pg': "page_index X (entry_hi (sup_exceptState (sups (entered s' t) sa) PGFAULTEXCEPT)) = mpg"
    unfolding es by (rule exc, rule pg(1))
  obtain t' k t3 where run': "tlb_exc_handler X (entered s' t) = Stop (Resumed (sup_exceptState (sups (entered s' t) sa) 0)) t'"
    and k: "sem_calls X t' = sem_calls X (entered s' t) @ [(PASSEREN, addr_sp_sem X, 0, 0), (VERHOGEN, addr_sp_sem X, 0, 0)]"
    "t' = snd (SYSCALL X VERHOGEN (addr_sp_sem X) 0 0 (t3\<lparr>calls := calls t3 @ [(VERHOGEN, addr_sp_sem X, 0, 0)]\<rparr>))"
    "pool_ok X S t3" "mapped X t3 k (sa, unat mpg)" "page_valid X t3 (sa, unat mpg)"
    by (rule tlb_exc_handler_served[OF env inv ans exc' pg' pg(2) ready])
  have ld: "sup_exceptState (sups (entered s' t) sa) 0 = f" using es by (simp add: PGFAULTEXCEPT_def)
  have lo: "pte_entryLO (pte_of t3 (sa, unat mpg)) = frame_addr k OR ENTRYLO_VALID X OR ENTRYLO_DIRTY X"
    using k(4) by (simp add: mapped_def)
  have "uTLB_RefillHandler (kernel_plat X) s4 = Stop (Ldst f) (upd_hw (\<lambda>h. TLBWR (kernel_plat X)
        (setENTRYLO (kernel_plat X) (frame_addr k OR ENTRYLO_VALID X OR ENTRYLO_DIRTY X)
        (setENTRYHI (kernel_plat X) (pte_entryHI (pte_of t3 (sa, unat mpg))) h))) s4)"
    if "act_proc s4 = Some a \<and> p_supportStruct (pcbs s4 a) = sa \<and> supports s4 = sups t3 \<and> states s4 BIOSDATAPAGE = f" for s4
    using refill_run[of s4 a sa X mpg] that sa(2) pg lo by (simp add: pte_of_def)
  then show ?thesis using h run' k unfolding ld sem_calls_entered by blast
qed

definition first_fault :: "cpu3 kst" where
  "first_fault = outside (\<lambda>_. 0) (\<lambda>_. zero_state\<lparr>cause := 8, pc_epc := 0x80000124\<rparr>) (\<lambda>_. one_support) (8, 0, 0) supported"

theorem page_fault_round_trip_witness:
  "\<exists>s' t'. handed_up (umps_sup 1) 0 PGFAULTEXCEPT first_fault main_abs s' \<and>
    tlb_exc_handler (umps_sup 1) (entered s' fresh) = Stop (Resumed (zero_state\<lparr>cause := 8, pc_epc := 0x80000124\<rparr>)) t' \<and>
    length (sem_calls (umps_sup 1) t') = 2"
proof -
  let ?X = "umps_sup 1" and ?f = "zero_state\<lparr>cause := 8, pc_epc := 0x80000124\<rparr>"
  have run: "running (kernel_plat ?X) 0 first_fault main_abs"
    unfolding kernel_plat_umps first_fault_def by (rule outside_running[OF supported(1)])
  have U: "layout_ok (kernel_plat ?X)" "reg_v0 ?X \<noteq> reg_t9 ?X" by (simp_all add: umps_layout)
  have f: "?f = states first_fault BIOSDATAPAGE" by (simp add: first_fault_def outside_def)
  have kind: "passed_kind (kernel_plat ?X) first_fault = Some PGFAULTEXCEPT"
    by (simp add: passed_kind_def first_fault_def outside_def umps_def zero_state_def)
  have c: "CAUSE_GET_EXCCODE ?X (cause ?f) \<noteq> EXC_MOD ?X" by (simp add: zero_state_def)
  have p: "page_index ?X (entry_hi ?f) = 0" "unat (0 :: u32) < USERPGTBLSIZE"
    by (simp_all add: page_index_def zero_state_def USERPGTBLSIZE_def STK_PG_def)
  have sa: "p_supportStruct (pcbs first_fault 0) = 0x20006000" "0x20006000 \<noteq> NULL"
    using supported(2) by (simp_all add: first_fault_def outside_def NULL_def)
  have pool: "sups fresh = supports first_fault" by (simp add: first_fault_def outside_def fresh_def)
  have ask: "answered_by_kernel ?X s' GETSUPPORTPTR (entered s' fresh)" if "handed_up ?X 0 PGFAULTEXCEPT first_fault main_abs s'" for s'
    by (rule umps_asked[OF that sa(1)])
  have dev: "\<forall>v. device_said ?X v \<longrightarrow> v = READY ?X" by (simp add: quiet_kernel(4))
  show ?thesis
    using page_fault_round_trip[OF run U f kind c p sa pool fresh_pool quiet_env ask quiet_kernel(3) dev]
    by (auto simp: sem_calls_def)
qed

section \<open>A system call\<close>




end
