(* ===== verification/Support_Spec.thy ===== *)
theory Support_Spec
  imports Support_Example
begin

text \<open>
  The properties of the utilities and of the support level, each with a witness on the platform of
  \<open>Support_Example\<close>.
\<close>

section \<open>Utilities\<close>

lemma digit_chars:
  "(char_of (49 :: nat) :: char) = CHR ''1''" "(char_of (50 :: nat) :: char) = CHR ''2''"
  "(char_of (51 :: nat) :: char) = CHR ''3''" "(char_of (52 :: nat) :: char) = CHR ''4''"
  "(char_of (54 :: nat) :: char) = CHR ''6''" "(char_of (55 :: nat) :: char) = CHR ''7''"
  "(char_of (56 :: nat) :: char) = CHR ''8''"
  by code_simp+

text \<open>
  C31. The debugging helper logs the name of a variable, a colon and the decimal numeral of its
  value, whatever the value, the smallest machine integer included, provided its four buffers do
  not overlap; the numeral is built in place, first backwards, and the concatenation goes on in
  the buffer of its first argument.
\<close>

theorem dbg_var_logs_numeral:
  assumes "- (2 ^ 31) \<le> x" and "x < 2 ^ 31" and "string_at m name s"
    and "name + length s < c \<or> c + 3 < name" and "name + length s < var_str \<or> var_str + 11 < name"
    and "name + length s < res \<or> res + length s + 15 \<le> name"
    and "c + 3 < var_str \<or> var_str + 11 < c" and "c + 3 < res \<or> res + length s + 15 \<le> c"
    and "var_str + 11 < res \<or> res + length s + 15 \<le> var_str"
  shows "\<exists>m'. dbg_var name x var_str res c m k = Some (m', log_msg [] (s @ '' : '' @ int_numeral x) k) \<and>
    string_at (itoa x var_str m) var_str (int_numeral x)"
  using dbg_var_run[OF assms] itoa_run(1)[OF assms(1,2)] by blast

theorem dbg_var_logs_numeral_witness:
  "\<forall>k. \<exists>m'. dbg_var 0 (- 2147483648) 200 300 100 ((\<lambda>_. CHR 0x00)(0 := CHR ''x'')) k =
     Some (m', log_msg [] ''x : -2147483648'' k)"
proof
  fix k
  have s: "string_at ((\<lambda>_. CHR 0x00)(0 := CHR ''x'')) 0 ''x''" by (simp add: string_at_Cons string_at_Nil)
  have "decimal 2147483648 = ''2147483648''" by (simp add: decimal.simps digit_chars)
  then have n: "int_numeral (- 2147483648) = ''-2147483648''" by (simp add: int_numeral_def)
  have x: "- (2 ^ 31) \<le> (- 2147483648 :: int)" "(- 2147483648 :: int) < 2 ^ 31" by simp_all
  have sep: "0 + length ''x'' < 100 \<or> 100 + 3 < (0 :: nat)" "0 + length ''x'' < 200 \<or> 200 + 11 < (0 :: nat)"
    "0 + length ''x'' < 300 \<or> 300 + length ''x'' + 15 \<le> (0 :: nat)" "100 + 3 < (200 :: nat) \<or> 200 + 11 < (100 :: nat)"
    "100 + 3 < (300 :: nat) \<or> 300 + length ''x'' + 15 \<le> 100" "200 + 11 < (300 :: nat) \<or> 300 + length ''x'' + 15 \<le> 200"
    by simp_all
  have "''x'' @ '' : '' @ ''-2147483648'' = ''x : -2147483648''" by simp
  then show "\<exists>m'. dbg_var 0 (- 2147483648) 200 300 100 ((\<lambda>_. CHR 0x00)(0 := CHR ''x'')) k =
     Some (m', log_msg [] ''x : -2147483648'' k)"
    using dbg_var_logs_numeral[OF x s sep, of k] unfolding n by metis
qed

section \<open>The pager\<close>

text \<open>
  C5. Isolation. Whatever the TLB handler does with a page fault, and whatever the other
  processes do during its system calls under their contract, the page tables and the swap pool
  still agree when it ends: no two valid pages of live processes are in the same frame. The
  handler ends by resuming the faulting process, by returning, or inside a call it never comes
  back from; it never panics.
\<close>

theorem page_fault_isolates:
  assumes "fault_env X S sa" and "pool_ok X S s" and "answers_support X sa s"
    and "unat (page_index X (entry_hi (sup_exceptState (sups s sa) PGFAULTEXCEPT))) < USERPGTBLSIZE"
  shows "pool_ok X S (out_st (tlb_exc_handler X s)) \<and>
    (\<forall>q\<in>S. \<forall>q'\<in>S. \<forall>p<USERPGTBLSIZE. \<forall>p'<USERPGTBLSIZE.
       let s' = out_st (tlb_exc_handler X s) in
       page_valid X s' (q, p) \<and> page_valid X s' (q', p') \<and>
       pte_entryLO (pte_of s' (q, p)) AND 0xFFFFF000 = pte_entryLO (pte_of s' (q', p')) AND 0xFFFFF000
       \<longrightarrow> (q, p) = (q', p')) \<and>
    (\<forall>w s'. tlb_exc_handler X s = Stop w s' \<longrightarrow> w = Gone \<or> w = Resumed (sup_exceptState (sups s sa) 0))"
proof -
  note h = tlb_exc_handler_pool[OF assms]
  have inv: "pool_ok X S (out_st (tlb_exc_handler X s))" using h by (auto split: out.splits)
  have "flags_ok X" using assms(1) by (simp add: fault_env_def)
  note ns = pool_no_sharing[OF inv this]
  have "w = Gone \<or> w = Resumed (sup_exceptState (sups s sa) 0)" if "tlb_exc_handler X s = Stop w s'" for w s'
    using h that by simp
  moreover have "\<forall>q\<in>S. \<forall>q'\<in>S. \<forall>p<USERPGTBLSIZE. \<forall>p'<USERPGTBLSIZE.
       let s' = out_st (tlb_exc_handler X s) in
       page_valid X s' (q, p) \<and> page_valid X s' (q', p') \<and>
       pte_entryLO (pte_of s' (q, p)) AND 0xFFFFF000 = pte_entryLO (pte_of s' (q', p')) AND 0xFFFFF000
       \<longrightarrow> (q, p) = (q', p')"
    unfolding Let_def by (intro ballI allI impI, elim conjE, rule ns)
  ultimately show ?thesis using inv by blast
qed

theorem page_fault_isolates_witness:
  "pool_ok (umps_sup 1) {0x20006000} (out_st (tlb_exc_handler (umps_sup 1) fresh))"
proof -
  have "unat (page_index (umps_sup 1) (entry_hi (sup_exceptState (sups fresh 0x20006000) PGFAULTEXCEPT))) < USERPGTBLSIZE"
    by (simp add: page_index_def zero_state_def USERPGTBLSIZE_def STK_PG_def)
  then show ?thesis using page_fault_isolates[OF quiet_env fresh_pool quiet_support] by blast
qed

text \<open>
  C35. When the flash device cannot read the page, the handler logs the error and returns without
  giving the mutex of the swap pool back: the last call on it stays its P, so every later page
  fault of any process waits for ever.
\<close>

theorem read_error_keeps_mutex:
  assumes "fault_env X S sa" and "pool_ok X S s" and "answers_support X sa s"
    and "CAUSE_GET_EXCCODE X (cause (sup_exceptState (sups s sa) PGFAULTEXCEPT)) \<noteq> EXC_MOD X"
    and "page_index X (entry_hi (sup_exceptState (sups s sa) PGFAULTEXCEPT)) = mpg" and "unat mpg < USERPGTBLSIZE"
    and "\<not> stuck X" and "\<not> device_said X (READY X)"
  shows "\<exists>s'. tlb_exc_handler X s = Ret () s' \<and> pool_ok X S s' \<and> holding X s' \<and>
    sem_calls X s' = sem_calls X s @ [(PASSEREN, addr_sp_sem X, 0, 0)]"
proof -
  note h = tlb_exc_handler_serves[OF assms(1-3) refl assms(4,5,6) refl]
  show ?thesis
  proof (cases "tlb_exc_handler X s")
    case (Ret u s')
    then show ?thesis using h by (simp add: read_failed_def holding_def)
  next
    case (Stop w s')
    then show ?thesis using h assms(7,8) by (simp add: lost_def fault_served_def)
  qed
qed

theorem read_error_keeps_mutex_witness:
  "\<exists>s'. tlb_exc_handler (umps_sup 4) fresh = Ret () s' \<and> holding (umps_sup 4) s'"
proof -
  have c: "CAUSE_GET_EXCCODE (umps_sup 4) (cause (sup_exceptState (sups fresh 0x20006000) PGFAULTEXCEPT)) \<noteq> EXC_MOD (umps_sup 4)"
    by (simp add: zero_state_def)
  have p: "page_index (umps_sup 4) (entry_hi (sup_exceptState (sups fresh 0x20006000) PGFAULTEXCEPT)) = 0" "unat (0 :: u32) < USERPGTBLSIZE"
    by (simp_all add: page_index_def zero_state_def USERPGTBLSIZE_def STK_PG_def)
  have "\<not> device_said (umps_sup 4) (READY (umps_sup 4))" by (simp add: quiet_kernel(4))
  from read_error_keeps_mutex[OF quiet_env fresh_pool quiet_support c p quiet_kernel(3) this] show ?thesis by blast
qed



text \<open>
  C21. The replacement is the reference one, round robin from the frame taken last: the first free
  frame in that order, or the frame after the last one when none is free; it remembers its choice
  and touches nothing else.
\<close>

theorem choose_frame_round_robin:
  "choose_frame s = (let k = of_nat (case find (\<lambda>k. e_asid (sp_tbl s k) = -1) (rotate (unat (frame_top s)) [0..<16]) of
      Some j \<Rightarrow> j | None \<Rightarrow> Suc (unat (frame_top s)) mod 16) in (k, s\<lparr>frame_top := k\<rparr>))"
proof -
  have "SP_SIZE = 16" by (simp add: SP_SIZE_def UPROCMAX_def)
  moreover have "frame_free s = (\<lambda>k. e_asid (sp_tbl s k) = -1)" by (simp add: frame_free_def fun_eq_iff)
  ultimately show ?thesis using choose_frame_order[of s] unfolding frame_order_def by (simp only:)
qed

section \<open>System calls of the support level\<close>



section \<open>The first process\<close>



end
