(* ===== verification/Kernel_Passes.thy ===== *)
theory Kernel_Passes
  imports Kernel_Runs
begin

text \<open>
  More whole passes through the kernel: the requests that create and end processes, start a device,
  take a free semaphore or give the processor away, and the interrupts of the devices and of the
  pseudo-clock, each from the exception to the processor state it loads.
\<close>

section \<open>Requests\<close>

lemma save_state_waiting:
  assumes "running U a s A"
  shows "waiting (save_state s) A j = waiting s A j"
  by (rule waiting_cong) (simp_all add: save_state_running(1)[OF assms])

lemma save_state_sel:
  assumes "running U a s A"
  shows "mem (save_state s) = mem s" "states (save_state s) = states s" "supports (save_state s) = supports s"
    "p_prio (pcbs (save_state s) p) = p_prio (pcbs s p)" "p_parent (pcbs (save_state s) p) = p_parent (pcbs s p)"
    "p_s (pcbs (save_state s) a) = states s BIOSDATAPAGE" "p \<noteq> a \<Longrightarrow> pcbs (save_state s) p = pcbs s p"
    "hw (save_state s) = hw s"
  by (simp_all add: save_state_running(1)[OF assms])

text \<open>Creating a process: the caller goes on with the PID of the new one.\<close>

lemma create_pass:
  assumes run: "running U a s A" and U: "layout_ok U" and req: "sys_request U s CREATEPROCESS"
    and args: "statep = gpr (states s BIOSDATAPAGE) (reg_a1 U)" "prio = gpr (states s BIOSDATAPAGE) (reg_a2 U)"
      "supportp = gpr (states s BIOSDATAPAGE) (reg_a3 U)"
    and f: "a_free A = p # ps"
  obtains s' where "exception_handler U s = Stop (Ldst ((answered U (pcb_addr U p) (states s BIOSDATAPAGE))
        \<lparr>status := loaded_status U ((pcbs s a)\<lparr>p_s := states s BIOSDATAPAGE\<rparr>)\<rparr>)) s'"
    and "running U a s' (a_create prio a p A)" and "pcbs s' p = new_pcb U s a statep prio supportp p"
    and "\<And>q. q \<noteq> a \<Longrightarrow> q \<noteq> p \<Longrightarrow> pcbs s' q = pcbs s q" and "mem s' = mem s"
    and "\<And>j. waiting s' (a_create prio a p A) j = waiting s A j"
proof -
  note sv = save_state_running[OF run]
  note R = runningD[OF sv(2)]
  have ne: "a \<noteq> p" using pcbs_wf_free_alive[OF krepD(1)[OF R(2)]] R(6) f by auto
  obtain s1 where m: "mk_proc U statep prio supportp (save_state s) = Ret (Some p) s1" "kinv U s1 (a_create prio a p A)"
    "same_user (save_state s) s1" "s_key s1 = s_key (save_state s)"
    "pcbs s1 = (pcbs (save_state s))(p := new_pcb U (save_state s) a statep prio supportp p)"
    by (rule mk_proc_kinv[OF R(1,3,6) f])
  let ?s1 = "upd_reg a (reg_v0 U) (pcb_addr U p) s1"
  have hs: "handle_syscall U (save_state s) = Ret CONTINUE ?s1"
    using m(3,5) R(3) unfolding handle_syscall_dispatch[OF run U req]
    by (simp add: Let_def syscall_numbers args[symmetric] create_process_def kbind_def m(1) with_act_def same_user_def new_pcb_def)
  have run1: "running U a ?s1 (a_create prio a p A)"
    using upd_reg_kinv[OF m(2)] m(3) R(3,4,5) by (simp add: running_def same_user_def a_create_def a_enq_def)
  have neg: "CREATEPROCESS < 0" by (simp add: syscall_numbers)
  have ls: "loaded_status U (pcbs ?s1 a) = loaded_status U ((pcbs s a)\<lparr>p_s := states s BIOSDATAPAGE\<rparr>)"
    and st: "past U (p_s (pcbs ?s1 a)) = answered U (pcb_addr U p) (states s BIOSDATAPAGE)"
    using ne by (simp_all add: m(5) sv(1) loaded_status_def set_reg_def answered_def)
  obtain s' where s': "exception_handler U s = Stop (Ldst ((past U (p_s (pcbs ?s1 a)))\<lparr>status := loaded_status U (pcbs ?s1 a)\<rparr>)) s'"
    "running U a s' (a_create prio a p A)" "mem s' = mem ?s1" "s_key s' = s_key ?s1" "\<And>q. q \<noteq> a \<Longrightarrow> pcbs s' q = pcbs ?s1 q"
    by (rule continue_request[OF run req neg hs run1]) blast
  have "waiting s' (a_create prio a p A) j = waiting s A j" for j
    by (rule waiting_cong) (use s'(4) m(4) sv(1) in \<open>simp_all add: a_create_def upd_reg_def\<close>)
  then show thesis
    using s'(3,5) m(3,5) ne by (intro that[OF s'(1)[unfolded ls st] s'(2)])
      (simp_all add: sv(1) same_user_def upd_reg_def new_pcb_def)
qed

text \<open>With no free PCB the caller is left behind: it is alive and in no queue.\<close>

lemma create_lost_pass:
  assumes run: "running U a s A" and U: "layout_ok U" and req: "sys_request U s CREATEPROCESS"
    and f: "a_free A = []" and q: "a_hq A @ a_lq A = b # bs"
  obtains s' A' where "gave_way U s a (save_state s) A b bs s' A'"
proof -
  note sv = save_state_running[OF run]
  note R = runningD[OF sv(2)]
  have hs: "handle_syscall U (save_state s) = Ret (-1) (save_state s)"
    unfolding handle_syscall_dispatch[OF run U req]
    by (simp add: Let_def syscall_numbers create_process_def kbind_def mk_proc_none[OF R(2) f] kreturn_def)
  have neg: "CREATEPROCESS < 0" and other: "(-1 :: int) \<noteq> CONTINUE" "(-1 :: int) \<noteq> RENQUEUE"
    by (simp_all add: syscall_numbers eh_act_defs)
  show thesis by (rule leave_request[OF run U req neg hs other R(1,3,4) q that])
qed

text \<open>A process that gives way without having been blocked or enqueued is in no queue afterwards.\<close>

definition left_behind :: "nat \<Rightarrow> 'h kst \<Rightarrow> kabs \<Rightarrow> bool" where
  "left_behind a s A \<longleftrightarrow> a \<in> set (a_alive A) \<and> a \<notin> set (a_hq A) \<and> a \<notin> set (a_lq A) \<and>
     (\<forall>j. a \<notin> set (waiting s A j)) \<and> act_proc s \<noteq> Some a"

lemma gave_way_left:
  assumes run: "running U a s1 A1" and q: "a_hq A1 @ a_lq A1 = b # bs" and g: "gave_way U s a s1 A1 b bs s' A'"
  shows "left_behind a s' A'"
proof -
  note R = runningD[OF run]
  note e = det_not_elsewhere[OF krepD(1)[OF R(2)] R(5)]
  have nq: "a \<notin> set (b # bs)" using e(2,3) by (simp flip: q)
  have "a \<notin> set (waiting s1 A1 j)" for j using waiting_blocked(1)[OF krepD(4)[OF R(2)], of a j] e(4) by blast
  moreover have "a \<notin> set (a_hq A' @ a_lq A')" using g nq by (simp add: gave_way_def)
  moreover have "act_proc s' = Some b" using g by (simp add: gave_way_def running_def)
  ultimately show ?thesis using g nq R(6) unfolding left_behind_def gave_way_def by auto
qed

text \<open>Ending a process: its family dies, and the caller goes to the end of its queue if it survives.\<close>

lemma term_pass:
  assumes run: "running U a s A" and U: "layout_ok U" and req: "sys_request U s TERMPROCESS"
    and pid: "pid = gpr (states s BIOSDATAPAGE) (reg_a1 U)"
    and target: "(if pid = 0 then Some a else search_by_pid U pid) = Some p" "p \<in> set (a_alive A)"
    and D: "D = descendants s A p"
    and q: "(filter (\<lambda>x. x \<notin> D) (a_hq A) @ (if a \<in> D then [] else at_prio PROCESS_PRIO_HIGH s a)) @
      (filter (\<lambda>x. x \<notin> D) (a_lq A) @ (if a \<in> D then [] else at_prio PROCESS_PRIO_LOW s a)) = b # bs"
  obtains s1 A1 s' A' where "kinv U s1 A1" and "killed D (save_state s) A s1 A1" and "gave_way U s a s1 A1 b bs s' A'"
proof -
  note sv = save_state_running[OF run]
  note R = runningD[OF sv(2)]
  have D': "descendants (save_state s) A p = D" unfolding D by (rule descendants_cong) (simp add: sv(1))
  have t: "(if pid = 0 then act_proc (save_state s) else search_by_pid U pid) = Some p"
    using target(1) R(3) by (cases "pid = 0") simp_all
  obtain s1 A1 where s1: "term_process U pid (save_state s) = Ret (if a \<in> D then NOTHING else RENQUEUE) s1" "kinv U s1 A1"
    "killed D (save_state s) A s1 A1"
    by (rule term_process_run[OF sv(2) U t target(2)]) (unfold D', blast)
  have hs: "handle_syscall U (save_state s) = Ret (if a \<in> D then NOTHING else RENQUEUE) s1"
    unfolding handle_syscall_dispatch[OF run U req] by (simp add: Let_def syscall_numbers pid[symmetric] s1(1))
  have act: "act_proc s1 = Some a" "yielded_proc s1 = None" using s1(3) R(3,4) by (simp_all add: killed_def same_user_def)
  have neg: "TERMPROCESS < 0" by (simp add: syscall_numbers)
  show thesis
  proof (cases "a \<in> D")
    case True
    have q1: "a_hq A1 @ a_lq A1 = b # bs" using s1(3) q True by (simp add: killed_def)
    have hs': "handle_syscall U (save_state s) = Ret NOTHING s1" using hs True by simp
    show thesis
      by (rule leave_request[OF run U req neg hs' nothing_is_other s1(2) act q1]) (rule that[OF s1(2,3)])
  next
    case False
    have a: "a \<in> set (a_det A1)" and pa: "pcbs s1 a = pcbs (save_state s) a" using s1(3) R(5) False by (simp_all add: killed_def)
    have "at_prio pr s1 a = at_prio pr s a" for pr by (simp add: at_prio_def pa save_state_sel[OF run])
    then have q1: "(a_hq A1 @ at_prio PROCESS_PRIO_HIGH s1 a) @ (a_lq A1 @ at_prio PROCESS_PRIO_LOW s1 a) = b # bs"
      using s1(3) q False by (simp add: killed_def)
    have hs': "handle_syscall U (save_state s) = Ret RENQUEUE s1" using hs False by simp
    show thesis
      by (rule requeue_request[OF run U req neg hs' s1(2) act a q1]) (rule that[OF s1(2,3)])
  qed
qed

text \<open>A device request: the caller waits on the semaphore of the device, and the command is written.\<close>

lemma io_pass:
  assumes run: "running U a s A" and U: "layout_ok U" and req: "sys_request U s DOIO"
    and cmd: "cmd = gpr (states s BIOSDATAPAGE) (reg_a1 U)" "val = gpr (states s BIOSDATAPAGE) (reg_a2 U)" "cmd \<noteq> 0" "cmd \<noteq> NULL"
    and sem: "io_sem U cmd = Some sem" "sem \<noteq> NULL" and m: "mem s sem = 0" and q: "a_hq A @ a_lq A = b # bs"
  obtains s' A' where "exception_handler U s = Stop (Ldst (p_s (pcbs s' b))) s'" and "running U b s' A'"
    and "\<And>j. waiting s' A' j = (if j = sem then waiting s A sem @ [a] else waiting s A j)"
    and "a_hq A' @ a_lq A' = bs" and "p_s (pcbs s' a) = past U (states s BIOSDATAPAGE)"
    and "p_s (pcbs s' b) = loaded_state U (pcbs s b)" and "mem s' = (mem s)(cmd := val)"
    and "\<And>p. p_prio (pcbs s' p) = p_prio (pcbs s p)"
proof -
  note sv = save_state_running[OF run]
  note R = runningD[OF sv(2)]
  have m': "mem (save_state s) sem = 0" using m by (simp add: sv(1))
  obtain s0 A1 where s0: "passeren sem (save_state s) = Ret NOTHING s0" "kinv U s0 A1" "blocked_on sem a (save_state s) A s0 A1"
    by (rule passeren_blocks[OF R(1,3,5) sem(2) m'])
  have "store_mem cmd val s0 = s0\<lparr>mem := (mem s)(cmd := val)\<rparr>"
    using s0(3) by (simp add: store_mem_def blocked_on_def same_user_def sv(1))
  then have hs: "handle_syscall U (save_state s) = Ret NOTHING (s0\<lparr>mem := (mem s)(cmd := val)\<rparr>)"
    unfolding handle_syscall_dispatch[OF run U req]
    using cmd(3,4) by (simp add: Let_def syscall_numbers cmd(1,2)[symmetric] do_io_def sem(1) kseq_def kbind_def kmodify_def kreturn_def s0(1))
  have neg: "DOIO < 0" by (simp add: syscall_numbers)
  show thesis by (rule block_request[OF run U req neg hs s0(2,3) q that])
qed

text \<open>A request to wait for the pseudo-clock.\<close>

lemma clock_wait_pass:
  assumes run: "running U a s A" and U: "layout_ok U" and req: "sys_request U s CLOCKWAIT"
    and m: "mem s (addr_sem_it U) = 0" and nn: "addr_sem_it U \<noteq> NULL" and q: "a_hq A @ a_lq A = b # bs"
  obtains s' A' where "exception_handler U s = Stop (Ldst (p_s (pcbs s' b))) s'" and "running U b s' A'"
    and "\<And>j. waiting s' A' j = (if j = addr_sem_it U then waiting s A (addr_sem_it U) @ [a] else waiting s A j)"
    and "a_hq A' @ a_lq A' = bs" and "p_s (pcbs s' a) = past U (states s BIOSDATAPAGE)"
    and "p_s (pcbs s' b) = loaded_state U (pcbs s b)" and "mem s' = mem s"
    and "\<And>p. p_prio (pcbs s' p) = p_prio (pcbs s p)"
proof -
  note sv = save_state_running[OF run]
  note R = runningD[OF sv(2)]
  have m': "mem (save_state s) (addr_sem_it U) = 0" using m by (simp add: sv(1))
  obtain s0 A1 where s0: "passeren (addr_sem_it U) (save_state s) = Ret NOTHING s0" "kinv U s0 A1"
    "blocked_on (addr_sem_it U) a (save_state s) A s0 A1" by (rule passeren_blocks[OF R(1,3,5) nn m'])
  have "s0 = s0\<lparr>mem := mem s\<rparr>" using s0(3) by (simp add: blocked_on_def same_user_def sv(1))
  then have hs: "handle_syscall U (save_state s) = Ret NOTHING (s0\<lparr>mem := mem s\<rparr>)"
    unfolding handle_syscall_dispatch[OF run U req] by (simp add: Let_def syscall_numbers wait_for_clock_def s0(1))
  have neg: "CLOCKWAIT < 0" by (simp add: syscall_numbers)
  show thesis by (rule block_request[OF run U req neg hs s0(2,3) q that])
qed

text \<open>With the semaphore taken by nobody the caller is not blocked, and is left behind.\<close>

lemma io_lost_pass:
  assumes run: "running U a s A" and U: "layout_ok U" and req: "sys_request U s DOIO"
    and cmd: "cmd = gpr (states s BIOSDATAPAGE) (reg_a1 U)" "val = gpr (states s BIOSDATAPAGE) (reg_a2 U)" "cmd \<noteq> 0" "cmd \<noteq> NULL"
    and sem: "io_sem U cmd = Some sem" and m: "mem s sem \<noteq> 0" and w: "waiting s A sem = []" and q: "a_hq A @ a_lq A = b # bs"
  obtains s' A' where "gave_way U s a (store_mem cmd val (store_mem sem 0 (save_state s))) A b bs s' A'"
proof -
  note sv = save_state_running[OF run]
  note R = runningD[OF sv(2)]
  let ?s1 = "store_mem cmd val (store_mem sem 0 (save_state s))"
  have m': "mem (save_state s) sem \<noteq> 0" and w': "waiting (save_state s) A sem = []"
    using m w by (simp_all add: sv(1) flip: save_state_waiting[OF run])
  have hs: "handle_syscall U (save_state s) = Ret NOTHING ?s1"
    unfolding handle_syscall_dispatch[OF run U req] using cmd(3,4) passeren_passes(1)[OF R(1) m' w']
    by (simp add: Let_def syscall_numbers cmd(1,2)[symmetric] do_io_def sem kseq_def kbind_def kmodify_def kreturn_def)
  have k1: "kinv U ?s1 A" by (rule store_mem_kinv[OF store_mem_kinv[OF R(1)]])
  have neg: "DOIO < 0" by (simp add: syscall_numbers)
  have act: "act_proc ?s1 = Some a" "yielded_proc ?s1 = None" using R by simp_all
  show thesis by (rule leave_request[OF run U req neg hs nothing_is_other k1 act q that])
qed

text \<open>A P on a semaphore that is 1: the caller takes it, and goes to the end of its queue.\<close>

lemma p_open_pass:
  assumes run: "running U a s A" and U: "layout_ok U" and req: "sys_request U s PASSEREN"
    and k: "k = gpr (states s BIOSDATAPAGE) (reg_a1 U)" "mem s k = 1" and w: "waiting s A k = []"
    and q: "(a_hq A @ at_prio PROCESS_PRIO_HIGH s a) @ (a_lq A @ at_prio PROCESS_PRIO_LOW s a) = b # bs"
  obtains s' A' where "gave_way U s a (store_mem k 0 (save_state s)) A b bs s' A'"
proof -
  note sv = save_state_running[OF run]
  note R = runningD[OF sv(2)]
  let ?s1 = "store_mem k 0 (save_state s)"
  have m: "mem (save_state s) k = 1" "mem (save_state s) k \<noteq> 0" using k(2) by (simp_all add: sv(1))
  have w': "waiting (save_state s) A k = []" using w by (simp add: save_state_waiting[OF run])
  have hs: "handle_syscall U (save_state s) = Ret RENQUEUE ?s1"
    unfolding handle_syscall_dispatch[OF run U req]
    by (simp add: Let_def syscall_numbers k(1)[symmetric] check_sem_pass[OF sv(2) U disjI2[OF m(1)]]
        passeren_passes(1)[OF R(1) m(2) w'])
  have k1: "kinv U ?s1 A" by (rule store_mem_kinv[OF R(1)])
  have neg: "PASSEREN < 0" by (simp add: syscall_numbers)
  have act: "act_proc ?s1 = Some a" "yielded_proc ?s1 = None" using R by simp_all
  have "at_prio pr ?s1 a = at_prio pr s a" for pr by (simp add: at_prio_def sv(1))
  then have q1: "(a_hq A @ at_prio PROCESS_PRIO_HIGH ?s1 a) @ (a_lq A @ at_prio PROCESS_PRIO_LOW ?s1 a) = b # bs"
    using q by simp
  show thesis by (rule requeue_request[OF run U req neg hs k1 act R(5) q1 that])
qed

text \<open>With waiters the first of them is woken and the semaphore keeps its value.\<close>

lemma p_wakes_pass:
  assumes run: "running U a s A" and U: "layout_ok U" and req: "sys_request U s PASSEREN"
    and k: "k = gpr (states s BIOSDATAPAGE) (reg_a1 U)" "mem s k = 1" and w: "waiting s A k = t # ts"
    and q: "(a_hq A @ at_prio PROCESS_PRIO_HIGH s t @ at_prio PROCESS_PRIO_HIGH s a) @
      (a_lq A @ at_prio PROCESS_PRIO_LOW s t @ at_prio PROCESS_PRIO_LOW s a) = b # bs"
  obtains s' A' where "exception_handler U s = Stop (Ldst (p_s (pcbs s' b))) s'" and "running U b s' A'"
    and "\<And>j. waiting s' A' j = (if j = k then ts else waiting s A j)" and "a_hq A' @ a_lq A' = bs"
    and "p_s (pcbs s' b) = loaded_state U (if b = a then (pcbs s a)\<lparr>p_s := past U (states s BIOSDATAPAGE)\<rparr> else pcbs s b)"
    and "\<And>p. p \<noteq> b \<Longrightarrow> p_s (pcbs s' p) = (if p = a then past U (states s BIOSDATAPAGE) else p_s (pcbs s p))"
    and "mem s' = mem s"
proof -
  note sv = save_state_running[OF run]
  have m: "mem (save_state s) k = 1" "mem (save_state s) k \<noteq> 0" using k(2) by (simp_all add: sv(1))
  have ws: "waiting (save_state s) A k = t # ts" using w by (simp add: save_state_waiting[OF run])
  obtain s1 A1 where s1: "passeren k (save_state s) = Ret RENQUEUE s1" "kinv U s1 A1" "woken k t (save_state s) A s1 A1"
    using passeren_passes(2)[OF runningD(1)[OF sv(2)] m(2) ws] by blast
  have hs: "handle_syscall U (save_state s) = Ret RENQUEUE s1"
    unfolding handle_syscall_dispatch[OF run U req]
    by (simp add: Let_def syscall_numbers k(1)[symmetric] check_sem_pass[OF sv(2) U disjI2[OF m(1)]] s1(1))
  have neg: "PASSEREN < 0" by (simp add: syscall_numbers)
  show thesis by (rule wake_request[OF run U req neg w hs s1(2,3) q that])
qed

text \<open>
  Giving the processor away: the next process runs and the caller goes to the end of its queue. The
  choice is made before the caller is in its queue, so without another process the machine waits or
  panics.
\<close>

lemma yield_request_run:
  assumes run: "running U a s A" and U: "layout_ok U" and req: "sys_request U s YIELD"
  obtains s1 where "exception_handler U s = scheduler_next U s1" and "kinv U s1 A" and "yielded_proc s1 = Some a"
    and "p_s (pcbs s1 a) = past U (states s BIOSDATAPAGE)" and "mem s1 = mem s" and "s_key s1 = s_key s"
    and "\<And>p. p_prio (pcbs s1 p) = p_prio (pcbs s p)" and "\<And>p. p \<noteq> a \<Longrightarrow> pcbs s1 p = pcbs s p"
proof -
  note sv = save_state_running[OF run]
  note R = runningD[OF sv(2)]
  let ?s0 = "set_yielded (Some a) (save_state s)"
  have hs: "handle_syscall U (save_state s) = Ret NOTHING ?s0"
    unfolding handle_syscall_dispatch[OF run U req] by (simp add: Let_def syscall_numbers yield_def R(3))
  have k0: "kinv U ?s0 A" by (rule kinv_cong[OF R(1)]) simp_all
  have act: "act_proc ?s0 = Some a" using R(3) by simp
  note bp = bump_pc_run[OF act k0]
  obtain s1 where s1: "update_age U (bump_pc U ?s0) = Ret () s1" "kinv U s1 A" "act_proc s1 = Some a"
    "yielded_proc s1 = yielded_proc (bump_pc U ?s0)"
    "pcbs s1 = (pcbs (bump_pc U ?s0))(a := aged U (bump_pc U ?s0) (pcbs (bump_pc U ?s0) a))"
    "s_key s1 = s_key (bump_pc U ?s0)" "mem s1 = mem (bump_pc U ?s0)"
    by (rule update_age_step[OF bp(1,2)])
  have neg: "YIELD < 0" by (simp add: syscall_numbers)
  have "resume U NOTHING s1 = Ret () s1" by (simp add: resume_def s1(3) eh_act_defs)
  then have "exception_handler U s = scheduler_next U s1"
    unfolding request_pass[OF run req neg hs] by (simp add: kseq_def kbind_def s1(1))
  then show thesis
    by (rule that[OF _ s1(2)]) (simp_all add: s1(4-7) bp(3,4,6,8), simp_all add: sv(1))
qed

lemma yield_pass:
  assumes run: "running U a s A" and U: "layout_ok U" and req: "sys_request U s YIELD" and q: "a_hq A @ a_lq A = b # bs"
  obtains s' A' where "exception_handler U s = Stop (Ldst (p_s (pcbs s' b))) s'" and "running U b s' A'"
    and "a_hq A' = remove1 b (a_hq A) @ at_prio PROCESS_PRIO_HIGH s a"
    and "a_lq A' = remove1 b (a_lq A) @ at_prio PROCESS_PRIO_LOW s a"
    and "p_s (pcbs s' a) = past U (states s BIOSDATAPAGE)" and "p_s (pcbs s' b) = loaded_state U (pcbs s b)"
    and "mem s' = mem s" and "\<And>j. waiting s' A' j = waiting s A j"
proof -
  obtain s1 where s1: "exception_handler U s = scheduler_next U s1" "kinv U s1 A" "yielded_proc s1 = Some a"
    "p_s (pcbs s1 a) = past U (states s BIOSDATAPAGE)" "mem s1 = mem s" "s_key s1 = s_key s"
    "\<And>p. p_prio (pcbs s1 p) = p_prio (pcbs s p)" "\<And>p. p \<noteq> a \<Longrightarrow> pcbs s1 p = pcbs s p"
    by (rule yield_request_run[OF run U req]) blast
  have "yielded_ok s1 A" using runningD(5)[OF run] by (simp add: yielded_ok_def s1(3))
  then obtain s' where s': "scheduler_next U s1 = Stop (Ldst (p_s (loaded_pcb U s1 (pcbs s1 b)))) s'" "dispatched U b s1 A s'"
    by (rule scheduler_next_ready[OF s1(2) _ U q])
  have ne: "b \<noteq> a" by (rule ready_not_running[OF run q])
  have A': "a_requeue s1 (a_deq b A) = a_enq (p_prio (pcbs s a)) a (a_deq b A)" by (simp add: a_requeue_def s1(3,7))
  have pc: "pcbs s' = (pcbs s1)(b := loaded_pcb U s1 (pcbs s1 b))" using s'(2) by (simp add: dispatched_def)
  have w: "waiting s' (a_requeue s1 (a_deq b A)) j = waiting s A j" for j
    by (rule waiting_cong) (use s'(2) s1(6) in \<open>simp_all add: dispatched_def A'\<close>)
  show thesis
  proof (rule that[OF _ _ _ _ _ _ _ w])
    show "exception_handler U s = Stop (Ldst (p_s (pcbs s' b))) s'" by (simp add: s1(1) s'(1) pc)
    show "running U b s' (a_requeue s1 (a_deq b A))" "mem s' = mem s" using s'(2) s1(5) by (simp_all add: dispatched_def)
    show "a_hq (a_requeue s1 (a_deq b A)) = remove1 b (a_hq A) @ at_prio PROCESS_PRIO_HIGH s a"
      "a_lq (a_requeue s1 (a_deq b A)) = remove1 b (a_lq A) @ at_prio PROCESS_PRIO_LOW s a"
      unfolding A' a_enq_queues by (simp_all add: at_prio_def)
    show "p_s (pcbs s' a) = past U (states s BIOSDATAPAGE)" using ne by (simp add: pc s1(4))
    show "p_s (pcbs s' b) = loaded_state U (pcbs s b)" using s1(8)[OF ne] by (simp add: pc loaded_pcb_def loaded_state_def)
  qed
qed

lemma lone_yield_pass:
  assumes run: "running U a s A" and U: "layout_ok U" and req: "sys_request U s YIELD" and q: "a_hq A = []" "a_lq A = []"
  shows "a_blocked A = [] \<Longrightarrow> out_why (exception_handler U s) = Panic"
    and "a_blocked A \<noteq> [] \<Longrightarrow> \<exists>s' A'. exception_handler U s = Stop Wait s' \<and> idle U s' A' \<and>
      a_hq A' = at_prio PROCESS_PRIO_HIGH s a \<and> a_lq A' = at_prio PROCESS_PRIO_LOW s a"
proof -
  obtain s1 where s1: "exception_handler U s = scheduler_next U s1" "kinv U s1 A" "yielded_proc s1 = Some a"
    "\<And>p. p_prio (pcbs s1 p) = p_prio (pcbs s p)"
    by (rule yield_request_run[OF run U req]) blast
  have y: "yielded_ok s1 A" using runningD(5)[OF run] by (simp add: yielded_ok_def s1(3))
  note i = scheduler_next_idle[OF s1(2) y q]
  have "a_alive A \<noteq> []" using runningD(6)[OF run] by auto
  then show "out_why (exception_handler U s) = Panic" if "a_blocked A = []" using i(2)[OF _ that] by (simp add: s1(1))
  have A': "a_requeue s1 A = a_enq (p_prio (pcbs s a)) a A" by (simp add: a_requeue_def s1(3,4))
  show "\<exists>s' A'. exception_handler U s = Stop Wait s' \<and> idle U s' A' \<and>
      a_hq A' = at_prio PROCESS_PRIO_HIGH s a \<and> a_lq A' = at_prio PROCESS_PRIO_LOW s a" if "a_blocked A \<noteq> []"
    using i(3)[OF that] unfolding A' idle_def s1(1)
    by (auto simp: a_enq_queues q at_prio_def intro!: exI[of _ "a_enq (p_prio (pcbs s a)) a A"])
qed

section \<open>Interrupts\<close>

text \<open>Where the kernel reads the status of the device an interrupt is from, and where it writes the acknowledgement.\<close>

definition irq_regs :: "'h plat \<Rightarrow> 'h kst \<Rightarrow> nat \<Rightarrow> u32 \<times> u32" where
  "irq_regs U s line =
     (let reg = devreg U (line - IL_DISK U) (irq_index U s line)
      in if line \<in> {IL_DISK U, IL_FLASH U, IL_ETHERNET U, IL_PRINTER U} then (reg + off_dtp_status U, reg + off_dtp_command U)
         else if mem s (reg + off_transm_status U) AND TERMSTATMASK = OKCHARTRANS
         then (reg + off_transm_status U, reg + off_transm_command U)
         else (reg + off_recv_status U, reg + off_recv_command U))"

definition irq_pending :: "'h plat \<Rightarrow> 'h kst \<Rightarrow> nat \<Rightarrow> bool" where
  "irq_pending U s line \<longleftrightarrow>
     CAUSE_GET_EXCCODE U (cause (states s BIOSDATAPAGE)) = EXC_INT U \<and> pending_line U s = Some line"

lemma generic_interrupt_run:
  assumes "line = IL_DISK U + k" and "irq_index U s line < DEVPERINT U" and "verhogen (base + 4 * of_nat (irq_index U s line)) s = Ret p s1"
    and "mem s1 (devreg U k (irq_index U s line) + off_dtp_status U) = mem s (devreg U k (irq_index U s line) + off_dtp_status U)"
  shows "generic_interrupt_handler U k base s = Ret ()
    (store_mem (devreg U k (irq_index U s line) + off_dtp_command U) 1
      (give_status U p (mem s (devreg U k (irq_index U s line) + off_dtp_status U)) s1))"
  using assms unfolding generic_interrupt_handler_def irq_index_def[symmetric] Let_def
  by (simp add: kseq_def kbind_def check_index_def kreturn_def)

text \<open>The interrupt of a device is a V on its semaphore, whose answer gets the status.\<close>

lemma device_interrupt_run:
  assumes lines: "lines_ok U" and sem: "irq_sem U s line = Some sem" and idx: "irq_index U s line < DEVPERINT U"
    and v: "verhogen sem s = Ret p s1" and m: "mem s1 (fst (irq_regs U s line)) = mem s (fst (irq_regs U s line))"
  shows "handle_interrupts U line s =
    Ret CONTINUE (store_mem (snd (irq_regs U s line)) 1 (give_status U p (mem s (fst (irq_regs U s line))) s1))"
proof -
  obtain base where base: "irq_base U s line = Some base" "sem = base + 4 * of_nat (irq_index U s line)"
    using sem by (auto simp: irq_sem_def)
  have no: "line \<noteq> IL_IPI U" "line \<noteq> IL_CPUTIMER U" "line \<noteq> IL_TIMER U" using base(1) by (auto simp: irq_base_def)
  have gen: "generic_interrupt_handler U (line - IL_DISK U) base s =
      Ret () (store_mem (snd (irq_regs U s line)) 1 (give_status U p (mem s (fst (irq_regs U s line))) s1))"
    if "line \<in> {IL_DISK U, IL_FLASH U, IL_ETHERNET U, IL_PRINTER U}"
  proof -
    have "line = IL_DISK U + (line - IL_DISK U)" using that lines by (auto simp: lines_ok_def)
    moreover have "irq_regs U s line = (devreg U (line - IL_DISK U) (irq_index U s line) + off_dtp_status U,
        devreg U (line - IL_DISK U) (irq_index U s line) + off_dtp_command U)" using that by (simp add: irq_regs_def Let_def)
    ultimately show ?thesis using generic_interrupt_run[OF _ idx v[unfolded base(2)]] m by simp
  qed
  show ?thesis
  proof (cases "line \<in> {IL_DISK U, IL_FLASH U, IL_ETHERNET U, IL_PRINTER U}")
    case True
    then have b: "base = (if line = IL_DISK U then addr_sem_disk U else if line = IL_FLASH U then addr_sem_flash U
        else if line = IL_ETHERNET U then addr_sem_net U else addr_sem_printer U)"
      using base(1) no by (auto simp: irq_base_def split: if_splits)
    show ?thesis using True gen[OF True] no unfolding handle_interrupts_def b
      by (auto simp: kseq_def kbind_def kreturn_def split: if_splits)
  next
    case False
    then have t: "line = IL_TERMINAL U" using base(1) no by (auto simp: irq_base_def split: if_splits)
    let ?reg = "devreg U (line - IL_DISK U) (irq_index U s line)"
    have c: "mem s (?reg + off_transm_status U) AND TERMSTATMASK = OKCHARTRANS \<and> base = addr_sem_term_out U \<or>
        mem s (?reg + off_transm_status U) AND TERMSTATMASK \<noteq> OKCHARTRANS \<and>
        mem s (?reg + off_recv_status U) AND TERMSTATMASK = OKCHARTRANS \<and> base = addr_sem_term_in U"
      using base(1) no False t by (auto simp: irq_base_def Let_def split: if_splits)
    have idx': "irq_index U s (IL_TERMINAL U) < DEVPERINT U" using idx t by simp
    have "terminal_interrupt_handler U s =
        Ret () (store_mem (snd (irq_regs U s line)) 1 (give_status U p (mem s (fst (irq_regs U s line))) s1))"
      unfolding terminal_interrupt_handler_def irq_index_def[symmetric] Let_def
      using c idx' v False unfolding base(2) irq_regs_def Let_def t
      by (auto simp: kseq_def kbind_def check_index_def kreturn_def)
    then show ?thesis using False no t unfolding handle_interrupts_def
      by (auto simp: kseq_def kbind_def kreturn_def)
  qed
qed

text \<open>The first waiter gets the status.\<close>

lemma device_interrupt_serves:
  assumes k: "kinv U s A" and lines: "lines_ok U" and sem: "irq_sem U s line = Some sem" and idx: "irq_index U s line < DEVPERINT U"
    and m: "mem s sem \<noteq> 1" and w: "waiting s A sem = t # ts"
  obtains s0 s1 A1 where "handle_interrupts U line s = Ret CONTINUE s1" and "kinv U s1 A1" and "woken sem t s A s0 A1"
    and "s1 = store_mem (snd (irq_regs U s line)) 1 (upd_reg t (reg_v0 U) (mem s (fst (irq_regs U s line))) s0)"
proof -
  obtain s0 A1 where v: "verhogen sem s = Ret (Some t) s0" "kinv U s0 A1" "woken sem t s A s0 A1"
    using verhogen_passes(2)[OF k m w] by blast
  have me: "mem s0 (fst (irq_regs U s line)) = mem s (fst (irq_regs U s line))" using v(3) by (simp add: woken_def same_user_def)
  let ?s1 = "store_mem (snd (irq_regs U s line)) 1 (upd_reg t (reg_v0 U) (mem s (fst (irq_regs U s line))) s0)"
  have "handle_interrupts U line s = Ret CONTINUE ?s1"
    using device_interrupt_run[OF lines sem idx v(1) me] by (simp add: give_status_def)
  moreover have "kinv U ?s1 A1" by (rule store_mem_kinv[OF upd_reg_kinv[OF v(2)]])
  ultimately show thesis using v(3) by (intro that) simp_all
qed

text \<open>What an interrupt looks at is the same after the state of the process has been saved.\<close>

lemma irq_save_state:
  assumes "running U a s A"
  shows "irq_index U (save_state s) line = irq_index U s line" "irq_sem U (save_state s) line = irq_sem U s line"
    "irq_regs U (save_state s) line = irq_regs U s line"
  by (simp_all only: irq_index_def irq_sem_def irq_base_def irq_regs_def save_state_sel(1)[OF assms])

text \<open>The process that runs goes on after an interrupt.\<close>

lemma interrupt_continues:
  assumes run: "running U a s A" and irq: "irq_pending U s line"
    and hi: "handle_interrupts U line (save_state s) = Ret CONTINUE s1" and run1: "running U a s1 A1"
  obtains s' where "exception_handler U s = Stop (Ldst (loaded_state U (pcbs s1 a))) s'" and "running U a s' A1"
    and "mem s' = mem s1" and "\<And>p. p \<noteq> a \<Longrightarrow> pcbs s' p = pcbs s1 p" and "\<And>j. waiting s' A1 j = waiting s1 A1 j"
proof -
  let ?c = "CAUSE_GET_EXCCODE U (cause (states s BIOSDATAPAGE))"
  have hc: "handle_cause U ?c (save_state s) = Ret CONTINUE s1"
    using irq hi by (simp add: handle_cause_def irq_pending_def pending_line_save_state)
  obtain s' where s': "kseq (update_age U) (kseq (resume U CONTINUE) (scheduler_next U)) s1 =
      Stop (Ldst ((p_s (pcbs s1 a))\<lparr>status := loaded_status U (pcbs s1 a)\<rparr>)) s'"
    "running U a s' A1" "mem s' = mem s1" "s_key s' = s_key s1" "\<And>p. p \<noteq> a \<Longrightarrow> pcbs s' p = pcbs s1 p"
    by (rule continue_pass[OF run1]) blast
  have "exception_handler U s = Stop (Ldst (loaded_state U (pcbs s1 a))) s'"
    unfolding exception_handler_unfold kbind_Ret[where m = "handle_cause U ?c", OF hc] s'(1) loaded_state_def by simp
  moreover have "waiting s' A1 j = waiting s1 A1 j" for j by (rule waiting_cong) (simp_all add: s'(4))
  ultimately show thesis using s' by (intro that[of s'])
qed

text \<open>From the wait, the first of the processes that are ready then runs.\<close>

lemma interrupt_wakes:
  assumes idle: "idle U s A" and U: "layout_ok U" and irq: "irq_pending U s line"
    and hi: "handle_interrupts U line s = Ret CONTINUE s1" and s1: "kinv U s1 A1" "act_proc s1 = None" "yielded_proc s1 = None"
    and q: "a_hq A1 @ a_lq A1 = b # bs"
  obtains s' where "exception_handler U s = Stop (Ldst (p_s (pcbs s' b))) s'" and "handed U b s1 A1 s'"
proof -
  let ?c = "CAUSE_GET_EXCCODE U (cause (states s BIOSDATAPAGE))"
  have sv: "save_state s = s" using idle by (simp add: save_state_def idle_def)
  have hc: "handle_cause U ?c (save_state s) = Ret CONTINUE s1"
    using irq hi by (simp add: handle_cause_def irq_pending_def sv)
  obtain s' where s': "scheduler_next U s1 = Stop (Ldst (p_s (pcbs s' b))) s'" "handed U b s1 A1 s'"
    by (rule scheduler_pass[OF s1(1,3) U q])
  have "exception_handler U s = Stop (Ldst (p_s (pcbs s' b))) s'"
    unfolding exception_handler_unfold kbind_Ret[where m = "handle_cause U ?c", OF hc]
    by (simp add: kseq_def kbind_def update_age_def resume_def s1(2) s'(1))
  then show thesis using s'(2) by (rule that)
qed

text \<open>The interrupt of a device for which a process waits, while another process runs or from the wait.\<close>

lemma device_pass:
  assumes run: "running U a s A" and irq: "irq_pending U s line" and lines: "lines_ok U" and sem: "irq_sem U s line = Some sem"
    and idx: "irq_index U s line < DEVPERINT U" and m: "mem s sem \<noteq> 1" and w: "waiting s A sem = t # ts"
  obtains s' A' where "exception_handler U s = Stop (Ldst (loaded_state U ((pcbs s a)\<lparr>p_s := states s BIOSDATAPAGE\<rparr>))) s'"
    and "running U a s' A'" and "a_hq A' = a_hq A @ at_prio PROCESS_PRIO_HIGH s t" and "a_lq A' = a_lq A @ at_prio PROCESS_PRIO_LOW s t"
    and "p_s (pcbs s' t) = set_reg (reg_v0 U) (mem s (fst (irq_regs U s line))) (p_s (pcbs s t))"
    and "\<And>j. waiting s' A' j = (if j = sem then ts else waiting s A j)" and "mem s' = (mem s)(snd (irq_regs U s line) := 1)"
proof -
  note sv = save_state_running[OF run]
  note R = runningD[OF sv(2)]
  note S = save_state_sel[OF run] irq_save_state[OF run] save_state_waiting[OF run]
  obtain s0 s1 A1 where s1: "handle_interrupts U line (save_state s) = Ret CONTINUE s1" "kinv U s1 A1" "woken sem t (save_state s) A s0 A1"
    "s1 = store_mem (snd (irq_regs U s line)) 1 (upd_reg t (reg_v0 U) (mem s (fst (irq_regs U s line))) s0)"
    by (rule device_interrupt_serves[OF R(1) lines, of line sem t ts]) (use sem idx m w in \<open>simp_all add: S\<close>)
  have ta: "t \<noteq> a"
    using waiting_blocked(1)[OF krepD(4)[OF runningD(2)[OF run]], of t sem] w
      det_not_elsewhere(4)[OF krepD(1)[OF runningD(2)[OF run]] runningD(5)[OF run]] by auto
  have pc: "pcbs s0 = (pcbs (save_state s))(t := (pcbs s t)\<lparr>p_semAdd := NULL\<rparr>)" and mm: "mem s0 = mem s"
    using s1(3) S(7)[OF ta] by (simp_all add: woken_def same_user_def S(1))
  have run1: "running U a s1 A1" using s1(2,3) R(3-5) by (auto simp: running_def s1(4) woken_def same_user_def)
  obtain s' where s': "exception_handler U s = Stop (Ldst (loaded_state U (pcbs s1 a))) s'" "running U a s' A1" "mem s' = mem s1"
    "\<And>p. p \<noteq> a \<Longrightarrow> pcbs s' p = pcbs s1 p" "\<And>j. waiting s' A1 j = waiting s1 A1 j"
    by (rule interrupt_continues[OF run irq s1(1) run1]) blast
  have w1: "waiting s1 A1 j = waiting s0 A1 j" for j by (rule waiting_cong) (simp_all add: s1(4) upd_reg_def)
  have pa: "pcbs s1 a = (pcbs s a)\<lparr>p_s := states s BIOSDATAPAGE\<rparr>" using ta by (simp add: s1(4) pc) (simp add: sv(1))
  have prio: "p_prio (pcbs (save_state s) t) = p_prio (pcbs s t)" by (rule S(4))
  show thesis
  proof (rule that[OF s'(1)[unfolded pa] s'(2)])
    show "a_hq A1 = a_hq A @ at_prio PROCESS_PRIO_HIGH s t" "a_lq A1 = a_lq A @ at_prio PROCESS_PRIO_LOW s t"
      using s1(3) by (simp_all add: woken_def prio at_prio_def)
    show "p_s (pcbs s' t) = set_reg (reg_v0 U) (mem s (fst (irq_regs U s line))) (p_s (pcbs s t))"
      using s'(4)[OF ta] by (simp add: s1(4) pc)
    show "waiting s' A1 j = (if j = sem then ts else waiting s A j)" for j
      using s1(3) w by (simp add: s'(5) w1 woken_def S)
    show "mem s' = (mem s)(snd (irq_regs U s line) := 1)" by (simp add: s'(3) s1(4) upd_reg_def mm)
  qed
qed

lemma device_wake_pass:
  assumes idle: "idle U s A" and U: "layout_ok U" and irq: "irq_pending U s line" and lines: "lines_ok U" and sem: "irq_sem U s line = Some sem"
    and idx: "irq_index U s line < DEVPERINT U" and m: "mem s sem \<noteq> 1" and w: "waiting s A sem = t # ts"
    and q: "a_hq A = []" "a_lq A = []" "p_prio (pcbs s t) \<in> {PROCESS_PRIO_HIGH, PROCESS_PRIO_LOW}"
  obtains s' A' where "exception_handler U s = Stop (Ldst (p_s (pcbs s' t))) s'" and "running U t s' A'"
    and "p_s (pcbs s' t) = loaded_state U ((pcbs s t)\<lparr>p_s := set_reg (reg_v0 U) (mem s (fst (irq_regs U s line))) (p_s (pcbs s t))\<rparr>)"
    and "\<And>j. waiting s' A' j = (if j = sem then ts else waiting s A j)" and "mem s' = (mem s)(snd (irq_regs U s line) := 1)"
proof -
  have k: "kinv U s A" and act: "act_proc s = None" "yielded_proc s = None" using idle by (simp_all add: idle_def)
  obtain s0 s1 A1 where s1: "handle_interrupts U line s = Ret CONTINUE s1" "kinv U s1 A1" "woken sem t s A s0 A1"
    "s1 = store_mem (snd (irq_regs U s line)) 1 (upd_reg t (reg_v0 U) (mem s (fst (irq_regs U s line))) s0)"
    by (rule device_interrupt_serves[OF k lines sem idx m w])
  have act1: "act_proc s1 = None" "yielded_proc s1 = None" using s1(3) act by (simp_all add: s1(4) woken_def same_user_def)
  have q1: "a_hq A1 @ a_lq A1 = t # []" using s1(3) q by (auto simp: woken_def)
  obtain s' where s': "exception_handler U s = Stop (Ldst (p_s (pcbs s' t))) s'" "handed U t s1 A1 s'"
    by (rule interrupt_wakes[OF idle U irq s1(1,2) act1 q1])
  have w1: "waiting s1 A1 j = waiting s0 A1 j" for j by (rule waiting_cong) (simp_all add: s1(4) upd_reg_def)
  have ls: "loaded_state U (q\<lparr>p_semAdd := x\<rparr>) = loaded_state U q" for q x by (simp add: loaded_state_def loaded_status_def)
  have "pcbs s1 t = ((pcbs s t)\<lparr>p_s := set_reg (reg_v0 U) (mem s (fst (irq_regs U s line))) (p_s (pcbs s t))\<rparr>)\<lparr>p_semAdd := NULL\<rparr>"
    using s1(3) by (simp add: s1(4) woken_def upd_reg_def)
  then have st: "p_s (pcbs s' t) = loaded_state U ((pcbs s t)\<lparr>p_s := set_reg (reg_v0 U) (mem s (fst (irq_regs U s line))) (p_s (pcbs s t))\<rparr>)"
    using s'(2) by (simp add: handed_def ls)
  have "waiting s' (a_deq t A1) j = (if j = sem then ts else waiting s A j)" for j
    using s1(3) w by (simp add: handed_waiting[OF s'(2)] w1 woken_def)
  moreover have "mem s' = (mem s)(snd (irq_regs U s line) := 1)"
    using s'(2) s1(3) by (simp add: handed_def s1(4) woken_def same_user_def upd_reg_def)
  moreover have "running U t s' (a_deq t A1)" using s'(2) by (simp add: handed_def)
  ultimately show thesis using s'(1) st by (intro that)
qed

text \<open>A tick of the pseudo-clock.\<close>

definition clock_line :: "'h plat \<Rightarrow> nat \<Rightarrow> bool" where
  "clock_line U line \<longleftrightarrow> line = IL_TIMER U \<and> line \<noteq> IL_IPI U \<and> line \<noteq> IL_CPUTIMER U"

lemma clock_interrupt_run:
  assumes k: "kinv U s A" and line: "clock_line U line" and m: "mem s (addr_sem_it U) \<noteq> 1"
  obtains s0 A1 where "handle_interrupts U line s = Ret CONTINUE (store_mem (addr_sem_it U) 0 s0)" and "kinv U s0 A1"
    and "ticked (addr_sem_it U) (waiting s A (addr_sem_it U)) (upd_hw (LDIT U PSECOND) s) A s0 A1"
proof -
  let ?s = "upd_hw (LDIT U PSECOND) s"
  have w: "waiting ?s A j = waiting s A j" for j by (rule waiting_cong) simp_all
  have "mem ?s (addr_sem_it U) \<noteq> 1" using m by simp
  then obtain s0 A1 where c: "clock_tick U ?s = Ret () (store_mem (addr_sem_it U) 0 s0)" "kinv U s0 A1"
    "ticked (addr_sem_it U) (waiting ?s A (addr_sem_it U)) ?s A s0 A1"
    by (rule clock_tick_run[OF upd_hw_kinv[OF k]])
  have "handle_interrupts U line s = Ret CONTINUE (store_mem (addr_sem_it U) 0 s0)"
    using line c(1) by (simp add: handle_interrupts_def clock_line_def kseq_def kbind_def kmodify_def kreturn_def)
  then show thesis using c(2,3) unfolding w by (rule that)
qed

definition of_prio :: "u32 \<Rightarrow> 'h kst \<Rightarrow> nat list \<Rightarrow> nat list" where
  "of_prio pr s = filter (\<lambda>t. p_prio (pcbs s t) = pr)"

lemma of_prio_simps [simp]: "of_prio pr s [] = []" "of_prio pr s (t # ts) = at_prio pr s t @ of_prio pr s ts"
  by (simp_all add: of_prio_def at_prio_def)

lemma clock_pass:
  assumes run: "running U a s A" and irq: "irq_pending U s line" and line: "clock_line U line" and m: "mem s (addr_sem_it U) \<noteq> 1"
    and ws: "ws = waiting s A (addr_sem_it U)"
  obtains s' A' where "exception_handler U s = Stop (Ldst (loaded_state U ((pcbs s a)\<lparr>p_s := states s BIOSDATAPAGE\<rparr>))) s'"
    and "running U a s' A'" and "a_hq A' = a_hq A @ of_prio PROCESS_PRIO_HIGH s ws" and "a_lq A' = a_lq A @ of_prio PROCESS_PRIO_LOW s ws"
    and "\<And>j. waiting s' A' j = (if j = addr_sem_it U then [] else waiting s A j)" and "mem s' = (mem s)(addr_sem_it U := 0)"
    and "\<And>p. p \<noteq> a \<Longrightarrow> p_s (pcbs s' p) = p_s (pcbs s p)"
proof -
  note sv = save_state_running[OF run]
  note R = runningD[OF sv(2)]
  note S = save_state_sel[OF run] save_state_waiting[OF run]
  have m': "mem (save_state s) (addr_sem_it U) \<noteq> 1" using m by (simp add: S)
  obtain s0 A1 where s0: "handle_interrupts U line (save_state s) = Ret CONTINUE (store_mem (addr_sem_it U) 0 s0)" "kinv U s0 A1"
    "ticked (addr_sem_it U) ws (upd_hw (LDIT U PSECOND) (save_state s)) A s0 A1"
    by (rule clock_interrupt_run[OF R(1) line m']) (simp add: S ws)
  let ?s1 = "store_mem (addr_sem_it U) 0 s0"
  have run1: "running U a ?s1 A1" using store_mem_kinv[OF s0(2)] s0(3) R(3-5) by (auto simp: running_def ticked_def)
  obtain s' where s': "exception_handler U s = Stop (Ldst (loaded_state U (pcbs ?s1 a))) s'" "running U a s' A1" "mem s' = mem ?s1"
    "\<And>p. p \<noteq> a \<Longrightarrow> pcbs s' p = pcbs ?s1 p" "\<And>j. waiting s' A1 j = waiting ?s1 A1 j"
    by (rule interrupt_continues[OF run irq s0(1) run1]) blast
  have pc: "pcbs s0 x = (if x \<in> set ws then (pcbs (save_state s) x)\<lparr>p_semAdd := NULL\<rparr> else pcbs (save_state s) x)" for x
    using s0(3) by (simp add: ticked_def)
  have "a \<notin> set ws"
    using waiting_blocked(1)[OF krepD(4)[OF runningD(2)[OF run]], of a "addr_sem_it U"]
      det_not_elsewhere(4)[OF krepD(1)[OF runningD(2)[OF run]] runningD(5)[OF run]] by (auto simp: ws)
  then have pa: "pcbs ?s1 a = (pcbs s a)\<lparr>p_s := states s BIOSDATAPAGE\<rparr>" by (simp add: pc) (simp add: sv(1))
  have prio: "(\<lambda>t. p_prio (pcbs (save_state s) t) = pr) = (\<lambda>t. p_prio (pcbs s t) = pr)" for pr by (simp add: S(4))
  have w1: "waiting ?s1 A1 j = waiting s0 A1 j" for j by (rule waiting_cong) simp_all
  have w2: "waiting (upd_hw (LDIT U PSECOND) (save_state s)) A j = waiting (save_state s) A j" for j by (rule waiting_cong) simp_all
  show thesis
  proof (rule that[OF s'(1)[unfolded pa] s'(2)])
    show "a_hq A1 = a_hq A @ of_prio PROCESS_PRIO_HIGH s ws" "a_lq A1 = a_lq A @ of_prio PROCESS_PRIO_LOW s ws"
      using s0(3) by (simp_all add: ticked_def prio of_prio_def)
    show "waiting s' A1 j = (if j = addr_sem_it U then [] else waiting s A j)" for j
      using s0(3) by (simp add: s'(5) w1 ticked_def w2 S)
    show "mem s' = (mem s)(addr_sem_it U := 0)" using s0(3) by (simp add: s'(3) ticked_def S)
    show "p_s (pcbs s' p) = p_s (pcbs s p)" if "p \<noteq> a" for p using s'(4)[OF that] by (simp add: pc S(7)[OF that])
  qed
qed

lemma clock_wake_pass:
  assumes idle: "idle U s A" and U: "layout_ok U" and irq: "irq_pending U s line" and line: "clock_line U line"
    and m: "mem s (addr_sem_it U) \<noteq> 1" and ws: "ws = waiting s A (addr_sem_it U)" and q: "a_hq A = []" "a_lq A = []"
    and b: "of_prio PROCESS_PRIO_HIGH s ws @ of_prio PROCESS_PRIO_LOW s ws = b # bs"
  obtains s' A' where "exception_handler U s = Stop (Ldst (p_s (pcbs s' b))) s'" and "running U b s' A'"
    and "p_s (pcbs s' b) = loaded_state U (pcbs s b)" and "a_hq A' @ a_lq A' = bs"
    and "\<And>j. waiting s' A' j = (if j = addr_sem_it U then [] else waiting s A j)" and "mem s' = (mem s)(addr_sem_it U := 0)"
proof -
  have k: "kinv U s A" and act: "act_proc s = None" "yielded_proc s = None" using idle by (simp_all add: idle_def)
  obtain s0 A1 where s0: "handle_interrupts U line s = Ret CONTINUE (store_mem (addr_sem_it U) 0 s0)" "kinv U s0 A1"
    "ticked (addr_sem_it U) ws (upd_hw (LDIT U PSECOND) s) A s0 A1"
    by (rule clock_interrupt_run[OF k line m]) (simp add: ws)
  let ?s1 = "store_mem (addr_sem_it U) 0 s0"
  have act1: "act_proc ?s1 = None" "yielded_proc ?s1 = None" using s0(3) act by (simp_all add: ticked_def)
  have q1: "a_hq A1 @ a_lq A1 = b # bs" using s0(3) q b by (simp add: ticked_def of_prio_def)
  obtain s' where s': "exception_handler U s = Stop (Ldst (p_s (pcbs s' b))) s'" "handed U b ?s1 A1 s'"
    by (rule interrupt_wakes[OF idle U irq s0(1) store_mem_kinv[OF s0(2)] act1 q1])
  have w1: "waiting ?s1 A1 j = waiting s0 A1 j" for j by (rule waiting_cong) simp_all
  have w2: "waiting (upd_hw (LDIT U PSECOND) s) A j = waiting s A j" for j by (rule waiting_cong) simp_all
  have ls: "loaded_state U (q\<lparr>p_semAdd := x\<rparr>) = loaded_state U q" for q x by (simp add: loaded_state_def loaded_status_def)
  have pc: "pcbs s0 x = (if x \<in> set ws then (pcbs s x)\<lparr>p_semAdd := NULL\<rparr> else pcbs s x)" for x
    using s0(3) by (simp add: ticked_def)
  have wf: "pcbs_wf A1" using s0(2) krepD(1) by (auto simp: kinv_def)
  show thesis
  proof (rule that[OF s'(1)])
    show "running U b s' (a_deq b A1)" using s'(2) by (simp add: handed_def)
    show "p_s (pcbs s' b) = loaded_state U (pcbs s b)" using s'(2) by (simp add: handed_def pc ls)
    show "a_hq (a_deq b A1) @ a_lq (a_deq b A1) = bs" by (rule a_deq_head[OF wf q1])
    show "waiting s' (a_deq b A1) j = (if j = addr_sem_it U then [] else waiting s A j)" for j
      using s0(3) by (simp add: handed_waiting[OF s'(2)] w1 ticked_def w2)
    show "mem s' = (mem s)(addr_sem_it U := 0)" using s'(2) s0(3) by (simp add: handed_def ticked_def)
  qed
qed

section \<open>Interrupts nobody waits for\<close>

text \<open>
  The V of the interrupt of a device for which nobody waits answers with the process that happens to
  run: that process gets the status of the device in v0, which it had in use for something else.
\<close>

lemma stray_pass:
  assumes run: "running U a s A" and irq: "irq_pending U s line" and lines: "lines_ok U" and sem: "irq_sem U s line = Some sem"
    and idx: "irq_index U s line < DEVPERINT U" and m: "mem s sem \<noteq> 1" and w: "waiting s A sem = []"
    and ne: "fst (irq_regs U s line) \<noteq> sem"
  obtains s' where "exception_handler U s = Stop (Ldst (loaded_state U ((pcbs s a)
      \<lparr>p_s := set_reg (reg_v0 U) (mem s (fst (irq_regs U s line))) (states s BIOSDATAPAGE)\<rparr>))) s'"
    and "running U a s' A" and "mem s' = (mem s)(sem := 1, snd (irq_regs U s line) := 1)"
proof -
  note sv = save_state_running[OF run]
  note R = runningD[OF sv(2)]
  note S = save_state_sel[OF run] irq_save_state[OF run] save_state_waiting[OF run]
  let ?s0 = "store_mem sem 1 (save_state s)" and ?v = "mem s (fst (irq_regs U s line))"
  let ?s1 = "store_mem (snd (irq_regs U s line)) 1 (upd_reg a (reg_v0 U) ?v ?s0)"
  have m': "mem (save_state s) sem \<noteq> 1" and w': "waiting (save_state s) A sem = []" using m w by (simp_all add: S)
  have v: "verhogen sem (save_state s) = Ret (Some a) ?s0" using verhogen_passes(1)[OF R(1) m' w'] R(3) by simp
  have "handle_interrupts U line (save_state s) = Ret CONTINUE
      (store_mem (snd (irq_regs U (save_state s) line)) 1
        (give_status U (Some a) (mem (save_state s) (fst (irq_regs U (save_state s) line))) ?s0))"
    by (rule device_interrupt_run[OF lines _ _ v]) (use sem idx ne in \<open>simp_all add: S\<close>)
  then have hi: "handle_interrupts U line (save_state s) = Ret CONTINUE ?s1" by (simp add: give_status_def S)
  have run1: "running U a ?s1 A"
    using store_mem_kinv[OF upd_reg_kinv[OF store_mem_kinv[OF R(1)]]] R(3-5) by (simp add: running_def)
  have pa: "pcbs ?s1 a = (pcbs s a)\<lparr>p_s := set_reg (reg_v0 U) ?v (states s BIOSDATAPAGE)\<rparr>"
    by (simp add: upd_reg_def) (simp add: sv(1))
  obtain s' where s': "exception_handler U s = Stop (Ldst (loaded_state U (pcbs ?s1 a))) s'" "running U a s' A" "mem s' = mem ?s1"
    by (rule interrupt_continues[OF run irq hi run1]) blast
  show thesis by (rule that[OF s'(1)[unfolded pa] s'(2)]) (simp add: s'(3) upd_reg_def S)
qed

text \<open>Loading a process asks for nothing but that it exists.\<close>

lemma load_proc_any:
  assumes k: "kinv U s A" and y: "yielded_proc s = None"
  obtains s' where "load_proc U (Some a) s = Stop (Ldst (loaded_state U (pcbs s a))) s'" and "kinv U s' A"
    and "act_proc s' = Some a" and "\<And>p. p_semAdd (pcbs s' p) = p_semAdd (pcbs s p)" and "s_key s' = s_key s"
proof -
  obtain now h where stck: "STCK U (setTIMER U (plt_value s) (hw s)) = (now, h)" by fastforce
  let ?s' = "s\<lparr>act_proc := Some a, hw := h, pcbs := (pcbs s)(a := loaded_pcb U s (pcbs s a))\<rparr>"
  have rq: "requeue_yielded s = s" by (simp only: requeue_yielded_def y option.case)
  have plt: "plt_value (s\<lparr>act_proc := Some a\<rparr>) = plt_value s" by (simp add: plt_value_def)
  have "load_proc U (Some a) s = Stop (Ldst (loaded_state U (pcbs s a))) ?s'"
    by (simp add: load_proc_def kseq_def kbind_def kmodify_def kread_def kstop_def read_tod_def rq plt stck
        loaded_pcb_def loaded_status_def loaded_state_def Let_def set_act_proc_def upd_pcb_def upd_hw_def)
  moreover have "kinv U ?s' A" by (rule kinv_cong[OF k]) simp_all
  ultimately show thesis by (rule that) simp_all
qed

text \<open>With the semaphore at 1 the V blocks the process that runs, which is then loaded all the same.\<close>

lemma unclaimed_pass:
  assumes run: "running U a s A" and irq: "irq_pending U s line" and lines: "lines_ok U" and sem: "irq_sem U s line = Some sem"
    and idx: "irq_index U s line < DEVPERINT U" and m: "mem s sem = 1" and nn: "sem \<noteq> NULL"
  obtains s' A' where "exception_handler U s = Stop (Ldst (loaded_state U ((pcbs s a)\<lparr>p_s := states s BIOSDATAPAGE\<rparr>))) s'"
    and "kinv U s' A'" and "act_proc s' = Some a" and "a \<in> set (waiting s' A' sem)"
proof -
  note sv = save_state_running[OF run]
  note R = runningD[OF sv(2)]
  note S = save_state_sel[OF run] irq_save_state[OF run] save_state_waiting[OF run]
  have m': "mem (save_state s) sem = 1" using m by (simp add: S)
  obtain s0 A1 where v: "verhogen sem (save_state s) = Ret None s0" "kinv U s0 A1" "blocked_on sem a (save_state s) A s0 A1"
    by (rule verhogen_blocks[OF R(1,3,5) nn m'])
  have mm: "mem s0 = mem (save_state s)" using v(3) by (simp add: blocked_on_def same_user_def)
  let ?s1 = "store_mem (snd (irq_regs U s line)) 1 s0"
  have "handle_interrupts U line (save_state s) = Ret CONTINUE
      (store_mem (snd (irq_regs U (save_state s) line)) 1
        (give_status U None (mem (save_state s) (fst (irq_regs U (save_state s) line))) s0))"
    by (rule device_interrupt_run[OF lines _ _ v(1)]) (use sem idx mm in \<open>simp_all add: S\<close>)
  then have hi: "handle_interrupts U line (save_state s) = Ret CONTINUE ?s1" by (simp add: give_status_def S)
  have k1: "kinv U ?s1 A1" by (rule store_mem_kinv[OF v(2)])
  have act: "act_proc ?s1 = Some a" "yielded_proc ?s1 = None" using v(3) R(3,4) by (simp_all add: blocked_on_def same_user_def)
  obtain s2 where s2: "update_age U ?s1 = Ret () s2" "kinv U s2 A1" "act_proc s2 = Some a" "yielded_proc s2 = yielded_proc ?s1"
    "pcbs s2 = (pcbs ?s1)(a := aged U ?s1 (pcbs ?s1 a))" "s_key s2 = s_key ?s1"
    by (rule update_age_step[OF k1 act(1)])
  have y2: "yielded_proc s2 = None" using s2(4) act(2) by simp
  obtain s' where s': "load_proc U (Some a) s2 = Stop (Ldst (loaded_state U (pcbs s2 a))) s'" "kinv U s' A1" "act_proc s' = Some a"
    "s_key s' = s_key s2" by (rule load_proc_any[OF s2(2) y2])
  let ?c = "CAUSE_GET_EXCCODE U (cause (states s BIOSDATAPAGE))"
  have hc: "handle_cause U ?c (save_state s) = Ret CONTINUE ?s1"
    using irq hi by (simp add: handle_cause_def irq_pending_def pending_line_save_state)
  have "pcbs s0 a = (pcbs s a)\<lparr>p_s := states s BIOSDATAPAGE, p_semAdd := sem\<rparr>" using v(3) by (simp add: blocked_on_def sv(1))
  then have st: "loaded_state U (pcbs s2 a) = loaded_state U ((pcbs s a)\<lparr>p_s := states s BIOSDATAPAGE\<rparr>)"
    by (simp add: s2(5) loaded_state_def loaded_status_def)
  have "exception_handler U s = Stop (Ldst (loaded_state U (pcbs s2 a))) s'"
    unfolding exception_handler_unfold kbind_Ret[where m = "handle_cause U ?c", OF hc]
    by (simp add: kseq_def kbind_def s2(1) resume_def s2(3) s'(1))
  moreover have "waiting s' A1 sem = waiting s0 A1 sem" by (rule waiting_cong) (simp_all add: s'(4) s2(6))
  then have "a \<in> set (waiting s' A1 sem)" using v(3) by (simp add: blocked_on_def)
  ultimately show thesis using s'(2,3) unfolding st by (intro that)
qed

end
