(* ===== verification/Request_Example.thy ===== *)
theory Request_Example
  imports Kernel_Passes Platform_Example
begin

text \<open>
  Requests and interrupts on the concrete platform, in the states the witnesses start from: the first
  process, with \<open>n\<close> others it has created and which are ready, makes a request, or a disk or the
  pseudo-clock interrupts.
\<close>

section \<open>Requests of the first process\<close>

text \<open>The first process, after it has created \<open>n\<close> others, makes a request; \<open>m\<close> is the memory.\<close>

definition request :: "(u32 \<Rightarrow> u32) \<Rightarrow> (nat \<Rightarrow> u32) \<Rightarrow> nat \<Rightarrow> cpu3 kst" where
  "request m g n = outside m (\<lambda>_. zero_state\<lparr>cause := 0x20, pc_epc := 0x20001300, gpr := g\<rparr>) (supports (crowd n)) (0, 0, 0) (crowd n)"

lemma request_sel [simp]:
  "mem (request m g n) = m" "gpr (states (request m g n) BIOSDATAPAGE) = g" "pc_epc (states (request m g n) BIOSDATAPAGE) = 0x20001300"
  "pcbs (request m g n) = pcbs (crowd n)" "s_key (request m g n) = s_key (crowd n)"
  by (simp_all add: request_def outside_def)

lemma request_is: "sint (g 3) = k \<Longrightarrow> sys_request umps (request m g n) k"
  by (simp add: sys_request_def sys_code_def request_def outside_def umps_def zero_state_def)

lemma request_runs:
  assumes "n \<le> 19"
  obtains A where "running umps 0 (request m g n) A" and "a_lq A = [1..<Suc n]" and "a_hq A = []" and "a_free A = [Suc n..<MAXPROC]"
    and "a_blocked A = []" and "\<And>j. waiting (request m g n) A j = []" and "p_prio (pcbs (crowd n) 0) = PROCESS_PRIO_LOW"
proof -
  obtain A where A: "running umps 0 (crowd n) A" "a_lq A = [1..<Suc n]" "a_hq A = []" "a_free A = [Suc n..<MAXPROC]" "a_blocked A = []"
    "p_prio (pcbs (crowd n) 0) = PROCESS_PRIO_LOW" using crowd[OF assms] by blast
  have run: "running umps 0 (request m g n) A" unfolding request_def by (rule outside_running[OF A(1)])
  have "sem_ok (request m g n) A" using runningD(2)[OF run] krepD(4) by blast
  then have "waiting (request m g n) A j = []" for j
    using waiting_blocked(1)[of "request m g n" A _ j] A(5) by (cases "waiting (request m g n) A j") auto
  then show thesis using A run by (intro that)
qed

lemma request_prio:
  assumes "n \<le> 19"
  shows "at_prio PROCESS_PRIO_HIGH (request m g n) 0 = []" "at_prio PROCESS_PRIO_LOW (request m g n) 0 = [0]"
  using crowd[OF assms] by (auto simp: at_prio_def)

text \<open>The processes the first one has created are its children.\<close>

lemma crowd_parents:
  "n \<le> 19 \<Longrightarrow> p_parent (pcbs (crowd n) 0) = None \<and> (\<forall>c. 0 < c \<longrightarrow> c \<le> n \<longrightarrow> p_parent (pcbs (crowd n) c) = Some 0)"
proof (induction n)
  case 0
  then show ?case using first_run(4) by simp
next
  case (Suc n)
  then obtain A where A: "running umps 0 (crowd n) A" "a_free A = [Suc n..<MAXPROC]" using crowd[of n] by auto
  with Suc.prems have f: "a_free A = Suc n # [Suc (Suc n)..<MAXPROC]" by (simp add: MAXPROC_def upt_conv_Cons)
  note R = runningD[OF A(1)]
  have "pcbs (crowd (Suc n)) = (pcbs (crowd n))(Suc n := new_pcb umps (crowd n) 0 0x20005000 PROCESS_PRIO_LOW NULL (Suc n))"
    by (rule mk_proc_kinv[OF R(1,3,6) f, where statep = "0x20005000" and prio = PROCESS_PRIO_LOW and supportp = NULL]) simp
  then show ?case using Suc by (auto simp: new_pcb_def le_Suc_eq)
qed

section \<open>Interrupts\<close>

text \<open>An interrupt that comes while the processes are as in \<open>s\<close>: \<open>c\<close> is the cause register.\<close>

definition interrupted :: "(u32 \<Rightarrow> u32) \<Rightarrow> u32 \<Rightarrow> cpu3 kst \<Rightarrow> cpu3 kst" where
  "interrupted m c s = outside m (\<lambda>_. zero_state) (supports s) (0, c, 0) s"

lemma interrupted_sel [simp]:
  "mem (interrupted m c s) = m" "pcbs (interrupted m c s) = pcbs s" "states (interrupted m c s) = (\<lambda>_. zero_state)"
  by (simp_all add: interrupted_def outside_def)

lemma interrupted_running: "running umps a s A \<Longrightarrow> running umps a (interrupted m c s) A"
  unfolding interrupted_def by (rule outside_running)

lemma interrupted_waiting: "waiting (interrupted m c s) A j = waiting s A j"
  unfolding interrupted_def by (rule outside_waiting)

text \<open>The first disk, and the pseudo-clock.\<close>

lemma disk_interrupt:
  "irq_pending umps (interrupted m 0x800 s) 3"
  "v \<le> 1 \<Longrightarrow> irq_index umps (interrupted (\<lambda>_. v) c s) 3 = 0"
  "v \<le> 1 \<Longrightarrow> irq_sem umps (interrupted (\<lambda>_. v) c s) 3 = Some 0x20004100"
  "v \<le> 1 \<Longrightarrow> irq_regs umps (interrupted (\<lambda>_. v) c s) 3 = (0x10000054, 0x10000058)"
proof -
  show "irq_pending umps (interrupted m 0x800 s) 3"
    by (simp add: irq_pending_def pending_line_def interrupted_def outside_def umps_def zero_state_def upt_rec)
  assume "v \<le> 1"
  then show i: "irq_index umps (interrupted (\<lambda>_. v) c s) 3 = 0" by (simp add: irq_index_def highest_bit.simps leD)
  show "irq_sem umps (interrupted (\<lambda>_. v) c s) 3 = Some 0x20004100"
    by (simp add: irq_sem_def i irq_base_def) (simp add: umps_def)
  show "irq_regs umps (interrupted (\<lambda>_. v) c s) 3 = (0x10000054, 0x10000058)"
    by (simp add: irq_regs_def i Let_def) (simp add: umps_def)
qed

lemma clock_interrupt:
  "irq_pending umps (interrupted m 0x400 s) 2" "clock_line umps 2" "addr_sem_it umps = 0x20004000"
  by (simp_all add: irq_pending_def clock_line_def pending_line_def interrupted_def outside_def umps_def zero_state_def upt_rec)

lemma disk_sem: "io_sem umps 0x10000058 = Some 0x20004100"
  by (simp add: io_sem_def DEVICE_FROM_COMDADDR_def find_device_def dev_sem_def umps_def upt_rec)

text \<open>The first process waits for the disk and nothing is ready.\<close>

lemma lone_io:
  obtains s A where "idle umps s A" and "waiting s A 0x20004100 = [0]" and "a_hq A = []" and "a_lq A = []"
    and "p_prio (pcbs s 0) = PROCESS_PRIO_LOW"
proof -
  have "(0x20004100 :: u32) \<noteq> NULL" by (simp add: NULL_def)
  then obtain A where A: "kinv umps (asleep 0x20004100) A" "waiting (asleep 0x20004100) A 0x20004100 = [0]"
    "p_prio (pcbs (asleep 0x20004100) 0) = PROCESS_PRIO_LOW" "a_lq A = []" "a_hq A = []" "yielded_proc (asleep 0x20004100) = None"
    by (rule asleep)
  let ?s = "set_act_proc None (asleep 0x20004100)"
  have "kinv umps ?s A" by (rule kinv_cong[OF A(1)]) (simp_all add: set_act_proc_def)
  moreover have "waiting ?s A j = waiting (asleep 0x20004100) A j" for j by (rule waiting_cong) (simp_all add: set_act_proc_def)
  ultimately show thesis using A by (intro that[of ?s A]) (simp_all add: idle_def set_act_proc_def)
qed

end
