(* ===== verification/Request_Spec.thy ===== *)
theory Request_Spec
  imports Request_Example
begin

text \<open>
  The properties of the single requests and interrupts, each through the whole handler, from the
  exception to the processor state it loads: creating and ending processes, free semaphores, the
  yield, and devices and the pseudo-clock from the request to the interrupt that answers it.
\<close>

section \<open>Creating and ending processes\<close>

text \<open>
  C9. A request to create a process takes the first free PCB, fills it from the registers of the
  caller, links it as the first child of the caller and appends it to the ready queue of its
  priority. The caller goes on after its request with the PID in v0, no other process changes, and
  a priority that is neither high nor low puts the new process in no queue at all.
\<close>

theorem create_process_links:
  assumes "running U a s A" and "layout_ok U" and "sys_request U s CREATEPROCESS" and "a_free A = p # ps"
  shows "let st = states s BIOSDATAPAGE; statep = gpr st (reg_a1 U); prio = gpr st (reg_a2 U); supportp = gpr st (reg_a3 U) in
    \<exists>s' A'. exception_handler U s =
        Stop (Ldst ((answered U (pcb_addr U p) st)\<lparr>status := loaded_status U ((pcbs s a)\<lparr>p_s := st\<rparr>)\<rparr>)) s' \<and>
      running U a s' A' \<and> pcbs s' p = new_pcb U s a statep prio supportp p \<and>
      a_free A' = ps \<and> a_kids A' a = p # a_kids A a \<and>
      a_hq A' = a_hq A @ (if prio = PROCESS_PRIO_HIGH then [p] else []) \<and>
      a_lq A' = a_lq A @ (if prio = PROCESS_PRIO_LOW then [p] else []) \<and>
      (\<forall>j. waiting s' A' j = waiting s A j) \<and> (\<forall>q. q \<noteq> a \<longrightarrow> q \<noteq> p \<longrightarrow> pcbs s' q = pcbs s q) \<and> mem s' = mem s"
proof -
  have ne: "a \<noteq> p" using pcbs_wf_free_alive[OF krepD(1)[OF runningD(2)[OF assms(1)]]] runningD(6)[OF assms(1)] assms(4) by auto
  let ?prio = "gpr (states s BIOSDATAPAGE) (reg_a2 U)"
  have "a_free (a_create ?prio a p A) = ps" "a_kids (a_create ?prio a p A) a = p # a_kids A a"
    "a_hq (a_create ?prio a p A) = a_hq A @ (if ?prio = PROCESS_PRIO_HIGH then [p] else [])"
    "a_lq (a_create ?prio a p A) = a_lq A @ (if ?prio = PROCESS_PRIO_LOW then [p] else [])"
    using ne by (simp_all add: a_create_def a_enq_def assms(4))
  then show ?thesis unfolding Let_def by (rule_tac create_pass[OF assms(1-3) refl refl refl assms(4)]) blast
qed

theorem create_process_links_witness:
  "\<exists>s' A' st. exception_handler umps (request (\<lambda>_. 0) ((\<lambda>_. 0)(3 := -1, 4 := 0x20005000, 5 := 1, 6 := NULL)) 0) = Stop (Ldst st) s' \<and>
    running umps 0 s' A' \<and> gpr st 1 = pcb_addr umps 1 \<and> p_parent (pcbs s' 1) = Some 0 \<and> a_hq A' = [1]"
proof -
  let ?g = "(\<lambda>_. 0)(3 := -1, 4 := 0x20005000, 5 := 1, 6 := NULL) :: nat \<Rightarrow> u32" and ?m = "\<lambda>_. 0"
  obtain A where A: "running umps 0 (request ?m ?g 0) A" "a_hq A = []" "a_free A = [Suc 0..<MAXPROC]"
    by (rule request_runs[of 0 ?m ?g]) simp_all
  have req: "sys_request umps (request ?m ?g 0) CREATEPROCESS" by (rule request_is) (simp add: syscall_numbers)
  have f: "a_free A = 1 # [2..<MAXPROC]" by (simp add: A(3) MAXPROC_def upt_conv_Cons)
  have r: "reg_v0 umps = 1" "reg_a1 umps = 4" "reg_a2 umps = 5" "reg_a3 umps = 6" "reg_t9 umps = 23" by (simp_all add: umps_def)
  have v: "gpr ((answered umps x st)\<lparr>status := y\<rparr>) 1 = x" for x st y by (simp add: answered_def past_def set_reg_def r)
  have hi: "?g (reg_a2 umps) = PROCESS_PRIO_HIGH" by (simp add: r PROCESS_PRIO_HIGH_def)
  obtain s' A' where "exception_handler umps (request ?m ?g 0) = Stop (Ldst ((answered umps (pcb_addr umps 1)
      (states (request ?m ?g 0) BIOSDATAPAGE))\<lparr>status := loaded_status umps ((pcbs (request ?m ?g 0) 0)
        \<lparr>p_s := states (request ?m ?g 0) BIOSDATAPAGE\<rparr>)\<rparr>)) s'" "running umps 0 s' A'"
    "pcbs s' 1 = new_pcb umps (request ?m ?g 0) 0 (?g (reg_a1 umps)) (?g (reg_a2 umps)) (?g (reg_a3 umps)) 1"
    "a_hq A' = a_hq A @ (if ?g (reg_a2 umps) = PROCESS_PRIO_HIGH then [1] else [])"
    using create_process_links[OF A(1) umps_layout req f] unfolding Let_def request_sel by blast
  moreover from this have "p_parent (pcbs s' 1) = Some 0" "a_hq A' = [1]" unfolding hi by (simp_all add: new_pcb_def A(2))
  ultimately show ?thesis using v by blast
qed

text \<open>
  C39. When no PCB is free the request changes nothing and answers -1 to the exception handler, not
  to the caller: v0 is not written, and since -1 is none of the actions the handler knows, the
  next process runs while the caller, alive, is in no queue.
\<close>

theorem create_process_exhausted_loses_caller:
  assumes "running U a s A" and "layout_ok U" and "sys_request U s CREATEPROCESS" and "a_free A = []" and "a_hq A @ a_lq A = b # bs"
  shows "\<exists>s' A'. exception_handler U s = Stop (Ldst (p_s (pcbs s' b))) s' \<and> running U b s' A' \<and> left_behind a s' A' \<and>
    p_s (pcbs s' a) = past U (states s BIOSDATAPAGE) \<and> a_hq A' @ a_lq A' = bs"
proof -
  note S = save_state_sel[OF assms(1)]
  obtain s' A' where g: "gave_way U s a (save_state s) A b bs s' A'" by (rule create_lost_pass[OF assms])
  moreover have "left_behind a s' A'" by (rule gave_way_left[OF save_state_running(2)[OF assms(1)] assms(5) g])
  moreover have "b \<noteq> a" by (rule ready_not_running[OF assms(1,5)])
  ultimately show ?thesis unfolding gave_way_def by (intro exI[of _ s'] exI[of _ A']) (simp add: S)
qed

theorem create_process_exhausted_loses_caller_witness:
  "\<exists>s' A'. exception_handler umps (request (\<lambda>_. 0) ((\<lambda>_. 0)(3 := -1)) 19) = Stop (Ldst (p_s (pcbs s' 1))) s' \<and>
    running umps 1 s' A' \<and> left_behind 0 s' A'"
proof -
  let ?g = "(\<lambda>_. 0)(3 := -1) :: nat \<Rightarrow> u32" and ?m = "\<lambda>_. 0"
  obtain A where A: "running umps 0 (request ?m ?g 19) A" "a_hq A = []" "a_lq A = [1..<Suc 19]" "a_free A = [Suc 19..<MAXPROC]"
    by (rule request_runs[of 19 ?m ?g]) simp_all
  have req: "sys_request umps (request ?m ?g 19) CREATEPROCESS" by (rule request_is) (simp add: syscall_numbers)
  have f: "a_free A = []" by (simp add: A(4) MAXPROC_def)
  have "[1..<Suc 19] = 1 # [2..<Suc 19]" by (simp only: upt_conv_Cons) simp
  then have "a_hq A @ a_lq A = 1 # [2..<Suc 19]" by (simp only: A(2,3) append_Nil)
  from create_process_exhausted_loses_caller[OF A(1) umps_layout req f this] show ?thesis by blast
qed

text \<open>
  C7. A request to end a process kills exactly that process and its descendants. Every other
  process keeps its registers, its parent and its place in the ready queue or in the queue of its
  semaphore, and both counters are right again. The caller goes to the end of its ready queue if
  it survives, and the first ready process gets the processor.
\<close>

theorem term_process_kills_family:
  assumes run: "running U a s A" and U: "layout_ok U" and req: "sys_request U s TERMPROCESS"
    and pid: "pid = gpr (states s BIOSDATAPAGE) (reg_a1 U)"
    and target: "(if pid = 0 then Some a else search_by_pid U pid) = Some p" "p \<in> set (a_alive A)"
    and D: "D = descendants s A p"
    and q: "(filter (\<lambda>x. x \<notin> D) (a_hq A) @ (if a \<in> D then [] else at_prio PROCESS_PRIO_HIGH s a)) @
      (filter (\<lambda>x. x \<notin> D) (a_lq A) @ (if a \<in> D then [] else at_prio PROCESS_PRIO_LOW s a)) = b # bs"
  shows "\<exists>s' A'. exception_handler U s = Stop (Ldst (p_s (pcbs s' b))) s' \<and> running U b s' A' \<and> a_hq A' @ a_lq A' = bs \<and>
    set (a_alive A') = set (a_alive A) - D \<and> (\<forall>j. waiting s' A' j = filter (\<lambda>x. x \<notin> D) (waiting s A j)) \<and>
    (\<forall>x. x \<notin> D \<longrightarrow> p_parent (pcbs s' x) = p_parent (pcbs s x)) \<and>
    p_s (pcbs s' b) = loaded_state U (if b = a then (pcbs s a)\<lparr>p_s := past U (states s BIOSDATAPAGE)\<rparr> else pcbs s b) \<and>
    (\<forall>x. x \<notin> D \<longrightarrow> x \<noteq> b \<longrightarrow> p_s (pcbs s' x) = (if x = a then past U (states s BIOSDATAPAGE) else p_s (pcbs s x))) \<and> mem s' = mem s"
proof -
  note S = save_state_sel[OF run] save_state_waiting[OF run]
  obtain s1 A1 s' A' where s1: "kinv U s1 A1" "killed D (save_state s) A s1 A1" and g: "gave_way U s a s1 A1 b bs s' A'"
    by (rule term_pass[OF assms])
  have pc: "pcbs s1 x = pcbs (save_state s) x" if "x \<notin> D" for x using s1(2) that by (simp add: killed_def)
  have "b \<in> set (b # bs)" by simp
  then have bD: "b \<notin> D" unfolding q[symmetric] by (auto simp: at_prio_def split: if_splits)
  have pa: "pcbs s1 a = (pcbs s a)\<lparr>p_s := states s BIOSDATAPAGE\<rparr>" if "a \<notin> D"
    using pc[OF that] by (simp add: save_state_running(1)[OF run])
  have ls: "p_s (pcbs s' b) = loaded_state U (if b = a then (pcbs s a)\<lparr>p_s := past U (states s BIOSDATAPAGE)\<rparr> else pcbs s b)"
  proof (cases "b = a")
    case True
    then show ?thesis using g pa bD by (simp add: gave_way_def)
  next
    case False
    then show ?thesis using g pc[OF bD] S(7)[of b] by (simp add: gave_way_def)
  qed
  have st: "p_s (pcbs s' x) = (if x = a then past U (states s BIOSDATAPAGE) else p_s (pcbs s x))" if "x \<notin> D" "x \<noteq> b" for x
  proof (cases "x = a")
    case True
    then show ?thesis using g pa that by (simp add: gave_way_def)
  next
    case False
    then show ?thesis using g pc[OF that(1)] S(7)[of x] that(2) by (simp add: gave_way_def)
  qed
  have par: "p_parent (pcbs s' x) = p_parent (pcbs s x)" if "x \<notin> D" for x
    using g pc[OF that] by (simp add: gave_way_def S)
  have "set (a_alive A1) = set (a_alive A) - D" "\<And>j. waiting s1 A1 j = filter (\<lambda>x. x \<notin> D) (waiting s A j)" "mem s1 = mem s"
    using s1(2) by (simp_all add: killed_def same_user_def S)
  then show ?thesis using g ls st par unfolding gave_way_def by (intro exI[of _ s'] exI[of _ A']) simp
qed

theorem term_process_kills_family_witness:
  "\<exists>s' A'. exception_handler umps (request (\<lambda>_. 0) ((\<lambda>_. 0)(3 := -2, 4 := pcb_addr umps 1)) 2) = Stop (Ldst (p_s (pcbs s' 2))) s' \<and>
    running umps 2 s' A' \<and> 1 \<notin> set (a_alive A') \<and> a_hq A' @ a_lq A' = [0]"
proof -
  let ?g = "(\<lambda>_. 0)(3 := -2, 4 := pcb_addr umps 1) :: nat \<Rightarrow> u32" and ?m = "\<lambda>_. 0"
  obtain A where A: "running umps 0 (request ?m ?g 2) A" "a_hq A = []" "a_lq A = [1..<Suc 2]" "a_free A = [Suc 2..<MAXPROC]"
    by (rule request_runs[of 2 ?m ?g]) simp_all
  note R = runningD[OF A(1)]
  have lq: "a_lq A = [1, 2]" by (simp add: A(3) upt_rec)
  have al: "1 \<in> set (a_alive A)" "2 \<in> set (a_alive A)" by (simp_all add: a_alive_def lq)
  have req: "sys_request umps (request ?m ?g 2) TERMPROCESS" by (rule request_is) (simp add: syscall_numbers)
  have pid: "pcb_addr umps 1 = gpr (states (request ?m ?g 2) BIOSDATAPAGE) (reg_a1 umps)" by (simp add: umps_def)
  have t: "(if pcb_addr umps 1 = 0 then Some 0 else search_by_pid umps (pcb_addr umps 1)) = Some 1"
    using search_by_pid_addr[OF umps_layout, of 1] pcb_addr_nonzero[OF umps_layout, of 1] by (simp add: MAXPROC_def)
  have "descendants (request ?m ?g 2) A 1 \<subseteq> {1}"
  proof -
    have "c \<notin> {Suc 2..<MAXPROC}" "c < MAXPROC" if "c \<in> set (a_alive A)" for c
      using that krepD(1)[OF R(2)] by (auto simp: pcbs_wf_def A(4))
    then have "c \<le> 2" if "c \<in> set (a_alive A)" for c using that by fastforce
    then have "(1, c) \<notin> tree_rel (request ?m ?g 2) A" for c
      using crowd_parents[of 2] by (cases "c = 0") (auto simp: tree_rel_def)
    then show ?thesis by (auto simp: descendants_def elim: converse_rtranclE)
  qed
  then have D: "{1} = descendants (request ?m ?g 2) A 1" using descendants_self[of 1 "request ?m ?g 2" A] by blast
  have q: "(filter (\<lambda>x. x \<notin> {1}) (a_hq A) @ (if (0 :: nat) \<in> {1} then [] else at_prio PROCESS_PRIO_HIGH (request ?m ?g 2) 0)) @
      (filter (\<lambda>x. x \<notin> {1}) (a_lq A) @ (if (0 :: nat) \<in> {1} then [] else at_prio PROCESS_PRIO_LOW (request ?m ?g 2) 0)) = 2 # [0]"
    using request_prio[of 2 ?m ?g] by (simp add: A(2) lq)
  from term_process_kills_family[OF A(1) umps_layout req pid t al(1) D q] show ?thesis by auto
qed

section \<open>Free semaphores and yielding\<close>



text \<open>
  C40. A process that yields gives the processor to the first of the other ready ones, whatever its
  priority, and goes to the end of its own ready queue. Without another ready process the machine
  waits for an interrupt, although the yielding process is ready, if some process is blocked, and
  panics as in a deadlock if none is: the choice is made before the process is back in its queue.
\<close>

theorem yield_gives_way:
  assumes "running U a s A" and "layout_ok U" and "sys_request U s YIELD"
  shows "case a_hq A @ a_lq A of
      b # bs \<Rightarrow> \<exists>s' A'. exception_handler U s = Stop (Ldst (p_s (pcbs s' b))) s' \<and> running U b s' A' \<and>
        a_hq A' = remove1 b (a_hq A) @ at_prio PROCESS_PRIO_HIGH s a \<and>
        a_lq A' = remove1 b (a_lq A) @ at_prio PROCESS_PRIO_LOW s a \<and>
        p_s (pcbs s' a) = past U (states s BIOSDATAPAGE) \<and> p_s (pcbs s' b) = loaded_state U (pcbs s b) \<and>
        mem s' = mem s \<and> (\<forall>j. waiting s' A' j = waiting s A j)
    | [] \<Rightarrow> if a_blocked A = [] then out_why (exception_handler U s) = Panic
        else \<exists>s' A'. exception_handler U s = Stop Wait s' \<and> idle U s' A' \<and>
          a_hq A' = at_prio PROCESS_PRIO_HIGH s a \<and> a_lq A' = at_prio PROCESS_PRIO_LOW s a"
proof (cases "a_hq A @ a_lq A")
  case Nil
  then have "a_hq A = []" "a_lq A = []" by simp_all
  from lone_yield_pass[OF assms this] show ?thesis by (simp add: Nil)
next
  case (Cons b bs)
  show ?thesis unfolding Cons list.case by (rule yield_pass[OF assms Cons]) blast
qed

theorem yield_gives_way_witness:
  "(\<exists>s' A'. exception_handler umps (request (\<lambda>_. 0) ((\<lambda>_. 0)(3 := -10)) 2) = Stop (Ldst (p_s (pcbs s' 1))) s' \<and>
     running umps 1 s' A' \<and> a_lq A' = [2, 0]) \<and>
   out_why (exception_handler umps (request (\<lambda>_. 0) ((\<lambda>_. 0)(3 := -10)) 0)) = Panic"
proof -
  let ?g = "(\<lambda>_. 0)(3 := -10) :: nat \<Rightarrow> u32" and ?m = "\<lambda>_. 0"
  have req: "sys_request umps (request ?m ?g n) YIELD" for n by (rule request_is) (simp add: syscall_numbers)
  obtain A where A: "running umps 0 (request ?m ?g 2) A" "a_hq A = []" "a_lq A = [1..<Suc 2]"
    by (rule request_runs[of 2 ?m ?g]) simp_all
  have lq: "a_lq A = [1, 2]" by (simp add: A(3) upt_rec)
  obtain B where B: "running umps 0 (request ?m ?g 0) B" "a_hq B = []" "a_lq B = [1..<Suc 0]" "a_blocked B = []"
    by (rule request_runs[of 0 ?m ?g]) simp_all
  have "\<exists>s' A'. exception_handler umps (request ?m ?g 2) = Stop (Ldst (p_s (pcbs s' 1))) s' \<and> running umps 1 s' A' \<and> a_lq A' = [2, 0]"
    using yield_gives_way[OF A(1) umps_layout req] request_prio[of 2 ?m ?g] unfolding A(2) lq by auto
  moreover have "out_why (exception_handler umps (request ?m ?g 0)) = Panic"
    using yield_gives_way[OF B(1) umps_layout req] B(2-4) by simp
  ultimately show ?thesis by simp
qed

section \<open>Devices\<close>



text \<open>
  C16. The interrupt of a device for which processes wait wakes the first of them, gives it the status
  of the device in v0, and acknowledges the interrupt. A process that was running goes on in the
  state the machine saved, and the one woken is behind the other ready processes of its priority. From
  the wait, with nothing else ready, the one woken is loaded at once.
\<close>

theorem device_interrupt_serves_waiter:
  assumes "layout_ok U" and "lines_ok U" and "irq_pending U s line" and "irq_sem U s line = Some sem"
    and "irq_index U s line < DEVPERINT U" and "mem s sem \<noteq> 1" and "waiting s A sem = t # ts"
  shows "(\<forall>a. running U a s A \<longrightarrow> (\<exists>s' A'.
      exception_handler U s = Stop (Ldst (loaded_state U ((pcbs s a)\<lparr>p_s := states s BIOSDATAPAGE\<rparr>))) s' \<and> running U a s' A' \<and>
      a_hq A' = a_hq A @ at_prio PROCESS_PRIO_HIGH s t \<and> a_lq A' = a_lq A @ at_prio PROCESS_PRIO_LOW s t \<and>
      p_s (pcbs s' t) = set_reg (reg_v0 U) (mem s (fst (irq_regs U s line))) (p_s (pcbs s t)) \<and>
      (\<forall>j. waiting s' A' j = (if j = sem then ts else waiting s A j)) \<and> mem s' = (mem s)(snd (irq_regs U s line) := 1))) \<and>
    (idle U s A \<longrightarrow> a_hq A = [] \<longrightarrow> a_lq A = [] \<longrightarrow> p_prio (pcbs s t) \<in> {PROCESS_PRIO_HIGH, PROCESS_PRIO_LOW} \<longrightarrow> (\<exists>s' A'.
      exception_handler U s = Stop (Ldst (loaded_state U ((pcbs s t)
        \<lparr>p_s := set_reg (reg_v0 U) (mem s (fst (irq_regs U s line))) (p_s (pcbs s t))\<rparr>))) s' \<and> running U t s' A' \<and>
      (\<forall>j. waiting s' A' j = (if j = sem then ts else waiting s A j)) \<and> mem s' = (mem s)(snd (irq_regs U s line) := 1)))"
proof (intro conjI allI impI)
  fix a assume run: "running U a s A"
  show "\<exists>s' A'. exception_handler U s = Stop (Ldst (loaded_state U ((pcbs s a)\<lparr>p_s := states s BIOSDATAPAGE\<rparr>))) s' \<and> running U a s' A' \<and>
      a_hq A' = a_hq A @ at_prio PROCESS_PRIO_HIGH s t \<and> a_lq A' = a_lq A @ at_prio PROCESS_PRIO_LOW s t \<and>
      p_s (pcbs s' t) = set_reg (reg_v0 U) (mem s (fst (irq_regs U s line))) (p_s (pcbs s t)) \<and>
      (\<forall>j. waiting s' A' j = (if j = sem then ts else waiting s A j)) \<and> mem s' = (mem s)(snd (irq_regs U s line) := 1)"
    by (rule device_pass[OF run assms(3,2,4-7)]) blast
next
  assume idle: "idle U s A" "a_hq A = []" "a_lq A = []" "p_prio (pcbs s t) \<in> {PROCESS_PRIO_HIGH, PROCESS_PRIO_LOW}"
  show "\<exists>s' A'. exception_handler U s = Stop (Ldst (loaded_state U ((pcbs s t)
        \<lparr>p_s := set_reg (reg_v0 U) (mem s (fst (irq_regs U s line))) (p_s (pcbs s t))\<rparr>))) s' \<and> running U t s' A' \<and>
      (\<forall>j. waiting s' A' j = (if j = sem then ts else waiting s A j)) \<and> mem s' = (mem s)(snd (irq_regs U s line) := 1)"
    by (rule device_wake_pass[OF idle(1) assms(1,3,2,4-7) idle(2-4)]) (auto simp del: fun_upd_apply)
qed

theorem device_interrupt_serves_waiter_witness:
  "\<exists>s A s' A'. idle umps s A \<and> exception_handler umps s = Stop (Ldst (loaded_state umps ((pcbs s 0)\<lparr>p_s := set_reg 1 0 (p_s (pcbs s 0))\<rparr>))) s' \<and>
    running umps 0 s' A' \<and> mem s' 0x10000058 = 1"
proof -
  obtain s A where s: "idle umps s A" "waiting s A 0x20004100 = [0]" "a_hq A = []" "a_lq A = []" "p_prio (pcbs s 0) = PROCESS_PRIO_LOW"
    by (rule lone_io)
  let ?s = "interrupted (\<lambda>_. 0) 0x800 s"
  have idle: "idle umps ?s A" using s(1) by (simp add: idle_def interrupted_def outside_kinv)
  note d = disk_interrupt(1)[of "\<lambda>_. 0" s] disk_interrupt(2-4)[OF word_zero_le, of "0x800" s]
  have i8: "irq_index umps ?s 3 < DEVPERINT umps" unfolding d(2) by (simp add: umps_def)
  have m: "mem ?s 0x20004100 \<noteq> 1" by simp
  have w: "waiting ?s A 0x20004100 = 0 # []" by (simp add: interrupted_waiting s(2))
  have v0: "reg_v0 umps = 1" by (simp add: umps_def)
  from device_interrupt_serves_waiter[OF umps_layout umps_lines d(1,3) i8 m w] idle s(3-5)
  obtain s' A' where "exception_handler umps ?s = Stop (Ldst (loaded_state umps ((pcbs ?s 0)\<lparr>p_s := set_reg 1 0 (p_s (pcbs ?s 0))\<rparr>))) s'"
    "running umps 0 s' A'" "mem s' = (mem ?s)(0x10000058 := 1)" unfolding d(4) v0 by auto
  then show ?thesis using idle by (intro exI[of _ ?s] exI[of _ A] exI[of _ s'] exI[of _ A']) simp
qed

section \<open>The pseudo-clock\<close>

text \<open>
  C15. A tick of the pseudo-clock wakes all processes that wait for it into their ready queues, in
  the order in which they came, and leaves the semaphore of the clock at 0; no other
  queue changes. A process that was running goes on in the state the machine saved. From the wait, with nothing else ready, the
  first of those woken, high priority before low, is loaded.
\<close>

theorem clock_tick_wakes_all:
  assumes "layout_ok U" and "irq_pending U s line" and "clock_line U line" and "mem s (addr_sem_it U) \<noteq> 1"
    and "ws = waiting s A (addr_sem_it U)"
  shows "(\<forall>a. running U a s A \<longrightarrow> (\<exists>s' A'.
      exception_handler U s = Stop (Ldst (loaded_state U ((pcbs s a)\<lparr>p_s := states s BIOSDATAPAGE\<rparr>))) s' \<and> running U a s' A' \<and>
      a_hq A' = a_hq A @ of_prio PROCESS_PRIO_HIGH s ws \<and> a_lq A' = a_lq A @ of_prio PROCESS_PRIO_LOW s ws \<and>
      (\<forall>p. p \<noteq> a \<longrightarrow> p_s (pcbs s' p) = p_s (pcbs s p)) \<and>
      (\<forall>j. waiting s' A' j = (if j = addr_sem_it U then [] else waiting s A j)) \<and> mem s' = (mem s)(addr_sem_it U := 0))) \<and>
    (\<forall>b bs. idle U s A \<longrightarrow> a_hq A = [] \<longrightarrow> a_lq A = [] \<longrightarrow> of_prio PROCESS_PRIO_HIGH s ws @ of_prio PROCESS_PRIO_LOW s ws = b # bs \<longrightarrow>
      (\<exists>s' A'. exception_handler U s = Stop (Ldst (loaded_state U (pcbs s b))) s' \<and> running U b s' A' \<and> a_hq A' @ a_lq A' = bs \<and>
      (\<forall>j. waiting s' A' j = (if j = addr_sem_it U then [] else waiting s A j)) \<and> mem s' = (mem s)(addr_sem_it U := 0)))"
proof (intro conjI allI impI)
  fix a assume run: "running U a s A"
  show "\<exists>s' A'. exception_handler U s = Stop (Ldst (loaded_state U ((pcbs s a)\<lparr>p_s := states s BIOSDATAPAGE\<rparr>))) s' \<and> running U a s' A' \<and>
      a_hq A' = a_hq A @ of_prio PROCESS_PRIO_HIGH s ws \<and> a_lq A' = a_lq A @ of_prio PROCESS_PRIO_LOW s ws \<and>
      (\<forall>p. p \<noteq> a \<longrightarrow> p_s (pcbs s' p) = p_s (pcbs s p)) \<and>
      (\<forall>j. waiting s' A' j = (if j = addr_sem_it U then [] else waiting s A j)) \<and> mem s' = (mem s)(addr_sem_it U := 0)"
    by (rule clock_pass[OF run assms(2-5)]) blast
next
  fix b bs assume idle: "idle U s A" "a_hq A = []" "a_lq A = []" "of_prio PROCESS_PRIO_HIGH s ws @ of_prio PROCESS_PRIO_LOW s ws = b # bs"
  show "\<exists>s' A'. exception_handler U s = Stop (Ldst (loaded_state U (pcbs s b))) s' \<and> running U b s' A' \<and> a_hq A' @ a_lq A' = bs \<and>
      (\<forall>j. waiting s' A' j = (if j = addr_sem_it U then [] else waiting s A j)) \<and> mem s' = (mem s)(addr_sem_it U := 0)"
    by (rule clock_wake_pass[OF idle(1) assms(1-5) idle(2-4)]) (auto simp del: fun_upd_apply)
qed

theorem clock_tick_wakes_all_witness:
  "\<exists>s1 s3 A3. exception_handler umps (request (\<lambda>_. 0) ((\<lambda>_. 0)(3 := -7)) 2) = Stop (Ldst (p_s (pcbs s1 1))) s1 \<and>
    exception_handler umps (interrupted (\<lambda>_. 0) 0x400 s1) = Stop (Ldst (loaded_state umps ((pcbs s1 1)\<lparr>p_s := zero_state\<rparr>))) s3 \<and>
    running umps 1 s3 A3 \<and> a_lq A3 = [2, 0]"
proof -
  let ?g = "(\<lambda>_. 0)(3 := -7) :: nat \<Rightarrow> u32" and ?m = "\<lambda>_ :: u32. 0 :: u32"
  let ?s = "request ?m ?g 2"
  obtain A where A: "running umps 0 ?s A" "a_hq A = []" "a_lq A = [1..<Suc 2]" "\<And>j. waiting ?s A j = []"
    by (rule request_runs[of 2 ?m ?g]) simp_all
  have req: "sys_request umps ?s CLOCKWAIT" by (rule request_is) (simp add: syscall_numbers)
  have q: "a_hq A @ a_lq A = 1 # [2]" by (simp add: A(2,3) upt_rec)
  have m: "mem ?s (addr_sem_it umps) = 0" "addr_sem_it umps \<noteq> NULL" by (simp_all add: umps_def NULL_def)
  obtain s1 A1 where s1: "exception_handler umps ?s = Stop (Ldst (p_s (pcbs s1 1))) s1" "running umps 1 s1 A1"
    "\<And>j. waiting s1 A1 j = (if j = addr_sem_it umps then waiting ?s A (addr_sem_it umps) @ [0] else waiting ?s A j)"
    "a_hq A1 @ a_lq A1 = [2]" "\<And>p. p_prio (pcbs s1 p) = p_prio (pcbs ?s p)"
    by (rule clock_wait_pass[OF A(1) umps_layout req m q]) blast
  let ?s2 = "interrupted ?m 0x400 s1"
  have ws: "[0] = waiting ?s2 A1 (addr_sem_it umps)" by (simp only: interrupted_waiting s1(3) A(4)) simp
  have pr: "at_prio PROCESS_PRIO_HIGH ?s2 0 = []" "at_prio PROCESS_PRIO_LOW ?s2 0 = [0]"
    using request_prio[of 2 ?m ?g] by (simp_all add: at_prio_def s1(5))
  have m2: "mem ?s2 (addr_sem_it umps) \<noteq> 1" by simp
  note run2 = interrupted_running[OF s1(2), of ?m "0x400"]
  have "prio_ok ?s A" using runningD(1)[OF A(1)] by (simp add: kinv_def)
  then have "p_prio (pcbs ?s 2) = PROCESS_PRIO_LOW" by (rule prio_okD(1)) (simp add: A(3))
  then have "2 \<notin> set (a_hq A1)"
    using prio_okD(2)[of s1 A1 2] runningD(1)[OF s1(2)] s1(5)[of 2] by (auto simp: kinv_def PROCESS_PRIO_LOW_def PROCESS_PRIO_HIGH_def)
  then have "a_lq A1 = [2]" using s1(4) by (cases "a_hq A1") auto
  then obtain s3 A3 where "exception_handler umps ?s2 = Stop (Ldst (loaded_state umps ((pcbs ?s2 1)\<lparr>p_s := states ?s2 BIOSDATAPAGE\<rparr>))) s3"
    "running umps 1 s3 A3" "a_lq A3 = [2] @ of_prio PROCESS_PRIO_LOW ?s2 [0]"
    using clock_tick_wakes_all[OF umps_layout clock_interrupt(1,2) m2 ws] run2 by auto
  then show ?thesis using s1(1) by (intro exI[of _ s1] exI[of _ s3] exI[of _ A3]) (simp add: pr)
qed

section \<open>Devices nobody waits for\<close>

text \<open>
  C38. When the semaphore of the device is not 0 and nobody waits there, the request takes the
  semaphore without blocking but is still answered with the action for a blocked caller: the next
  process runs, and the caller, alive, is left in no queue, so it never runs again.
\<close>

theorem do_io_loses_caller:
  assumes "running U a s A" and "layout_ok U" and "sys_request U s DOIO"
    and "cmd = gpr (states s BIOSDATAPAGE) (reg_a1 U)" and "val = gpr (states s BIOSDATAPAGE) (reg_a2 U)" and "cmd \<noteq> 0" and "cmd \<noteq> NULL"
    and "io_sem U cmd = Some sem" and "mem s sem \<noteq> 0" and "waiting s A sem = []" and "a_hq A @ a_lq A = b # bs"
  shows "\<exists>s' A'. exception_handler U s = Stop (Ldst (p_s (pcbs s' b))) s' \<and> running U b s' A' \<and> left_behind a s' A' \<and>
    a_hq A' @ a_lq A' = bs \<and> mem s' = (mem s)(sem := 0, cmd := val)"
proof -
  note sv = save_state_running[OF assms(1)]
  let ?s1 = "store_mem cmd val (store_mem sem 0 (save_state s))"
  obtain s' A' where g: "gave_way U s a ?s1 A b bs s' A'" by (rule io_lost_pass[OF assms])
  have "running U a ?s1 A" using sv(2) store_mem_kinv[OF store_mem_kinv[OF runningD(1)[OF sv(2)]]] by (simp add: running_def)
  then have "left_behind a s' A'" by (rule gave_way_left[OF _ assms(11) g])
  then show ?thesis using g unfolding gave_way_def by (intro exI[of _ s'] exI[of _ A']) (simp add: save_state_sel[OF assms(1)])
qed

theorem do_io_loses_caller_witness:
  "\<exists>s' A'. exception_handler umps (request (\<lambda>_. 1) ((\<lambda>_. 0)(3 := -5, 4 := 0x10000058, 5 := 7)) 1) = Stop (Ldst (p_s (pcbs s' 1))) s' \<and>
    running umps 1 s' A' \<and> left_behind 0 s' A'"
proof -
  let ?g = "(\<lambda>_. 0)(3 := -5, 4 := 0x10000058, 5 := 7) :: nat \<Rightarrow> u32" and ?m = "\<lambda>_ :: u32. 1 :: u32"
  let ?s = "request ?m ?g 1"
  obtain A where A: "running umps 0 ?s A" "a_hq A = []" "a_lq A = [1..<Suc 1]" "\<And>j. waiting ?s A j = []"
    by (rule request_runs[of 1 ?m ?g]) simp_all
  have req: "sys_request umps ?s DOIO" by (rule request_is) (simp add: syscall_numbers)
  have args: "0x10000058 = gpr (states ?s BIOSDATAPAGE) (reg_a1 umps)" "7 = gpr (states ?s BIOSDATAPAGE) (reg_a2 umps)"
    "(0x10000058 :: u32) \<noteq> 0" "0x10000058 \<noteq> NULL" "mem ?s 0x20004100 \<noteq> 0"
    by (simp_all add: umps_def NULL_def)
  have q: "a_hq A @ a_lq A = 1 # []" by (simp add: A(2,3))
  from do_io_loses_caller[OF A(1) umps_layout req args(1-4) disk_sem args(5) A(4) q] show ?thesis by blast
qed

text \<open>
  C37. The interrupt of a device for which nobody waits disturbs the process that happens to run.
  If its semaphore is 1, because an earlier completion is unclaimed, that process is blocked in the
  queue of the semaphore, and goes on running all the same. Otherwise the semaphore becomes
  1, but that process is taken for the one to tell: it goes on with the status of the device in v0,
  in place of what it had computed there.
\<close>

theorem unclaimed_interrupt_disturbs_running:
  assumes "running U a s A" and "irq_pending U s line" and "lines_ok U" and "irq_sem U s line = Some sem"
    and "irq_index U s line < DEVPERINT U"
  shows "(mem s sem = 1 \<longrightarrow> sem \<noteq> NULL \<longrightarrow> (\<exists>s' A'.
      exception_handler U s = Stop (Ldst (loaded_state U ((pcbs s a)\<lparr>p_s := states s BIOSDATAPAGE\<rparr>))) s' \<and>
      kinv U s' A' \<and> act_proc s' = Some a \<and> a \<in> set (waiting s' A' sem))) \<and>
    (mem s sem \<noteq> 1 \<longrightarrow> waiting s A sem = [] \<longrightarrow> fst (irq_regs U s line) \<noteq> sem \<longrightarrow> (\<exists>s'.
      exception_handler U s = Stop (Ldst (loaded_state U ((pcbs s a)
        \<lparr>p_s := set_reg (reg_v0 U) (mem s (fst (irq_regs U s line))) (states s BIOSDATAPAGE)\<rparr>))) s' \<and>
      running U a s' A \<and> mem s' = (mem s)(sem := 1, snd (irq_regs U s line) := 1)))"
proof (intro conjI impI)
  assume m: "mem s sem = 1" "sem \<noteq> NULL"
  show "\<exists>s' A'. exception_handler U s = Stop (Ldst (loaded_state U ((pcbs s a)\<lparr>p_s := states s BIOSDATAPAGE\<rparr>))) s' \<and>
      kinv U s' A' \<and> act_proc s' = Some a \<and> a \<in> set (waiting s' A' sem)"
    by (rule unclaimed_pass[OF assms m]) blast
next
  assume m: "mem s sem \<noteq> 1" "waiting s A sem = []" "fst (irq_regs U s line) \<noteq> sem"
  show "\<exists>s'. exception_handler U s = Stop (Ldst (loaded_state U ((pcbs s a)
        \<lparr>p_s := set_reg (reg_v0 U) (mem s (fst (irq_regs U s line))) (states s BIOSDATAPAGE)\<rparr>))) s' \<and>
      running U a s' A \<and> mem s' = (mem s)(sem := 1, snd (irq_regs U s line) := 1)"
    by (rule stray_pass[OF assms m]) blast
qed

theorem unclaimed_interrupt_disturbs_running_witness:
  "(\<exists>s' A'. exception_handler umps (interrupted (\<lambda>_. 1) 0x800 first_run) =
       Stop (Ldst (loaded_state umps ((pcbs first_run 0)\<lparr>p_s := zero_state\<rparr>))) s' \<and>
     act_proc s' = Some 0 \<and> 0 \<in> set (waiting s' A' 0x20004100)) \<and>
   (\<exists>s'. exception_handler umps (interrupted (\<lambda>_. 0) 0x800 first_run) =
       Stop (Ldst (loaded_state umps ((pcbs first_run 0)\<lparr>p_s := set_reg 1 0 zero_state\<rparr>))) s' \<and> running umps 0 s' main_abs)"
proof -
  note run = interrupted_running[OF first_run(2)]
  note d = disk_interrupt(1)[of "\<lambda>_. 0" first_run] disk_interrupt(2-4)[OF word_zero_le, of "0x800" first_run]
  note e = disk_interrupt(1)[of "\<lambda>_. 1" first_run] disk_interrupt(2-4)[OF order_refl, of "0x800" first_run]
  have i8: "irq_index umps (interrupted (\<lambda>_. 0) 0x800 first_run) 3 < DEVPERINT umps"
    "irq_index umps (interrupted (\<lambda>_. 1) 0x800 first_run) 3 < DEVPERINT umps"
    unfolding d(2) e(2) by (simp_all add: umps_def)
  have nn: "(0x20004100 :: u32) \<noteq> NULL" and v0: "reg_v0 umps = 1" by (simp_all add: NULL_def umps_def)
  have w: "waiting (interrupted (\<lambda>_. 0) 0x800 first_run) main_abs 0x20004100 = []"
    by (rule waiting_none) (simp add: main_abs_def)
  show ?thesis
    using unclaimed_interrupt_disturbs_running[OF run d(1) umps_lines d(3) i8(1)]
      unclaimed_interrupt_disturbs_running[OF run e(1) umps_lines e(3) i8(2)] w nn unfolding d(4) v0 by auto
qed

end
