(* ===== verification/Kernel_Spec.thy ===== *)
theory Kernel_Spec
  imports Request_Example
begin

text \<open>
  The properties of the kernel that rest on the contracts of the library and on whole passes:
  mutual exclusion by its semaphores, the order in which its queues and its pool hand things
  out, the round robin of the low priority processes, and system calls from the request to the
  processor state that answers it.
\<close>

section \<open>Mutual exclusion\<close>

text \<open>Computing, and giving the processor to another process, are apart from every semaphore.\<close>

lemma apart_outside: "m k = mem s k \<Longrightarrow> apart U k s (outside m st su h s)"
  unfolding apart_def
proof (intro conjI allI impI)
  fix A assume "kinv U s A"
  then have "kinv U (outside m st su h s) A" by (rule outside_kinv)
  moreover have "waiting (outside m st su h s) A k = waiting s A k" by (rule outside_waiting)
  ultimately show "\<exists>A'. kinv U (outside m st su h s) A' \<and> waiting (outside m st su h s) A' k = waiting s A k" by blast
qed (simp add: outside_def)

lemma apart_dispatched:
  assumes "kinv U s A" and "dispatched U p s A s'"
  shows "apart U k s s'"
proof (rule apartI[OF assms(1)])
  show "kinv U s' (a_requeue s (a_deq p A))" using assms(2) by (simp add: dispatched_def running_def)
  show "mem s' k = mem s k" using assms(2) by (simp add: dispatched_def)
  have "a_asl (a_requeue s (a_deq p A)) = a_asl A" by (simp add: a_requeue_def split: option.split)
  then show "waiting s' (a_requeue s (a_deq p A)) k = waiting s A k"
    using assms(2) by (intro waiting_cong) (simp_all add: dispatched_def)
qed



section \<open>Blocking, waking and passing up\<close>







text \<open>
  C29. A page fault, a trap, or a request that is not one for the kernel, of a process with a support
  structure, is passed up through the whole handler: the state the machine saved is stored in that
  structure and the processor goes on at the context the structure gives for that kind of
  exception. A process without one dies with its progeny, and the next ready process runs.
\<close>

theorem exceptions_passed_up:
  assumes "running U a s A" and "layout_ok U" and "passed_kind U s = Some kind"
  shows "let sa = p_supportStruct (pcbs s a); c = sup_exceptContext (supports s sa) kind; D = descendants s A a in
    if sa \<noteq> NULL
    then \<exists>s'. exception_handler U s = Stop (Ldcxt (cx_stackPtr c) (cx_status c) (cx_pc c)) s' \<and>
      sup_exceptState (supports s' sa) kind = states s BIOSDATAPAGE \<and> running U a s' A
    else \<forall>b bs. filter (\<lambda>x. x \<notin> D) (a_hq A @ a_lq A) = b # bs \<longrightarrow>
      (\<exists>s' A'. exception_handler U s = Stop (Ldst (p_s (pcbs s' b))) s' \<and> running U b s' A' \<and>
        set (a_alive A') = set (a_alive A) - D \<and> a_hq A' @ a_lq A' = bs)"
proof (cases "p_supportStruct (pcbs s a) = NULL")
  case True
  show ?thesis unfolding Let_def using True killed_pass[OF assms True] by simp metis
next
  case False
  show ?thesis unfolding Let_def using False
    by (rule_tac passed_up_pass[OF assms(1,3) False]) (auto simp: set_exceptState_def)
qed

definition faulting :: "cpu3 kst" where
  "faulting = outside (\<lambda>_. 0) (\<lambda>_. zero_state\<lparr>cause := 8\<rparr>)
     (\<lambda>_. (supports power_on 0)\<lparr>sup_exceptContext := (\<lambda>_. \<lparr>cx_stackPtr = 0x20020000, cx_status = 0, cx_pc = 0x20001400\<rparr>)\<rparr>)
     (8, 0, 0) supported"

theorem exceptions_passed_up_witness:
  "\<exists>s'. exception_handler umps faulting = Stop (Ldcxt 0x20020000 0 0x20001400) s' \<and> running umps 0 s' main_abs"
proof -
  have run: "running umps 0 faulting main_abs" unfolding faulting_def by (rule outside_running[OF supported(1)])
  have kind: "passed_kind umps faulting = Some PGFAULTEXCEPT"
    by (simp add: passed_kind_def faulting_def outside_def umps_def zero_state_def)
  have sa: "p_supportStruct (pcbs faulting 0) = 0x20006000" using supported(2) by (simp add: faulting_def outside_def)
  from exceptions_passed_up[OF run umps_layout kind] show ?thesis
    unfolding sa by (auto simp: Let_def NULL_def faulting_def outside_def)
qed

section \<open>The order of the queues and of the pool\<close>

text \<open>
  C13. A ready queue and the queue of a semaphore are served in the order of arrival: a process
  that is put in leaves after all those that were there, as many rounds as there are processes
  take out all of them, and then the queue is empty.
\<close>

theorem queues_serve_in_order:
  assumes "kinv U s A" and "p \<in> set (a_det A)" and "k \<noteq> NULL"
  shows "(\<exists>s'. serve (remove_proc_q LQueue) (Suc (length (a_lq A))) (insert_proc_q LQueue p s) = Ret (a_lq A @ [p]) s' \<and>
      remove_proc_q LQueue s' = Ret None s') \<and>
    (\<exists>s'. serve (remove_proc_q HQueue) (Suc (length (a_hq A))) (insert_proc_q HQueue p s) = Ret (a_hq A @ [p]) s' \<and>
      remove_proc_q HQueue s' = Ret None s') \<and>
    (\<exists>s'. serve (remove_blocked k) (Suc (length (waiting s A k))) (out_st (insert_blocked k p s)) = Ret (waiting s A k @ [p]) s' \<and>
      remove_blocked k s' = Ret None s')"
proof -
  have k: "krep U s A" using assms(1) by (simp add: kinv_def)
  note K = krepD[OF k]
  note u = det_unlinked[OF K(1) assms(2)]
  have "queue_fits LQueue p (a_lq A) s" "queue_fits HQueue p (a_hq A) s" using K(3) u by (auto simp: queue_fits_def)
  moreover have "sem_fits k p (waiting s A k) s" using k assms(2,3) by (auto simp: sem_fits_def)
  ultimately show ?thesis using pq.put_then_serve pq.take_none sq.put_then_serve sq.take_none by metis
qed

theorem queues_serve_in_order_witness:
  "\<exists>s'. serve (remove_proc_q LQueue) 4 (insert_proc_q LQueue 0 (crowd 3)) = Ret [1, 2, 3, 0] s'"
proof -
  obtain A where A: "running umps 0 (crowd 3) A" "a_lq A = [1..<Suc 3]" using crowd[of 3] by auto
  have nn: "(0x20005000 :: u32) \<noteq> NULL" by (simp add: NULL_def)
  from queues_serve_in_order[OF runningD(1)[OF A(1)] runningD(5)[OF A(1)] nn] show ?thesis
    by (auto simp: A(2) upt_rec numeral_eq_Suc)
qed



section \<open>Round robin\<close>

text \<open>
  C4. The low priority processes share the processor in turns. When no high priority process is
  ready and only the ends of time slices enter the kernel, whatever the processes compute in
  between, the one that runs after n slices is the n-th of the running process and the queue behind it,
  counted round: each gets every slice in turn, and the kernel always finds one.
\<close>

theorem round_robin:
  assumes "slices U s0 n m" and "running U a s0 A" and "layout_ok U"
    and "p_prio (pcbs s0 a) = PROCESS_PRIO_LOW" and "a_hq A = []"
  shows "\<exists>b s A'. b = (a # a_lq A) ! (n mod Suc (length (a_lq A))) \<and> m = (Running, s) \<and> running U b s A' \<and>
    b # a_lq A' = rotate n (a # a_lq A) \<and> a_hq A' = []"
proof -
  obtain b s A' where r: "m = (Running, s)" "running U b s A'" "b # a_lq A' = rotate n (a # a_lq A)" "a_hq A' = []"
    using slices_rotate[OF assms] by blast
  have "b = (a # a_lq A) ! (n mod Suc (length (a_lq A)))"
    using arg_cong[OF r(3), of hd] by (simp add: hd_rotate_conv_nth)
  with r show ?thesis by blast
qed

theorem round_robin_witness:
  "\<exists>s. slices umps (crowd 2) 1 (Running, s) \<and> act_proc s = Some 1"
proof -
  obtain A where A: "running umps 0 (crowd 2) A" "a_lq A = [1..<Suc 2]" "a_hq A = []"
    "p_prio (pcbs (crowd 2) 0) = PROCESS_PRIO_LOW" using crowd[of 2] by auto
  let ?s = "outside (mem (crowd 2)) (\<lambda>_. zero_state) (supports (crowd 2)) (0, 0x200, 0) (crowd 2)"
  have "slice_over umps ?s"
    by (simp add: slice_over_def pending_line_def outside_def umps_def zero_state_def upt_rec)
  then have "slices umps (crowd 2) (Suc 0) (kernel_exit (exception_handler umps ?s))"
    by (rule slices.slice[OF slices.first])
  then have sl: "slices umps (crowd 2) 1 (kernel_exit (exception_handler umps ?s))" by simp
  from round_robin[OF sl A(1) umps_layout A(4,3)] obtain b s A' where
    b: "b = (0 # a_lq A) ! (1 mod Suc (length (a_lq A)))" and
    r: "kernel_exit (exception_handler umps ?s) = (Running, s)" "running umps b s A'" by blast
  have "b = 1" by (simp add: b A(2))
  then show ?thesis using sl runningD(3)[OF r(2)] unfolding r(1) by blast
qed

section \<open>System calls that answer\<close>

text \<open>
  C17. A process in kernel mode that asks for its CPU time, its support structure, its PID or its
  parent's goes on past the request with the answer in v0: the whole pass through the kernel, from
  the exception to the state it loads, changes nothing else of the caller's registers but t9, and
  no memory and no other process. The CPU time it answers does not yet count the current slice.
\<close>

theorem syscall_returns_answer:
  assumes "running U a s A" and "layout_ok U" and "sys_request U s n" and "n \<in> {GETTIME, GETSUPPORTPTR, GETPROCESSID}"
  shows "\<exists>s'. exception_handler U s =
      Stop (Ldst ((answered U (answer U s a n) (states s BIOSDATAPAGE))
        \<lparr>status := loaded_status U ((pcbs s a)\<lparr>p_s := states s BIOSDATAPAGE\<rparr>)\<rparr>)) s' \<and>
    running U a s' A \<and> mem s' = mem s \<and> supports s' = supports s \<and> (\<forall>p. p \<noteq> a \<longrightarrow> pcbs s' p = pcbs s p)"
  by (rule answering_pass[OF assms]) blast

definition pid_request :: "cpu3 kst" where
  "pid_request = outside (\<lambda>_. 0)
     (\<lambda>_. zero_state\<lparr>cause := 0x20, pc_epc := 0x20001300, gpr := (\<lambda>_. 0)(3 := -9)\<rparr>) (supports first_run) (0, 0, 0) first_run"

theorem syscall_returns_answer_witness:
  "\<exists>st s'. exception_handler umps pid_request = Stop (Ldst st) s' \<and> gpr st 1 = pcb_addr umps 0 \<and> pc_epc st = 0x20001304"
proof -
  have run: "running umps 0 pid_request main_abs" unfolding pid_request_def by (rule outside_running[OF first_run(2)])
  have "sys_request umps pid_request GETPROCESSID"
    by (simp add: sys_request_def sys_code_def pid_request_def outside_def umps_def zero_state_def syscall_numbers)
  then obtain st s' where r: "exception_handler umps pid_request = Stop (Ldst st) s'"
    "st = (answered umps (answer umps pid_request 0 GETPROCESSID) (states pid_request BIOSDATAPAGE))
        \<lparr>status := loaded_status umps ((pcbs pid_request 0)\<lparr>p_s := states pid_request BIOSDATAPAGE\<rparr>)\<rparr>"
    using syscall_returns_answer[OF run umps_layout] by blast
  have reg: "reg_v0 umps = 1" "reg_t9 umps = 23" "reg_a1 umps = 4" "WORD_SIZE umps = 4" by (simp_all add: umps_def)
  have "answer umps pid_request 0 GETPROCESSID = pcb_addr umps 0"
    by (simp add: answer_def reg pid_request_def outside_def syscall_numbers)
  then have "gpr st 1 = pcb_addr umps 0" "pc_epc st = 0x20001304"
    by (simp_all add: r(2) answered_def past_def set_reg_def reg) (simp add: pid_request_def outside_def)
  with r(1) show ?thesis by blast
qed

end
