(* ===== verification/P1_Test.thy ===== *)
theory P1_Test
  imports Kernel
begin

text \<open>
  The phase 1 test program of the repository, \<open>old_test/p1test.c\<close>, on the model of the PCB and
  semaphore modules. \<open>print\<close> and \<open>print_err\<close> come from a header that is not in the repository, so
  they are parameters; the globals of the program are threaded as values.
\<close>

section \<open>The program\<close>

text \<open>A \<open>for\<close> loop over the values of its counter, with the variables it assigns.\<close>

fun kfor :: "'i list \<Rightarrow> ('i \<Rightarrow> 'a \<Rightarrow> ('a, 'h) km) \<Rightarrow> 'a \<Rightarrow> ('a, 'h) km" where
  "kfor [] body x = kreturn x"
| "kfor (i # is) body x = kbind (body i x) (kfor is body)"

type_synonym 'h printer = "string \<Rightarrow> (unit, 'h) km"

text \<open>A check that reports an error, and the use of a pointer to a PCB.\<close>

definition check :: "'h printer \<Rightarrow> bool \<Rightarrow> string \<Rightarrow> (unit, 'h) km" where
  "check print_err bad msg = (if bad then print_err msg else kreturn ())"

definition with_pcb :: "nat option \<Rightarrow> (nat \<Rightarrow> ('a, 'h) km) \<Rightarrow> ('a, 'h) km" where
  "with_pcb p f = (case p of None \<Rightarrow> kstop Wild | Some i \<Rightarrow> f i)"

definition print_line :: "'h printer \<Rightarrow> string \<Rightarrow> (unit, 'h) km" where
  "print_line print msg = print (msg @ [CHR 0x0A])"

definition p1_pool :: "'h plat \<Rightarrow> 'h printer \<Rightarrow> 'h printer \<Rightarrow> (nat \<Rightarrow> nat option) \<Rightarrow> (nat \<Rightarrow> nat option, 'h) km" where
  "p1_pool U print print_err procp0 =
     kseq (print_line print ''Phase 1 test'')
    (kseq (kmodify init_pcbs)
    (kseq (print_line print ''Initialized process control blocks   '')
    (kbind (kfor [0..<MAXPROC] (\<lambda>i procp.
        kbind (alloc_pcb U) (\<lambda>r.
          kseq (check print_err (r = None) ''alloc_pcb: unexpected NULL   '') (kreturn (procp(i := r))))) procp0)
      (\<lambda>procp.
        kbind (alloc_pcb U) (\<lambda>r.
          kseq (check print_err (r \<noteq> None) ''alloc_pcb: allocated more than MAXPROC entries   '')
         (kseq (print_line print ''alloc_pcb ok   '')
         (kseq (kfor [10..<MAXPROC] (\<lambda>i _. with_pcb (procp i) (\<lambda>p. kmodify (free_pcb p))) ())
         (kseq (print_line print ''freed 10 entries   '')
               (kreturn procp)))))))))"

text \<open>The loop that fills the queue also remembers the first, the middle and the last process.\<close>

definition p1_insert :: "'h plat \<Rightarrow> 'h printer \<Rightarrow> nat \<Rightarrow>
    nat option \<times> nat option \<times> nat option \<Rightarrow> (nat option \<times> nat option \<times> nat option, 'h) km" where
  "p1_insert U print_err i v =
     (case v of (firstproc, midproc, lastproc) \<Rightarrow>
        kbind (alloc_pcb U) (\<lambda>q.
          kseq (check print_err (q = None) ''alloc_pcb: unexpected NULL while insert   '')
         (kseq (with_pcb q (\<lambda>p. kmodify (insert_proc_q (LocalHead 0) p)))
               (kreturn (if i = 0 then (q, midproc, lastproc)
                         else if i = 5 then (firstproc, q, lastproc)
                         else if i = 9 then (firstproc, midproc, q)
                         else (firstproc, midproc, lastproc))))))"

definition p1_fill :: "'h plat \<Rightarrow> 'h printer \<Rightarrow> 'h printer \<Rightarrow> (nat option \<times> nat option \<times> nat option, 'h) km" where
  "p1_fill U print print_err =
     (let qa = LocalHead 0 in
      kseq (kmodify (upd_lh (INIT_LIST_HEAD qa)))
     (kseq (kread (\<lambda>s. check print_err (\<not> empty_proc_q qa s) ''empty_proc_q: unexpected FALSE   ''))
     (kseq (print_line print ''Inserting...   '')
     (kbind (kfor [0..<10] (p1_insert U print_err) (None, None, None)) (\<lambda>v.
      kseq (print_line print ''inserted 10 elements   '')
     (kseq (kread (\<lambda>s. check print_err (empty_proc_q qa s) ''empty_proc_q: unexpected TRUE''))
           (kreturn v)))))))"

definition p1_out :: "'h printer \<Rightarrow> 'h printer \<Rightarrow> (nat \<Rightarrow> nat option) \<Rightarrow> nat option \<Rightarrow> nat option \<Rightarrow> (unit, 'h) km" where
  "p1_out print print_err procp firstproc midproc =
     (let qa = LocalHead 0 in
      kbind (head_proc_q qa) (\<lambda>h.
      kseq (check print_err (h \<noteq> firstproc) ''head_proc_q failed   '')
     (kbind (with_pcb firstproc (out_proc_q qa)) (\<lambda>q.
      kseq (check print_err (q = None \<or> q \<noteq> firstproc) ''out_proc_q failed on first entry   '')
     (kseq (with_pcb q (\<lambda>p. kmodify (free_pcb p)))
     (kbind (with_pcb midproc (out_proc_q qa)) (\<lambda>q.
      kseq (check print_err (q = None \<or> q \<noteq> midproc) ''out_proc_q failed on middle entry   '')
     (kseq (with_pcb q (\<lambda>p. kmodify (free_pcb p)))
     (kbind (with_pcb (procp 0) (out_proc_q qa)) (\<lambda>q.
      kseq (check print_err (q \<noteq> None) ''out_proc_q failed on nonexistent entry   '')
           (print_line print ''out_proc_q ok   '')))))))))))"

definition p1_drain :: "'h printer \<Rightarrow> 'h printer \<Rightarrow> nat option \<Rightarrow> (unit, 'h) km" where
  "p1_drain print print_err lastproc =
     (let qa = LocalHead 0 in
      kseq (print_line print ''Removing...   '')
     (kbind (kfor [0..<8] (\<lambda>i _. kbind (remove_proc_q qa) (\<lambda>q.
         kseq (check print_err (q = None) ''remove_proc_q: unexpected NULL   '')
        (kseq (with_pcb q (\<lambda>p. kmodify (free_pcb p))) (kreturn q)))) None) (\<lambda>q.
      kseq (check print_err (q \<noteq> lastproc) ''remove_proc_q: failed on last entry   '')
     (kbind (remove_proc_q qa) (\<lambda>q.
      kseq (check print_err (q \<noteq> None) ''remove_proc_q: removes too many entries   '')
     (kseq (kread (\<lambda>s. check print_err (\<not> empty_proc_q qa s) ''empty_proc_q: unexpected FALSE   ''))
     (kseq (print_line print ''insert_proc_q, remove_proc_q and empty_proc_q ok   '')
           (print_line print ''process queues module ok      ''))))))))"

definition p1_trees :: "'h printer \<Rightarrow> 'h printer \<Rightarrow> (nat \<Rightarrow> nat option) \<Rightarrow> (unit, 'h) km" where
  "p1_trees print print_err procp =
     (let is_empty = (\<lambda>p bad msg. with_pcb p (\<lambda>i. kread (\<lambda>s. check print_err (empty_child i s = bad) msg))) in
      kseq (print_line print ''checking process trees...'')
     (kseq (is_empty (procp 2) False ''empty_child: unexpected FALSE   '')
     (kseq (print_line print ''Inserting...   '')
     (kseq (kfor [1..<10] (\<lambda>i _. with_pcb (procp 0) (\<lambda>p. with_pcb (procp i) (\<lambda>c. kmodify (insert_child p c)))) ())
     (kseq (print_line print ''Inserted 9 children   '')
     (kseq (is_empty (procp 0) True ''empty_child: unexpected TRUE   '')
     (kbind (with_pcb (procp 1) out_child) (\<lambda>q.
      kseq (check print_err (q = None \<or> q \<noteq> procp 1) ''out_child failed on first child   '')
     (kbind (with_pcb (procp 4) out_child) (\<lambda>q.
      kseq (check print_err (q = None \<or> q \<noteq> procp 4) ''out_child failed on middle child   '')
     (kbind (with_pcb (procp 0) out_child) (\<lambda>q.
      kseq (check print_err (q \<noteq> None) ''out_child failed on nonexistent child   '')
     (kseq (print_line print ''out_child ok   '')
     (kseq (print_line print ''Removing...   '')
     (kseq (kfor [0..<7] (\<lambda>i _. kbind (with_pcb (procp 0) remove_child) (\<lambda>q.
         check print_err (q = None) ''remove_child: unexpected NULL   '')) ())
     (kbind (with_pcb (procp 0) remove_child) (\<lambda>q.
      kseq (check print_err (q \<noteq> None) ''remove_child: removes too many children   '')
     (kseq (is_empty (procp 0) False ''empty_child: unexpected FALSE   '')
     (kseq (print_line print ''insert_child, remove_child and empty_child ok   '')
     (kseq (print_line print ''process tree module ok      '')
           (kfor [0..<10] (\<lambda>i _. with_pcb (procp i) (\<lambda>p. kmodify (free_pcb p))) ())))))))))))))))))))))"

definition p1_block :: "'h plat \<Rightarrow> 'h printer \<Rightarrow> (nat \<Rightarrow> u32) \<Rightarrow> string \<Rightarrow> nat \<Rightarrow> (nat \<Rightarrow> nat option) \<Rightarrow> (nat \<Rightarrow> nat option, 'h) km" where
  "p1_block U print_err sem msg i procp =
     kbind (alloc_pcb U) (\<lambda>r.
     kbind (with_pcb r (insert_blocked (sem i))) (\<lambda>full.
     kseq (check print_err full msg) (kreturn (procp(i := r)))))"

definition p1_asl_fill :: "'h plat \<Rightarrow> 'h printer \<Rightarrow> 'h printer \<Rightarrow> (nat \<Rightarrow> u32) \<Rightarrow> u32 \<Rightarrow>
    (nat \<Rightarrow> nat option) \<Rightarrow> (nat \<Rightarrow> nat option, 'h) km" where
  "p1_asl_fill U print print_err sem onesem procp0 =
      kseq (kmodify init_asl)
     (kseq (print_line print ''Initialized active semaphore list   '')
     (kseq (print_line print ''insert_blocked test #1 started  '')
     (kbind (kfor [10..<MAXPROC] (p1_block U print_err sem ''insert_blocked(1): unexpected TRUE   '') procp0) (\<lambda>procp.
      kseq (print_line print ''insert_blocked test #2 started  '')
     (kbind (kfor [0..<10] (p1_block U print_err sem ''insert_blocked(2): unexpected TRUE   '') procp) (\<lambda>procp.
      kbind (remove_blocked (sem 11)) (\<lambda>p.
      kbind (with_pcb p (insert_blocked (sem 11))) (\<lambda>full.
      kseq (check print_err full ''remove_blocked: fails to return to free list   '')
     (kbind (with_pcb (procp 9) (insert_blocked onesem)) (\<lambda>full.
      kseq (check print_err (\<not> full) ''insert_blocked: inserted more than MAXPROC   '')
           (kreturn procp)))))))))))"

definition p1_asl_move :: "'h printer \<Rightarrow> 'h printer \<Rightarrow> (nat \<Rightarrow> u32) \<Rightarrow> (nat \<Rightarrow> nat option) \<Rightarrow> (unit, 'h) km" where
  "p1_asl_move print print_err sem procp =
      kseq (print_line print ''remove_blocked test started   '')
     (kseq (kfor [10..<MAXPROC] (\<lambda>i _.
         kbind (remove_blocked (sem i)) (\<lambda>q.
         kseq (check print_err (q = None) ''remove_blocked: wouldn't remove   '')
        (kseq (check print_err (q \<noteq> procp i) ''remove_blocked: removed wrong element   '')
        (kbind (with_pcb q (insert_blocked (sem (i - 10)))) (\<lambda>full.
         check print_err full ''insert_blocked(3): unexpected TRUE   ''))))) ())
     (kbind (remove_blocked (sem 11)) (\<lambda>q.
      kseq (check print_err (q \<noteq> None) ''remove_blocked: removed nonexistent blocked proc   '')
           (print_line print ''insert_blocked and remove_blocked ok   ''))))"

definition p1_asl_heads :: "'h printer \<Rightarrow> 'h printer \<Rightarrow> (nat \<Rightarrow> u32) \<Rightarrow> (nat \<Rightarrow> nat option) \<Rightarrow> (unit, 'h) km" where
  "p1_asl_heads print print_err sem procp =
      kbind (head_blocked (sem 11)) (\<lambda>q.
      kseq (check print_err (q \<noteq> None) ''head_blocked: nonNULL for a nonexistent queue   '')
     (kbind (head_blocked (sem 9)) (\<lambda>q.
      kseq (check print_err (q = None) ''head_blocked(1): NULL for an existent queue   '')
     (kseq (check print_err (q \<noteq> procp 9) ''head_blocked(1): wrong process returned   '')
     (kbind (out_blocked q) (\<lambda>p.
      kseq (check print_err (p \<noteq> q) ''out_blocked(1): couldn't remove from valid queue   '')
     (kbind (head_blocked (sem 9)) (\<lambda>q.
      kseq (check print_err (q = None) ''head_blocked(2): NULL for an existent queue   '')
     (kseq (check print_err (q \<noteq> procp 19) ''head_blocked(2): wrong process returned   '')
     (kbind (out_blocked q) (\<lambda>p.
      kseq (check print_err (p \<noteq> q) ''out_blocked(2): couldn't remove from valid queue   '')
     (kbind (out_blocked q) (\<lambda>p.
      kseq (check print_err (p \<noteq> None) ''out_blocked: removed same process twice.'')
     (kbind (head_blocked (sem 9)) (\<lambda>q.
      kseq (check print_err (q \<noteq> None) ''out/head_blocked: unexpected nonempty queue   '')
     (kseq (print_line print ''head_blocked and out_blocked ok   '')
     (kseq (print_line print ''ASL module ok   '')
           (print_line print ''So Long and Thanks for All the Fish''))))))))))))))))))"

definition p1test :: "'h plat \<Rightarrow> 'h printer \<Rightarrow> 'h printer \<Rightarrow> (nat \<Rightarrow> u32) \<Rightarrow> u32 \<Rightarrow> (nat \<Rightarrow> nat option) \<Rightarrow> (int, 'h) km" where
  "p1test U print print_err sem onesem procp0 =
     kbind (p1_pool U print print_err procp0) (\<lambda>procp.
     kbind (p1_fill U print print_err) (\<lambda>(firstproc, midproc, lastproc).
     kseq (p1_out print print_err procp firstproc midproc)
    (kseq (p1_drain print print_err lastproc)
    (kseq (p1_trees print print_err procp)
    (kbind (p1_asl_fill U print print_err sem onesem procp) (\<lambda>procp.
     kseq (p1_asl_move print print_err sem procp)
    (kseq (p1_asl_heads print print_err sem procp) (kreturn 0))))))))"

end
