(* ===== verification/P1_Test_Run.thy ===== *)
theory P1_Test_Run
  imports P1_Test
begin

text \<open>
  The phase 1 test runs to its end on the model: every check it makes of the pool, of a process
  queue, of a process tree and of the semaphore queues passes. A run is a chain of steps, each
  from one description of the lists to the next with the value it answers.
\<close>

section \<open>Steps\<close>

definition delivers :: "('h kst \<Rightarrow> bool) \<Rightarrow> ('a, 'h) km \<Rightarrow> 'a \<Rightarrow> ('h kst \<Rightarrow> bool) \<Rightarrow> bool" where
  "delivers P m v Q \<longleftrightarrow> (\<forall>s. P s \<longrightarrow> (\<exists>s'. m s = Ret v s' \<and> Q s'))"

lemma runsI: "(\<And>s. P s \<Longrightarrow> \<exists>s'. m s = Ret v s' \<and> Q s') \<Longrightarrow> delivers P m v Q"
  by (simp add: delivers_def)

lemma runs_kreturn: "delivers P (kreturn v) v P"
  by (simp add: delivers_def kreturn_def)

lemma runs_kmodify: "(\<And>s. P s \<Longrightarrow> Q (f s)) \<Longrightarrow> delivers P (kmodify f) () Q"
  by (simp add: delivers_def kmodify_def)

lemma runs_kbind: "delivers P m v R \<Longrightarrow> delivers R (f v) w Q \<Longrightarrow> delivers P (kbind m f) w Q"
  unfolding delivers_def kbind_def by fastforce

lemma runs_kseq: "delivers P m v R \<Longrightarrow> delivers R n w Q \<Longrightarrow> delivers P (kseq m n) w Q"
  unfolding kseq_def by (rule runs_kbind)

lemma runs_check: "\<not> bad \<Longrightarrow> delivers P (check print_err bad msg) () P"
  by (simp add: check_def runs_kreturn)

lemma runs_check_state: "(\<And>s. P s \<Longrightarrow> \<not> bad s) \<Longrightarrow> delivers P (kread (\<lambda>s. check print_err (bad s) msg)) () P"
  by (simp add: delivers_def kread_def check_def kreturn_def)

lemma runs_with_pcb: "delivers P (f i) v Q \<Longrightarrow> delivers P (with_pcb (Some i) f) v Q"
  by (simp add: with_pcb_def)

lemma runs_kfor:
  assumes "\<And>i. i < length is \<Longrightarrow> delivers (I i) (body (is ! i) (x i)) (x (Suc i)) (I (Suc i))"
  shows "delivers (I 0) (kfor is body (x 0)) (x (length is)) (I (length is))"
  using assms
proof (induction "is" arbitrary: I x)
  case Nil
  then show ?case by (simp add: runs_kreturn)
next
  case (Cons a "is")
  have "delivers (I (Suc 0)) (kfor is body (x (Suc 0))) (x (Suc (length is))) (I (Suc (length is)))"
    by (rule Cons.IH) (use Cons.prems in force)
  moreover have "delivers (I 0) (body a (x 0)) (x (Suc 0)) (I (Suc 0))" using Cons.prems[of 0] by simp
  ultimately show ?case by (simp add: runs_kbind)
qed

lemma runs_kfor_Nil: "delivers P (kfor [] body x) x P"
  by (simp add: runs_kreturn)

lemma runs_kfor_Cons: "delivers P (body i x) v R \<Longrightarrow> delivers R (kfor is body v) w Q \<Longrightarrow> delivers P (kfor (i # is) body x) w Q"
  by (simp add: runs_kbind)

lemma runs_bind_pcb: "delivers P (f i) v R \<Longrightarrow> delivers R (g v) w Q \<Longrightarrow> delivers P (kbind (with_pcb (Some i) f) g) w Q"
  by (rule runs_kbind, rule runs_with_pcb)

lemma runs_seq_pcb: "delivers P (f i) v R \<Longrightarrow> delivers R n w Q \<Longrightarrow> delivers P (kseq (with_pcb (Some i) f) n) w Q"
  by (rule runs_kseq, rule runs_with_pcb)

lemma counter_values:
  "[0..<10] = [0, 1, 2, 3, 4, 5, 6, 7, 8, 9::nat]" "[1..<10] = [1, 2, 3, 4, 5, 6, 7, 8, 9::nat]"
  "[0..<8] = [0, 1, 2, 3, 4, 5, 6, 7::nat]" "[0..<7] = [0, 1, 2, 3, 4, 5, 6::nat]"
  "[10..<MAXPROC] = [10, 11, 12, 13, 14, 15, 16, 17, 18, 19]"
  by (simp_all add: MAXPROC_def upt_rec)

text \<open>Printing changes the registers of the terminal and nothing the kernel keeps.\<close>

definition quiet_print :: "'h printer \<Rightarrow> bool" where
  "quiet_print print \<longleftrightarrow> (\<forall>msg s. \<exists>m h. print msg s = Ret () (s\<lparr>mem := m, hw := h\<rparr>))"

lemma runs_print:
  assumes "quiet_print print" and "\<And>s m h. P s \<Longrightarrow> P (s\<lparr>mem := m, hw := h\<rparr>)"
  shows "delivers P (print_line print msg) () P"
proof (rule runsI)
  fix s assume "P s"
  moreover obtain m h where "print (msg @ [CHR 0x0A]) s = Ret () (s\<lparr>mem := m, hw := h\<rparr>)"
    using assms(1) unfolding quiet_print_def by blast
  ultimately show "\<exists>s'. print_line print msg s = Ret () s' \<and> P s'" using assms(2) by (auto simp: print_line_def)
qed

section \<open>The pool, a queue and a family\<close>

text \<open>
  \<open>fr\<close> are the free PCBs, \<open>qa\<close> the queue of the test once it has one, \<open>det\<close> the PCBs whose link is
  in no list, \<open>fam\<close> those whose list of children is initialised, \<open>cs\<close> the children of PCB 0, the only
  parent of the test. The ready queues of the scheduler, which is not part of the test, are empty.
\<close>

definition p1_lists :: "nat list \<Rightarrow> nat list option \<Rightarrow> nat set \<Rightarrow> nat set \<Rightarrow> nat list \<Rightarrow> lmap" where
  "p1_lists fr qa det fam cs = (\<lambda>h. case h of
       PcbFreeH \<Rightarrow> Some (map PList fr)
     | LocalHead i \<Rightarrow> if i = 0 then map_option (map PList) qa else None
     | LQueue \<Rightarrow> Some [] | HQueue \<Rightarrow> Some []
     | PList p \<Rightarrow> if p \<in> det then Some [] else None
     | PChild p \<Rightarrow> if p \<in> fam then Some (if p = 0 then map PSib cs else []) else None
     | _ \<Rightarrow> None)"

definition p1 :: "nat list \<Rightarrow> nat list option \<Rightarrow> nat set \<Rightarrow> nat set \<Rightarrow> nat list \<Rightarrow> 'h kst \<Rightarrow> bool" where
  "p1 fr qa det fam cs s \<longleftrightarrow> lists_rep (lh s) (p1_lists fr qa det fam cs) \<and>
     (\<forall>p\<in>fam. p_parent (pcbs s p) \<noteq> None \<longleftrightarrow> p \<in> set cs) \<and>
     (\<forall>p\<in>set fr. p_semAdd (pcbs s p) = NULL) \<and> (\<forall>p<MAXPROC. p_pid (pcbs s p) = 0)"

lemma p1_sel [simp]:
  "p1_lists fr qa det fam cs PcbFreeH = Some (map PList fr)"
  "p1_lists fr (Some ps) det fam cs (LocalHead 0) = Some (map PList ps)"
  "p1_lists fr qa det fam cs (PChild p) = (if p \<in> fam then Some (if p = 0 then map PSib cs else []) else None)"
  "p1_lists fr qa det fam cs (PList p) = (if p \<in> det then Some [] else None)"
  "p1_lists fr qa det fam cs (PSib p) = None"
  by (simp_all add: p1_lists_def)

lemma p1_print:
  assumes "quiet_print print"
  shows "delivers (p1 fr qa det fam cs) (print_line print msg) () (p1 fr qa det fam cs)"
  by (rule runs_print[OF assms]) (simp add: p1_def)

lemma p1_rep:
  assumes "lists_rep hp L" and "\<And>h xs. p1_lists fr qa det fam cs h = Some xs \<Longrightarrow> L h = Some xs"
  shows "lists_rep hp (p1_lists fr qa det fam cs)"
  by (rule lists_rep_submap[OF assms(1)], rule submapI, rule assms(2))

lemma p1_members:
  assumes "p1_lists fr qa det fam cs h = Some xs"
  shows "PChild p \<notin> set xs" and "PSib p \<in> set xs \<Longrightarrow> p \<in> set cs"
    and "PList p \<in> set xs \<Longrightarrow> p \<in> set fr \<or> (\<exists>ps. qa = Some ps \<and> p \<in> set ps)"
  using assms by (cases h; auto simp: p1_lists_def split: if_splits)+

text \<open>A list that is empty is in no other.\<close>

lemma empty_unlinked:
  assumes "lists_rep hp L" and "L n = Some []"
  shows "unlinked L n"
  unfolding unlinked_def
proof (intro conjI allI impI)
  fix h xs assume h: "L h = Some xs"
  show "n \<notin> set xs"
    using lx.disjoint_law[OF assms(1) h assms(2)] h assms(2) by (cases "h = n") auto
qed (use assms(2) in simp)

lemma p1_alloc:
  assumes "p \<notin> fam" and "p \<notin> set cs" and "p \<noteq> 0 \<or> cs = []"
  shows "delivers (p1 (p # fr) qa det fam cs) (alloc_pcb U) (Some p) (p1 fr qa (insert p det) (insert p fam) cs)"
    and "delivers (p1 (p # fr) qa det fam cs) (alloc_pcb U) (Some p) (p1 fr qa (insert p det) fam cs)"
proof -
  let ?L = "p1_lists (p # fr) qa det fam cs"
  have "\<exists>s'. alloc_pcb U s = Ret (Some p) s' \<and> p1 fr qa (insert p det) (insert p fam) cs s' \<and> p1 fr qa (insert p det) fam cs s'"
    if "p1 (p # fr) qa det fam cs s" for s
  proof -
    have P: "lists_rep (lh s) ?L" "\<forall>p\<in>fam. p_parent (pcbs s p) \<noteq> None \<longleftrightarrow> p \<in> set cs"
      "\<forall>p\<in>set fr. p_semAdd (pcbs s p) = NULL" "\<forall>p<MAXPROC. p_pid (pcbs s p) = 0"
      using that by (simp_all add: p1_def)
    have u: "unlinked ?L (PChild p)" "unlinked ?L (PSib p)"
      using assms(1,2) by (auto simp: unlinked_def dest: p1_members(1,2))
    have f: "?L PcbFreeH = Some (map PList (p # fr))" by simp
    note r = alloc_pcb_run[OF P(1) f u, of U]
    have "lists_rep (lh (alloc_st U p s)) (p1_lists fr qa (insert p det) F cs)" if "F \<subseteq> insert p fam" for F
      by (rule p1_rep[OF r(2)]) (use that assms(3) in \<open>auto simp: p1_lists_def split: lref.splits if_splits\<close>)
    moreover have "p_parent (reset_pcb U q) = None" "p_semAdd (reset_pcb U q) = NULL" "p_pid (reset_pcb U q) = p_pid q" for q
      by (simp_all add: reset_pcb_def)
    ultimately show ?thesis
      using r(1) P(2-4) assms(1,2) by (auto simp: p1_def)
  qed
  then show "delivers (p1 (p # fr) qa det fam cs) (alloc_pcb U) (Some p) (p1 fr qa (insert p det) (insert p fam) cs)"
    "delivers (p1 (p # fr) qa det fam cs) (alloc_pcb U) (Some p) (p1 fr qa (insert p det) fam cs)"
    unfolding delivers_def by blast+
qed

lemma p1_exhausted: "delivers (p1 [] qa det fam cs) (alloc_pcb U) None (p1 [] qa det fam cs)"
proof (rule runsI)
  fix s :: "'a kst" assume p: "p1 [] qa det fam cs s"
  then have "lists_rep (lh s) (p1_lists [] qa det fam cs)" by (simp add: p1_def)
  with p show "\<exists>s'. alloc_pcb U s = Ret None s' \<and> p1 [] qa det fam cs s'" by (auto simp: alloc_pcb_exhausted)
qed

lemma p1_free:
  assumes "p \<notin> det" and "p \<notin> set cs"
  shows "delivers (p1 fr qa (insert p det) fam cs) (kmodify (free_pcb p)) () (p1 (p # fr) qa det fam cs)"
    and "fam' \<subseteq> fam \<Longrightarrow> delivers (p1 fr qa (insert p det) fam cs) (kmodify (free_pcb p)) () (p1 (p # fr) qa det fam' cs)"
proof -
  show g: "delivers (p1 fr qa (insert p det) fam cs) (kmodify (free_pcb p)) () (p1 (p # fr) qa det fam' cs)"
    if fam': "fam' \<subseteq> fam" for fam'
  proof (rule runs_kmodify)
    fix s assume P: "p1 fr qa (insert p det) fam cs s"
    let ?L = "p1_lists fr qa (insert p det) fam cs"
    have rep: "lists_rep (lh s) ?L" using P by (simp add: p1_def)
    have "unlinked ?L (PList p)" by (rule empty_unlinked[OF rep]) simp
    then have r: "lists_rep (lh (free_pcb p s)) (?L(PList p := None, PcbFreeH := Some (PList p # map PList fr)))"
      by (rule free_pcb_rep[OF rep, rotated]) simp
    have "lists_rep (lh (free_pcb p s)) (p1_lists (p # fr) qa det fam' cs)"
      by (rule p1_rep[OF r]) (use assms(1) fam' in \<open>auto simp: p1_lists_def split: lref.splits if_splits\<close>)
    then show "p1 (p # fr) qa det fam' cs (free_pcb p s)" using P fam' by (auto simp: p1_def)
  qed
  show "delivers (p1 fr qa (insert p det) fam cs) (kmodify (free_pcb p)) () (p1 (p # fr) qa det fam cs)" by (rule g) simp
qed

text \<open>The steps on the queue.\<close>

lemma p1_empty_q: "p1 fr (Some ps) det fam cs s \<Longrightarrow> empty_proc_q (LocalHead 0) s \<longleftrightarrow> ps = []"
  using empty_proc_q_iff[of s "p1_lists fr (Some ps) det fam cs" "LocalHead 0"] by (simp add: p1_def)

lemma p1_make_q: "delivers (p1 fr None det fam cs) (kmodify (upd_lh (INIT_LIST_HEAD (LocalHead 0)))) () (p1 fr (Some []) det fam cs)"
proof (rule runs_kmodify)
  fix s assume P: "p1 fr None det fam cs s"
  let ?L = "p1_lists fr None det fam cs"
  have "unlinked ?L (LocalHead 0)"
    unfolding unlinked_def p1_lists_def by (auto split: lref.splits if_splits)
  then have r: "lists_rep (INIT_LIST_HEAD (LocalHead 0) (lh s)) (?L(LocalHead 0 := Some []))"
    using P by (simp add: p1_def lx.init_law)
  have "lists_rep (INIT_LIST_HEAD (LocalHead 0) (lh s)) (p1_lists fr (Some []) det fam cs)"
    by (rule p1_rep[OF r]) (auto simp: p1_lists_def split: lref.splits if_splits)
  then show "p1 fr (Some []) det fam cs (upd_lh (INIT_LIST_HEAD (LocalHead 0)) s)" using P by (simp add: p1_def)
qed

lemma p1_insert_q:
  assumes "p \<notin> det"
  shows "delivers (p1 fr (Some ps) (insert p det) fam cs) (kmodify (insert_proc_q (LocalHead 0) p)) () (p1 fr (Some (ps @ [p])) det fam cs)"
proof (rule runs_kmodify)
  fix s assume P: "p1 fr (Some ps) (insert p det) fam cs s"
  let ?L = "p1_lists fr (Some ps) (insert p det) fam cs"
  have rep: "lists_rep (lh s) ?L" using P by (simp add: p1_def)
  have "unlinked ?L (PList p)" by (rule empty_unlinked[OF rep]) simp
  then have r: "lists_rep (lh (insert_proc_q (LocalHead 0) p s)) (?L(PList p := None, LocalHead 0 := Some (map PList ps @ [PList p])))"
    by (rule insert_proc_q_rep[OF rep, rotated]) simp_all
  have "lists_rep (lh (insert_proc_q (LocalHead 0) p s)) (p1_lists fr (Some (ps @ [p])) det fam cs)"
    by (rule p1_rep[OF r]) (use assms in \<open>auto simp: p1_lists_def split: lref.splits if_splits\<close>)
  then show "p1 fr (Some (ps @ [p])) det fam cs (insert_proc_q (LocalHead 0) p s)" using P by (simp add: p1_def)
qed

lemma p1_head_q: "delivers (p1 fr (Some (p # ps)) det fam cs) (head_proc_q (LocalHead 0)) (Some p) (p1 fr (Some (p # ps)) det fam cs)"
  using head_proc_q_run[of _ "p1_lists fr (Some (p # ps)) det fam cs" "LocalHead 0" "p # ps"]
  by (auto simp: delivers_def p1_def)

lemma p1_unqueued:
  assumes "p1 fr (Some ps) det fam cs s"
    and "lists_rep (lh (unqueue p s)) ((p1_lists fr (Some ps) det fam cs)(LocalHead 0 := Some (map PList qs), PList p := Some []))"
  shows "p1 fr (Some qs) (insert p det) fam cs (unqueue p s)"
proof -
  have "lists_rep (lh (unqueue p s)) (p1_lists fr (Some qs) (insert p det) fam cs)"
    by (rule p1_rep[OF assms(2)]) (auto simp: p1_lists_def split: lref.splits if_splits)
  then show ?thesis using assms(1) by (simp add: p1_def)
qed

lemma p1_out_q:
  assumes "p \<in> set ps"
  shows "delivers (p1 fr (Some ps) det fam cs) (out_proc_q (LocalHead 0) p) (Some p) (p1 fr (Some (remove1 p ps)) (insert p det) fam cs)"
proof (rule runsI)
  fix s assume P: "p1 fr (Some ps) det fam cs s"
  then have rep: "lists_rep (lh s) (p1_lists fr (Some ps) det fam cs)" by (simp add: p1_def)
  note r = out_proc_q_found[OF rep _ assms, of "LocalHead 0"]
  then show "\<exists>s'. out_proc_q (LocalHead 0) p s = Ret (Some p) s' \<and> p1 fr (Some (remove1 p ps)) (insert p det) fam cs s'"
    using p1_unqueued[OF P] by simp
qed

lemma p1_absent_q:
  assumes "p \<notin> set ps"
  shows "delivers (p1 fr (Some ps) det fam cs) (out_proc_q (LocalHead 0) p) None (p1 fr (Some ps) det fam cs)"
  using out_proc_q_absent[of _ "p1_lists fr (Some ps) det fam cs" "LocalHead 0" ps p] assms
  by (auto simp: delivers_def p1_def)

lemma p1_remove_q:
  "delivers (p1 fr (Some (p # ps)) det fam cs) (remove_proc_q (LocalHead 0)) (Some p) (p1 fr (Some ps) (insert p det) fam cs)"
proof (rule runsI)
  fix s assume P: "p1 fr (Some (p # ps)) det fam cs s"
  then have rep: "lists_rep (lh s) (p1_lists fr (Some (p # ps)) det fam cs)" by (simp add: p1_def)
  note r = remove_proc_q_run[OF rep, of "LocalHead 0" p ps]
  then show "\<exists>s'. remove_proc_q (LocalHead 0) s = Ret (Some p) s' \<and> p1 fr (Some ps) (insert p det) fam cs s'"
    using p1_unqueued[OF P] by simp
qed

lemma p1_remove_none: "delivers (p1 fr (Some []) det fam cs) (remove_proc_q (LocalHead 0)) None (p1 fr (Some []) det fam cs)"
  using remove_proc_q_empty[of _ "p1_lists fr (Some []) det fam cs" "LocalHead 0"] by (auto simp: delivers_def p1_def)

text \<open>The steps on the tree.\<close>

lemma p1_empty_child: "p1 fr qa det fam cs s \<Longrightarrow> p \<in> fam \<Longrightarrow> empty_child p s \<longleftrightarrow> p \<noteq> 0 \<or> cs = []"
  using lists_rep_empty_iff[of "lh s" "p1_lists fr qa det fam cs" "PChild p"] by (auto simp: p1_def empty_child_def)

lemma p1_insert_child:
  assumes "0 \<in> fam" and "c \<notin> set cs"
  shows "delivers (p1 fr qa det fam cs) (kmodify (insert_child 0 c)) () (p1 fr qa det fam (c # cs))"
proof (rule runs_kmodify)
  fix s assume P: "p1 fr qa det fam cs s"
  let ?L = "p1_lists fr qa det fam cs"
  have rep: "lists_rep (lh s) ?L" using P by (simp add: p1_def)
  have "unlinked ?L (PSib c)" using assms(2) by (auto simp: unlinked_def dest: p1_members(2))
  then have r: "lists_rep (lh (insert_child 0 c s)) (?L(PSib c := None, PChild 0 := Some (PSib c # map PSib cs)))"
    using assms(1) by (intro insert_child_rep[OF rep]) simp_all
  have "lists_rep (lh (insert_child 0 c s)) (p1_lists fr qa det fam (c # cs))"
    by (rule p1_rep[OF r]) (auto simp: p1_lists_def split: lref.splits if_splits)
  then show "p1 fr qa det fam (c # cs) (insert_child 0 c s)" using P by (auto simp: p1_def)
qed

lemma p1_orphaned:
  assumes "p1 fr qa det fam cs s" and "distinct cs"
    and "lists_rep (lh (orphan c s)) ((p1_lists fr qa det fam cs)(PChild 0 := Some (map PSib (remove1 c cs))))"
  shows "p1 fr qa det fam (remove1 c cs) (orphan c s)"
proof -
  have "lists_rep (lh (orphan c s)) (p1_lists fr qa det fam (remove1 c cs))"
    by (rule p1_rep[OF assms(3)]) (auto simp: p1_lists_def split: lref.splits if_splits)
  then show ?thesis using assms(1,2) by (auto simp: p1_def)
qed

lemma p1_out_child:
  assumes "0 \<in> fam" and "c \<in> set cs" and "c \<in> fam" and "distinct cs"
  shows "delivers (p1 fr qa det fam cs) (out_child c) (Some c) (p1 fr qa det fam (remove1 c cs))"
proof (rule runsI)
  fix s assume P: "p1 fr qa det fam cs s"
  then have rep: "lists_rep (lh s) (p1_lists fr qa det fam cs)" and "p_parent (pcbs s c) \<noteq> None"
    using assms(2,3) by (auto simp: p1_def)
  note r = out_child_run[OF rep, of 0 cs c, OF _ assms(2) this(2)]
  then show "\<exists>s'. out_child c s = Ret (Some c) s' \<and> p1 fr qa det fam (remove1 c cs) s'"
    using p1_orphaned[OF P assms(4)] assms(1) by simp
qed

lemma p1_out_root:
  assumes "p \<in> fam" and "p \<notin> set cs"
  shows "delivers (p1 fr qa det fam cs) (out_child p) None (p1 fr qa det fam cs)"
  using assms out_child_root[of _ p] by (auto simp: delivers_def p1_def)

lemma p1_remove_child:
  assumes "0 \<in> fam" and "distinct (c # cs)"
  shows "delivers (p1 fr qa det fam (c # cs)) (remove_child 0) (Some c) (p1 fr qa det fam cs)"
proof (rule runsI)
  fix s assume P: "p1 fr qa det fam (c # cs) s"
  then have rep: "lists_rep (lh s) (p1_lists fr qa det fam (c # cs))" by (simp add: p1_def)
  note r = remove_child_run[OF rep, of 0 c cs]
  then show "\<exists>s'. remove_child 0 s = Ret (Some c) s' \<and> p1 fr qa det fam cs s'"
    using p1_orphaned[OF P assms(2), of c] assms(1) by simp
qed

lemma p1_no_child:
  assumes "0 \<in> fam"
  shows "delivers (p1 fr qa det fam []) (remove_child 0) None (p1 fr qa det fam [])"
  using remove_child_empty[of _ "p1_lists fr qa det fam []" 0] assms by (auto simp: delivers_def p1_def)

section \<open>The pool\<close>

text \<open>
  The test starts with its variables at zero. The heads of the ready queues, which the model has
  and the test program has not, are taken to be empty lists.
\<close>

definition test_start :: "'h kst \<Rightarrow> bool" where
  "test_start s \<longleftrightarrow> lists_rep (lh s) [LQueue \<mapsto> [], HQueue \<mapsto> []] \<and> (\<forall>p<MAXPROC. p_pid (pcbs s p) = 0)"

lemma start_init: "delivers test_start (kmodify init_pcbs) () (p1 [0..<MAXPROC] None {..<0} {..<0} [])"
proof (rule runs_kmodify)
  fix s assume P: "test_start s"
  have "avoids pool_ref [LQueue \<mapsto> [], HQueue \<mapsto> []]" by (auto simp: avoids_def split: if_splits)
  then have r: "lists_rep (lh (init_pcbs s)) (pcb_pool [LQueue \<mapsto> [], HQueue \<mapsto> []] MAXPROC)"
    using P by (intro init_pcbs_rep) (simp add: test_start_def)
  have "lists_rep (lh (init_pcbs s)) (p1_lists [0..<MAXPROC] None {..<0} {..<0} [])"
    by (rule p1_rep[OF r]) (auto simp: p1_lists_def pcb_pool_def split: lref.splits if_splits)
  then show "p1 [0..<MAXPROC] None {..<0} {..<0} [] (init_pcbs s)"
    using P by (simp add: p1_def test_start_def init_pcbs_pcbs)
qed

definition all_pcbs :: "nat \<Rightarrow> (nat \<Rightarrow> nat option) \<Rightarrow> nat \<Rightarrow> nat option" where
  "all_pcbs n procp0 = (\<lambda>j. if j < n then Some j else procp0 j)"

lemma run_pool_alloc:
  "delivers (p1 [0..<MAXPROC] None {..<0} {..<0} []) (kfor [0..<MAXPROC] (\<lambda>i procp.
      kbind (alloc_pcb U) (\<lambda>r.
        kseq (check print_err (r = None) msg) (kreturn (procp(i := r))))) procp0)
    (all_pcbs MAXPROC procp0) (p1 [] None {..<MAXPROC} {..<MAXPROC} [])"
proof -
  let ?I = "\<lambda>i. p1 [i..<MAXPROC] None {..<i} {..<i} []"
  let ?body = "\<lambda>i procp. kbind (alloc_pcb U) (\<lambda>r. kseq (check print_err (r = None) msg) (kreturn (procp(i := r))))"
  have "delivers (?I i) (?body ([0..<MAXPROC] ! i) (all_pcbs i procp0)) (all_pcbs (Suc i) procp0) (?I (Suc i))"
    if "i < length [0..<MAXPROC]" for i
  proof (rule runs_kbind)
    have i: "[i..<MAXPROC] = i # [Suc i..<MAXPROC]" using that by (simp add: upt_conv_Cons)
    show "delivers (?I i) (alloc_pcb U) (Some i) (?I (Suc i))"
      unfolding i lessThan_Suc by (rule p1_alloc(1)) simp_all
    have "all_pcbs (Suc i) procp0 = (all_pcbs i procp0)([0..<MAXPROC] ! i := Some i)"
      using that by (auto simp: all_pcbs_def)
    then show "delivers (?I (Suc i)) (kseq (check print_err (Some i = None) msg)
        (kreturn ((all_pcbs i procp0)([0..<MAXPROC] ! i := Some i)))) (all_pcbs (Suc i) procp0) (?I (Suc i))"
      by (auto intro: runs_kseq[OF runs_check runs_kreturn])
  qed
  from runs_kfor[of "[0..<MAXPROC]" ?I ?body "\<lambda>i. all_pcbs i procp0", OF this]
  have "delivers (?I 0) (kfor [0..<MAXPROC] ?body (all_pcbs 0 procp0)) (all_pcbs MAXPROC procp0) (?I MAXPROC)"
    by (simp only: length_upt minus_nat.diff_0)
  moreover have "all_pcbs 0 procp0 = procp0" by (simp add: all_pcbs_def)
  ultimately show ?thesis by (simp only: upt_conv_Nil)
qed

lemma run_pool_free:
  assumes "\<And>i. i < MAXPROC \<Longrightarrow> procp i = Some i"
  shows "delivers (p1 [] None {..<MAXPROC} {..<MAXPROC} []) (kfor [10..<MAXPROC] (\<lambda>i _. with_pcb (procp i) (\<lambda>p. kmodify (free_pcb p))) ())
    () (p1 (rev [10..<MAXPROC]) None {..<10} {..<10} [])"
proof -
  let ?D = "\<lambda>k. {..<10} \<union> {10 + k..<MAXPROC}"
  let ?I = "\<lambda>k. p1 (rev [10..<10 + k]) None (?D k) (?D k) []"
  have "delivers (?I k) (with_pcb (procp ([10..<MAXPROC] ! k)) (\<lambda>p. kmodify (free_pcb p))) () (?I (Suc k))"
    if "k < length [10..<MAXPROC]" for k
  proof -
    have k: "procp ([10..<MAXPROC] ! k) = Some (10 + k)" and D: "?D k = insert (10 + k) (?D (Suc k))" and n: "10 + k \<notin> ?D (Suc k)"
      using that assms[of "10 + k"] by (auto simp: MAXPROC_def nth_append simp del: upt_rec_numeral)
    have r: "rev [10..<10 + Suc k] = (10 + k) # rev [10..<10 + k]" by (simp only: add_Suc_right upt_Suc_append le_add1 rev_append rev.simps append.simps)
    show ?thesis unfolding k r
      by (rule runs_with_pcb, subst (1) D, rule p1_free(2)) (use n in auto)
  qed
  from runs_kfor[of "[10..<MAXPROC]" ?I _ "\<lambda>_. ()", OF this] show ?thesis
    by (simp add: MAXPROC_def ivl_disj_un)
qed

lemma run_pool:
  assumes pr: "quiet_print print"
  shows "delivers test_start (p1_pool U print print_err procp0) (all_pcbs MAXPROC procp0) (p1 (rev [10..<MAXPROC]) None {..<10} {..<10} [])"
proof -
  note p = p1_print[OF pr]
  have start: "delivers test_start (print_line print msg) () test_start" for msg
    by (rule runs_print[OF pr]) (simp add: test_start_def)
  have a: "all_pcbs MAXPROC procp0 i = Some i" if "i < MAXPROC" for i using that by (simp add: all_pcbs_def)
  show ?thesis
    unfolding p1_pool_def
    by (rule runs_kseq[OF start] runs_kseq[OF start_init] runs_kseq[OF p] runs_kbind[OF run_pool_alloc]
        runs_kbind[OF p1_exhausted] runs_kseq[OF runs_check] runs_kseq[OF run_pool_free[OF a]] runs_kreturn | simp)+
qed

section \<open>The queue\<close>

abbreviation p1q :: "nat list \<Rightarrow> nat list \<Rightarrow> 'h kst \<Rightarrow> bool" where
  "p1q fr ps \<equiv> p1 fr (Some ps) {..<10} {..<10} []"

lemma step_insert:
  assumes "10 \<le> p"
  shows "delivers (p1q (p # fr) ps) (p1_insert U print_err i (f, m, l))
    (if i = 0 then (Some p, m, l) else if i = 5 then (f, Some p, l) else if i = 9 then (f, m, Some p) else (f, m, l))
    (p1q fr (ps @ [p]))"
proof -
  have n: "p \<notin> {..<10}" "p \<notin> set []" "p \<noteq> 0 \<or> [] = []" using assms by auto
  show ?thesis
    unfolding p1_insert_def prod.case
    by (rule runs_kbind[OF p1_alloc(2)[OF n]] runs_kseq[OF runs_check] runs_seq_pcb[where f = "\<lambda>p. kmodify (insert_proc_q (LocalHead 0) p)", OF p1_insert_q[OF n(1)]]
        runs_kreturn | simp)+
qed

lemma fill_step:
  assumes "10 \<le> p"
    and "delivers (p1q fr (ps @ [p])) (kfor is (p1_insert U print_err)
      (if i = 0 then (Some p, m, l) else if i = 5 then (f, Some p, l) else if i = 9 then (f, m, Some p) else (f, m, l))) w Q"
  shows "delivers (p1q (p # fr) ps) (kfor (i # is) (p1_insert U print_err) (f, m, l)) w Q"
  by (rule runs_kfor_Cons, rule step_insert[OF assms(1)], rule assms(2))

lemma run_fill:
  assumes pr: "quiet_print print"
  shows "delivers (p1 (rev [10..<MAXPROC]) None {..<10} {..<10} []) (p1_fill U print print_err) (Some 19, Some 14, Some 10)
    (p1q [] (rev [10..<MAXPROC]))"
proof -
  have loop: "delivers (p1q (rev [10..<MAXPROC]) []) (kfor [0..<10] (p1_insert U print_err) (None, None, None))
      (Some 19, Some 14, Some 10) (p1q [] (rev [10..<MAXPROC]))"
    unfolding counter_values rev.simps append.simps
    by (rule fill_step runs_kfor_Nil | simp del: kfor.simps)+
  show ?thesis
    unfolding p1_fill_def Let_def
    by (rule runs_kseq[OF p1_make_q] runs_kseq[OF p1_print[OF pr]] runs_kbind[OF loop] runs_kseq[OF runs_check_state]
        runs_kreturn | simp add: p1_empty_q counter_values)+
qed

lemma step_release:
  assumes "10 \<le> p"
  shows "delivers (p1 fr qa (insert p {..<10}) {..<10} []) (with_pcb (Some p) (\<lambda>p. kmodify (free_pcb p))) () (p1 (p # fr) qa {..<10} {..<10} [])"
  by (rule runs_with_pcb, rule p1_free(1)) (use assms in auto)

lemma run_out:
  assumes pr: "quiet_print print" and procp: "procp 0 = Some 0"
  shows "delivers (p1q [] (rev [10..<MAXPROC])) (p1_out print print_err procp (Some 19) (Some 14)) ()
    (p1q [14, 19] [18, 17, 16, 15, 13, 12, 11, 10])"
proof -
  note steps = runs_kbind[OF p1_head_q] runs_kseq[OF runs_check] runs_kseq[OF step_release] p1_print[OF pr]
    runs_bind_pcb[where f = "out_proc_q (LocalHead 0)", OF p1_out_q] runs_bind_pcb[where f = "out_proc_q (LocalHead 0)", OF p1_absent_q]
  show ?thesis unfolding p1_out_def Let_def procp counter_values rev.simps append.simps by (rule steps | simp)+
qed

lemma step_drain:
  assumes "10 \<le> p"
  shows "delivers (p1q fr (p # ps)) (kbind (remove_proc_q (LocalHead 0)) (\<lambda>q.
         kseq (check print_err (q = None) msg) (kseq (with_pcb q (\<lambda>p. kmodify (free_pcb p))) (kreturn q))))
    (Some p) (p1q (p # fr) ps)"
  by (rule runs_kbind[OF p1_remove_q] runs_kseq[OF runs_check] runs_kseq[OF step_release[OF assms]] runs_kreturn | simp)+

lemma run_drain:
  assumes pr: "quiet_print print"
  shows "delivers (p1q [14, 19] [18, 17, 16, 15, 13, 12, 11, 10]) (p1_drain print print_err (Some 10)) ()
    (p1q [10, 11, 12, 13, 15, 16, 17, 18, 14, 19] [])"
proof -
  let ?body = "\<lambda>(i :: nat) _ :: nat option. kbind (remove_proc_q (LocalHead 0)) (\<lambda>q.
         kseq (check print_err (q = None) ''remove_proc_q: unexpected NULL   '') (kseq (with_pcb q (\<lambda>p. kmodify (free_pcb p))) (kreturn q)))"
  have step: "10 \<le> p \<Longrightarrow> delivers (p1q (p # fr) ps) (kfor is ?body (Some p)) w Q \<Longrightarrow>
      delivers (p1q fr (p # ps)) (kfor (i # is) ?body x) w Q" for p fr ps "is" i x w Q
    by (rule runs_kfor_Cons, rule step_drain)
  have loop: "delivers (p1q [14, 19] [18, 17, 16, 15, 13, 12, 11, 10]) (kfor [0..<8] ?body None)
      (Some 10) (p1q [10, 11, 12, 13, 15, 16, 17, 18, 14, 19] [])"
    unfolding counter_values
    by (rule step runs_kfor_Nil | simp del: kfor.simps)+
  note steps = runs_kseq[OF p1_print[OF pr]] p1_print[OF pr] runs_kbind[OF loop] runs_kseq[OF runs_check]
    runs_kbind[OF p1_remove_none] runs_kseq[OF runs_check_state]
  show ?thesis unfolding p1_drain_def Let_def by (rule steps | simp add: p1_empty_q)+
qed

section \<open>The family\<close>

lemma step_adopt:
  assumes "procp 0 = Some 0" and "procp i = Some i" and "i \<notin> set cs"
    and "delivers (p1 fr qa {..<10} {..<10} (i # cs)) (kfor is (\<lambda>i _. with_pcb (procp 0) (\<lambda>p. with_pcb (procp i) (\<lambda>c. kmodify (insert_child p c)))) ()) () Q"
  shows "delivers (p1 fr qa {..<10} {..<10} cs) (kfor (i # is) (\<lambda>i _. with_pcb (procp 0) (\<lambda>p. with_pcb (procp i) (\<lambda>c. kmodify (insert_child p c)))) ()) () Q"
  unfolding kfor.simps assms(1,2)
  by (rule runs_bind_pcb, rule runs_with_pcb, rule p1_insert_child) (use assms in auto)

lemma step_disown:
  assumes "distinct (c # cs)"
    and "delivers (p1 fr qa {..<10} {..<10} cs) (kfor is (\<lambda>i _. kbind (with_pcb (Some 0) remove_child) (\<lambda>q. check print_err (q = None) msg)) ()) () Q"
  shows "delivers (p1 fr qa {..<10} {..<10} (c # cs)) (kfor (i # is) (\<lambda>i _. kbind (with_pcb (Some 0) remove_child) (\<lambda>q. check print_err (q = None) msg)) ()) () Q"
proof (rule runs_kfor_Cons[OF _ assms(2)], rule runs_bind_pcb)
  show "delivers (p1 fr qa {..<10} {..<10} (c # cs)) (remove_child 0) (Some c) (p1 fr qa {..<10} {..<10} cs)"
    by (rule p1_remove_child) (use assms(1) in auto)
qed (simp add: runs_check)

lemma run_free_all:
  assumes "\<And>i. i < MAXPROC \<Longrightarrow> procp i = Some i"
  shows "delivers (p1 fr qa {..<10} fam []) (kfor [0..<10] (\<lambda>i _. with_pcb (procp i) (\<lambda>p. kmodify (free_pcb p))) ()) ()
    (p1 (rev [0..<10] @ fr) qa {} fam [])"
proof -
  let ?I = "\<lambda>k. p1 (rev [0..<k] @ fr) qa {k..<10} fam []"
  have "delivers (?I k) (with_pcb (procp ([0..<10] ! k)) (\<lambda>p. kmodify (free_pcb p))) () (?I (Suc k))"
    if "k < length [0..<10]" for k
  proof -
    have k: "procp ([0..<10] ! k) = Some k" and D: "{k..<10} = insert k {Suc k..<10}"
      using that assms[of k] by (auto simp: MAXPROC_def)
    have r: "rev [0..<Suc k] @ fr = k # rev [0..<k] @ fr" by simp
    show ?thesis unfolding k r D by (rule runs_with_pcb, rule p1_free(1)) simp_all
  qed
  from runs_kfor[of "[0..<10]" ?I _ "\<lambda>_. ()", OF this] show ?thesis by (simp add: lessThan_atLeast0)
qed

lemma runs_check_empty:
  assumes "\<And>s. P s \<Longrightarrow> empty_child i s \<noteq> bad"
  shows "delivers P (with_pcb (Some i) (\<lambda>i. kread (\<lambda>s. check print_err (empty_child i s = bad) msg))) () P"
  by (rule runs_with_pcb, rule runs_check_state) (use assms in blast)

lemmas runs_check_nonempty = runs_check_empty[where bad = False, simplified]

lemma run_trees:
  assumes pr: "quiet_print print" and procp: "\<And>i. i < MAXPROC \<Longrightarrow> procp i = Some i"
  shows "delivers (p1 fr qa {..<10} {..<10} []) (p1_trees print print_err procp) () (p1 (rev [0..<10] @ fr) qa {} {..<10} [])"
proof -
  have procs: "procp 0 = Some 0" "procp 1 = Some 1" "procp 2 = Some 2" "procp 4 = Some 4"
    using procp by (simp_all add: MAXPROC_def)
  let ?cs = "[9, 8, 7, 6, 5, 4, 3, 2, 1]"
  have adopt: "delivers (p1 fr qa {..<10} {..<10} []) (kfor [1..<10] (\<lambda>i _. with_pcb (procp 0) (\<lambda>p. with_pcb (procp i) (\<lambda>c. kmodify (insert_child p c)))) ()) ()
    (p1 fr qa {..<10} {..<10} ?cs)"
    unfolding counter_values by (rule step_adopt runs_kfor_Nil | simp add: procp MAXPROC_def del: kfor.simps)+
  have disown: "delivers (p1 fr qa {..<10} {..<10} [9, 8, 7, 6, 5, 3, 2])
    (kfor [0..<7] (\<lambda>i _. kbind (with_pcb (Some 0) remove_child) (\<lambda>q. check print_err (q = None) msg)) ()) () (p1 fr qa {..<10} {..<10} [])" for msg
    unfolding counter_values by (rule step_disown runs_kfor_Nil | simp del: kfor.simps)+
  note out1 = p1_out_child[of "{..<10}" 1 ?cs fr qa "{..<10}", simplified]
  note out4 = p1_out_child[of "{..<10}" 4 "[9, 8, 7, 6, 5, 4, 3, 2]" fr qa "{..<10}", simplified]
  note out0 = p1_out_root[of 0 "{..<10}" "[9, 8, 7, 6, 5, 3, 2]" fr qa "{..<10}", simplified]
  note none = p1_no_child[of "{..<10}" fr qa "{..<10}", simplified]
  note steps = runs_kseq[OF p1_print[OF pr]] runs_kseq[OF adopt[unfolded procs]] runs_bind_pcb[where f = out_child, OF out1]
    runs_bind_pcb[where f = out_child, OF out4] runs_bind_pcb[where f = out_child, OF out0] runs_kseq[OF disown]
    runs_bind_pcb[where f = remove_child, OF none] runs_kseq[OF runs_check] runs_kseq[OF runs_check_empty] runs_kseq[OF runs_check_nonempty] run_free_all[OF procp]
  show ?thesis unfolding p1_trees_def Let_def procs by (rule steps | simp add: p1_empty_child)+
qed

end
