(* ===== verification/P1_Asl_Run.thy ===== *)
theory P1_Asl_Run
  imports P1_Test_Run Kmoves
begin

text \<open>
  The second half of the phase 1 test: the active semaphore list. Between two steps the kernel
  lists are those of the structural invariant \<open>krep\<close>, with the queue of each semaphore of the test
  written out. The test program gives no PID to its PCBs, so the invariant is taken on a table at
  address zero; \<open>alloc_pcb\<close> does not read that address.
\<close>

section \<open>The semaphores of the test\<close>

definition no_pids :: "'h plat \<Rightarrow> 'h plat" where
  "no_pids U = U\<lparr>pcb_base := 0, sizeof_pcb := 0\<rparr>"

text \<open>Distinct addresses, none of them \<open>NULL\<close> or that of \<open>onesem\<close>.\<close>

definition sems_ok :: "(nat \<Rightarrow> u32) \<Rightarrow> u32 \<Rightarrow> bool" where
  "sems_ok sem onesem \<longleftrightarrow> inj_on sem {..<MAXPROC} \<and> (\<forall>i<MAXPROC. sem i \<noteq> NULL \<and> sem i \<noteq> onesem)"

lemma sems_ok_eq: "sems_ok sem one \<Longrightarrow> i < MAXPROC \<Longrightarrow> j < MAXPROC \<Longrightarrow> sem i = sem j \<longleftrightarrow> i = j"
  by (auto simp: sems_ok_def inj_on_def)

definition on_sems :: "'h plat \<Rightarrow> (nat \<Rightarrow> u32) \<Rightarrow> nat list \<Rightarrow> nat set \<Rightarrow> (nat \<Rightarrow> nat list) \<Rightarrow> 'h kst \<Rightarrow> bool" where
  "on_sems U sem fr D Q s \<longleftrightarrow> (\<exists>A. krep (no_pids U) s A \<and> a_free A = fr \<and> set (a_det A) = D \<and>
     (\<forall>i<MAXPROC. waiting s A (sem i) = Q i) \<and> (\<forall>j. j \<notin> sem ` {..<MAXPROC} \<longrightarrow> waiting s A j = []))"

lemma on_semsI:
  assumes "krep (no_pids U) s A" and "a_free A = fr" and "set (a_det A) = D"
    and "\<And>i. i < MAXPROC \<Longrightarrow> waiting s A (sem i) = Q i" and "\<And>j. j \<notin> sem ` {..<MAXPROC} \<Longrightarrow> waiting s A j = []"
  shows "on_sems U sem fr D Q s"
  using assms unfolding on_sems_def by blast

lemma on_semsE:
  assumes "on_sems U sem fr D Q s"
  obtains A where "krep (no_pids U) s A" and "a_free A = fr" and "set (a_det A) = D"
    and "\<And>i. i < MAXPROC \<Longrightarrow> waiting s A (sem i) = Q i" and "\<And>j. j \<notin> sem ` {..<MAXPROC} \<Longrightarrow> waiting s A j = []"
  using assms unfolding on_sems_def by blast

lemma on_sems_cong:
  assumes "on_sems U sem fr D Q s" and "\<And>i. i < MAXPROC \<Longrightarrow> Q' i = Q i"
  shows "on_sems U sem fr D Q' s"
  using assms unfolding on_sems_def by simp

lemma on_sems_print:
  assumes "quiet_print print"
  shows "delivers (on_sems U sem fr D Q) (print_line print msg) () (on_sems U sem fr D Q)"
proof (rule runs_print[OF assms])
  fix s m h assume "on_sems U sem fr D Q s"
  then show "on_sems U sem fr D Q (s\<lparr>mem := m, hw := h\<rparr>)"
  proof (rule on_semsE)
    fix A assume A: "krep (no_pids U) s A" "a_free A = fr" "set (a_det A) = D"
      "\<And>i. i < MAXPROC \<Longrightarrow> waiting s A (sem i) = Q i" "\<And>j. j \<notin> sem ` {..<MAXPROC} \<Longrightarrow> waiting s A j = []"
    have "krep (no_pids U) (s\<lparr>mem := m, hw := h\<rparr>) A" by (rule krep_cong[OF A(1)]) simp_all
    moreover have "waiting (s\<lparr>mem := m, hw := h\<rparr>) A j = waiting s A j" for j by (rule waiting_cong) simp_all
    ultimately show ?thesis by (intro on_semsI[of U _ A]) (use A in simp_all)
  qed
qed

section \<open>Steps\<close>

lemma reset_no_pids: "reset_pcb (no_pids U) = reset_pcb U"
  by (rule ext) (simp add: reset_pcb_def reset_state_def no_pids_def)

lemma on_sems_alloc: "delivers (on_sems U sem (p # fr) D Q) (alloc_pcb U) (Some p) (on_sems U sem fr (insert p D) Q)"
proof (rule runsI)
  fix s assume "on_sems U sem (p # fr) D Q s"
  then show "\<exists>s'. alloc_pcb U s = Ret (Some p) s' \<and> on_sems U sem fr (insert p D) Q s'"
  proof (rule on_semsE)
    fix A assume A: "krep (no_pids U) s A" "a_free A = p # fr" "set (a_det A) = D"
      "\<And>i. i < MAXPROC \<Longrightarrow> waiting s A (sem i) = Q i" "\<And>j. j \<notin> sem ` {..<MAXPROC} \<Longrightarrow> waiting s A j = []"
    let ?s' = "upd_pcb p (\<lambda>q. q\<lparr>p_pid := 0\<rparr>) (alloc_st (no_pids U) p s)"
    have addr: "pcb_addr (no_pids U) p = 0" by (simp add: pcb_addr_def no_pids_def)
    have r: "alloc_pcb (no_pids U) s = Ret (Some p) (alloc_st (no_pids U) p s)" "krep (no_pids U) ?s' (a_take p A)"
      by (rule alloc_krep[OF A(1,2), of "\<lambda>q. q\<lparr>p_pid := 0\<rparr>"]; simp add: addr)+
    have "p_pid (pcbs s p) = 0" using krepD(6)[OF A(1)] A(2) addr by (simp add: pid_ok_def)
    then have "p_pid (reset_pcb (no_pids U) (pcbs s p)) = 0" by (simp add: reset_pcb_def)
    then have "krep (no_pids U) (alloc_st (no_pids U) p s) (a_take p A)"
      by (intro krep_cong[OF r(2)]) simp_all
    moreover have "alloc_pcb (no_pids U) s = alloc_pcb U s"
      unfolding alloc_pcb_def reset_no_pids by (rule refl)
    moreover have "waiting (alloc_st (no_pids U) p s) (a_take p A) j = waiting s A j" for j by (rule waiting_cong) simp_all
    ultimately show ?thesis using r(1) A(2-5)
      by (intro exI[of _ "alloc_st (no_pids U) p s"] conjI on_semsI[of U _ "a_take p A"]) auto
  qed
qed

lemma on_sems_insert:
  assumes ok: "sems_ok sem one" and i: "i < MAXPROC" and p: "p \<notin> D"
  shows "delivers (on_sems U sem fr (insert p D) Q) (insert_blocked (sem i) p) False (on_sems U sem fr D (Q(i := Q i @ [p])))"
proof (rule runsI)
  fix s assume "on_sems U sem fr (insert p D) Q s"
  then show "\<exists>s'. insert_blocked (sem i) p s = Ret False s' \<and> on_sems U sem fr D (Q(i := Q i @ [p])) s'"
  proof (rule on_semsE)
    fix A assume A: "krep (no_pids U) s A" "a_free A = fr" "set (a_det A) = insert p D"
      "\<And>i. i < MAXPROC \<Longrightarrow> waiting s A (sem i) = Q i" "\<And>j. j \<notin> sem ` {..<MAXPROC} \<Longrightarrow> waiting s A j = []"
    note K = krepD[OF A(1)]
    have det: "p \<in> set (a_det A)" and nn: "sem i \<noteq> NULL" using A(3) ok i by (auto simp: sems_ok_def)
    obtain s' where s': "insert_blocked (sem i) p s = Ret False s'" "krep (no_pids U) s' (a_block s (sem i) p A)"
      "s_key s' = (case semd_of s A (sem i) of None \<Rightarrow> (s_key s)(hd (a_sfree A) := sem i) | Some _ \<Rightarrow> s_key s)"
      by (rule insert_blocked_refines[OF A(1) det nn])
    note w = waiting_block[OF K(1,2,4) det s'(3) krepD(4)[OF s'(2)]]
    have d: "distinct (a_det A)" using K(1) by (simp add: pcbs_wf_def a_alive_def)
    have "on_sems U sem fr D (Q(i := Q i @ [p])) s'"
      by (rule on_semsI[OF s'(2)]) (use A p d i sems_ok_eq[OF ok] in \<open>auto simp: w\<close>)
    with s'(1) show ?thesis by blast
  qed
qed

lemma on_sems_remove:
  assumes ok: "sems_ok sem one" and i: "i < MAXPROC" and Q: "Q i = p # ps"
  shows "delivers (on_sems U sem fr D Q) (remove_blocked (sem i)) (Some p) (on_sems U sem fr (insert p D) (Q(i := ps)))"
proof (rule runsI)
  fix s assume "on_sems U sem fr D Q s"
  then show "\<exists>s'. remove_blocked (sem i) s = Ret (Some p) s' \<and> on_sems U sem fr (insert p D) (Q(i := ps)) s'"
  proof (rule on_semsE)
    fix A assume A: "krep (no_pids U) s A" "a_free A = fr" "set (a_det A) = D"
      "\<And>i. i < MAXPROC \<Longrightarrow> waiting s A (sem i) = Q i" "\<And>j. j \<notin> sem ` {..<MAXPROC} \<Longrightarrow> waiting s A j = []"
    have w: "waiting s A (sem i) = p # ps" using A(4)[OF i] Q by simp
    obtain k s' where s': "remove_blocked (sem i) s = Ret (Some p) s'"
      "krep (no_pids U) s' (a_unblock k (p # ps) (k # a_sfree A) p A)"
      "\<And>j. waiting s' (a_unblock k (p # ps) (k # a_sfree A) p A) j = (if j = sem i then ps else waiting s A j)"
      by (rule remove_blocked_first[OF A(1) w]) blast
    have "on_sems U sem fr (insert p D) (Q(i := ps)) s'"
      by (rule on_semsI[OF s'(2)]) (use A i sems_ok_eq[OF ok] in \<open>auto simp: s'(3)\<close>)
    with s'(1) show ?thesis by blast
  qed
qed

lemma on_sems_none:
  assumes "i < MAXPROC" and "Q i = []"
  shows "delivers (on_sems U sem fr D Q) (remove_blocked (sem i)) None (on_sems U sem fr D Q)"
proof (rule runsI)
  fix s assume s: "on_sems U sem fr D Q s"
  then have "remove_blocked (sem i) s = Ret None s"
    using assms by (auto elim!: on_semsE intro: remove_blocked_empty)
  with s show "\<exists>s'. remove_blocked (sem i) s = Ret None s' \<and> on_sems U sem fr D Q s'" by blast
qed

lemma on_sems_head:
  assumes "i < MAXPROC" and "v = (case Q i of [] \<Rightarrow> None | p # _ \<Rightarrow> Some p)"
  shows "delivers (on_sems U sem fr D Q) (head_blocked (sem i)) v (on_sems U sem fr D Q)"
proof (rule runsI)
  fix s assume s: "on_sems U sem fr D Q s"
  then have "head_blocked (sem i) s = Ret v s"
    using assms by (auto elim!: on_semsE simp: head_blocked_run)
  with s show "\<exists>s'. head_blocked (sem i) s = Ret v s' \<and> on_sems U sem fr D Q s'" by blast
qed

lemma on_sems_out:
  assumes ok: "sems_ok sem one" and i: "i < MAXPROC" and Q: "Q i = p # ps"
  shows "delivers (on_sems U sem fr D Q) (out_blocked (Some p)) (Some p) (on_sems U sem fr (insert p D) (Q(i := ps)))"
proof (rule runsI)
  fix s assume "on_sems U sem fr D Q s"
  then show "\<exists>s'. out_blocked (Some p) s = Ret (Some p) s' \<and> on_sems U sem fr (insert p D) (Q(i := ps)) s'"
  proof (rule on_semsE)
    fix A assume A: "krep (no_pids U) s A" "a_free A = fr" "set (a_det A) = D"
      "\<And>i. i < MAXPROC \<Longrightarrow> waiting s A (sem i) = Q i" "\<And>j. j \<notin> sem ` {..<MAXPROC} \<Longrightarrow> waiting s A j = []"
    note K = krepD[OF A(1)]
    have w: "waiting s A (sem i) = p # ps" using A(4)[OF i] Q by simp
    obtain k where k: "(k, p # ps) \<in> set (a_asl A)" by (rule waiting_semd[OF A(1) w])
    obtain s' where s': "out_blocked (Some p) s = Ret (Some p) s'"
      "krep (no_pids U) s' (a_unblock k (p # ps) (a_sfree A @ [k]) p A)" "s_key s' = s_key s"
      by (rule out_blocked_refines[OF A(1) k list.set_intros(1)])
    note wu = waiting_unblock[OF K(1,2,4) k list.set_intros(1) s'(3) krepD(4)[OF s'(2)]]
    have here: "filter (\<lambda>x. x \<noteq> p) (p # ps) = ps"
      using blocked_not_elsewhere(7)[OF K(1,2) k list.set_intros(1)] by (auto intro: filter_True)
    have there: "filter (\<lambda>x. x \<noteq> p) (waiting s A j) = waiting s A j" if "j \<noteq> sem i" for j
    proof -
      have "p \<notin> set (waiting s A j)"
        using that waiting_blocked(2)[OF K(4), of p j] waiting_blocked(2)[OF K(4), of p "sem i"] w by auto
      then show ?thesis by (auto intro: filter_True)
    qed
    have "on_sems U sem fr (insert p D) (Q(i := ps)) s'"
    proof (rule on_semsI[OF s'(2)])
      fix j assume j: "j < MAXPROC"
      show "waiting s' (a_unblock k (p # ps) (a_sfree A @ [k]) p A) (sem j) = (Q(i := ps)) j"
      proof (cases "j = i")
        case True
        then show ?thesis by (simp add: wu w here del: filter.simps)
      next
        case False
        then show ?thesis using there[of "sem j"] sems_ok_eq[OF ok i j] A(4)[OF j] by (simp add: wu)
      qed
    next
      fix j assume "j \<notin> sem ` {..<MAXPROC}"
      then show "waiting s' (a_unblock k (p # ps) (a_sfree A @ [k]) p A) j = []"
        using A(5) by (simp add: wu)
    qed (use A in simp_all)
    with s'(1) show ?thesis by blast
  qed
qed

lemma on_sems_out_none:
  assumes "p \<in> D"
  shows "delivers (on_sems U sem fr D Q) (out_blocked (Some p)) None (on_sems U sem fr D Q)"
proof (rule runsI)
  fix s assume s: "on_sems U sem fr D Q s"
  then have "p_semAdd (pcbs s p) = NULL" using assms by (auto elim!: on_semsE dest!: krepD(4) simp: sem_ok_def)
  with s show "\<exists>s'. out_blocked (Some p) s = Ret None s' \<and> on_sems U sem fr D Q s'" by (simp add: out_blocked_def)
qed

text \<open>With a process on each semaphore of the test every descriptor is in use.\<close>

lemma on_sems_full:
  assumes ok: "sems_ok sem one" and ne: "\<And>i. i < MAXPROC \<Longrightarrow> Q i \<noteq> []"
  shows "delivers (on_sems U sem fr D Q) (insert_blocked one p) True (on_sems U sem fr D Q)"
proof (rule runsI)
  fix s assume s: "on_sems U sem fr D Q s"
  then have "insert_blocked one p s = Ret True s"
  proof (rule on_semsE)
    fix A assume A: "krep (no_pids U) s A"
      "\<And>i. i < MAXPROC \<Longrightarrow> waiting s A (sem i) = Q i" "\<And>j. j \<notin> sem ` {..<MAXPROC} \<Longrightarrow> waiting s A j = []"
    note K = krepD[OF A(1)]
    have "sem i \<in> set (map (s_key s \<circ> fst) (a_asl A))" if "i < MAXPROC" for i
      using A(2)[OF that] ne[OF that] by (rule_tac waiting_cases[OF K(4), of "sem i"]) (auto intro!: image_eqI)
    then have "card (sem ` {..<MAXPROC}) \<le> card (set (map (s_key s \<circ> fst) (a_asl A)))"
      by (intro card_mono) auto
    also have "\<dots> \<le> length (a_asl A)" using card_length[of "map (s_key s \<circ> fst) (a_asl A)"] by simp
    finally have "MAXPROC \<le> length (a_asl A)" using ok by (simp add: sems_ok_def card_image)
    moreover have "length (map fst (a_asl A) @ a_sfree A) = MAXPROC"
      using distinct_card[of "map fst (a_asl A) @ a_sfree A"] K(2) by (simp only: semds_wf_def) simp
    ultimately have "length (a_sfree A) = 0" unfolding length_append length_map by linarith
    then have "list_empty SemdFree (lh s)" using lists_rep_empty_iff[OF K(3), of SemdFree] by simp
    moreover have "semd_of s A one = None"
    proof (rule ccontr)
      assume "semd_of s A one \<noteq> None"
      then obtain iq where iq: "semd_of s A one = Some iq" by blast
      moreover have "one \<notin> sem ` {..<MAXPROC}" using ok by (auto simp: sems_ok_def)
      ultimately show False using A(3)[of one] semd_of_SomeD[OF iq] K(2) by (auto simp: waiting_def semds_wf_def)
    qed
    ultimately show ?thesis by (simp add: insert_blocked_def kbind_def get_semd_run[OF A(1)])
  qed
  with s show "\<exists>s'. insert_blocked one p s = Ret True s' \<and> on_sems U sem fr D Q s'" by blast
qed

section \<open>From the pool to the semaphores\<close>

lemma start_asl:
  fixes U :: "'h plat"
  assumes fr: "distinct fr" "set fr = {..<MAXPROC}"
  shows "delivers (p1 fr qa {} fam []) (kmodify init_asl) () (on_sems U sem fr {} (\<lambda>_. []))"
proof (rule runs_kmodify)
  fix s :: "'h kst" assume P: "p1 fr qa {} fam [] s"
  let ?L = "p1_lists fr qa {} fam []"
  let ?A = "\<lparr>a_free = fr, a_lq = [], a_hq = [], a_asl = [], a_sfree = [0..<MAXPROC], a_kids = \<lambda>_. [], a_det = []\<rparr>"
  have "avoids asl_ref ?L" unfolding avoids_def
  proof (intro allI impI ballI)
    fix h xs x assume "?L h = Some xs" "x \<in> set (h # xs)"
    then show "\<not> asl_ref x" by (cases h) (auto simp: p1_lists_def split: if_splits)
  qed
  then have r: "lists_rep (lh (init_asl s)) (semd_pool ?L MAXPROC)"
    using P by (intro init_asl_rep) (simp_all add: p1_def)
  have "lists_rep (lh (init_asl s)) (L_of ?A)"
  proof (rule lists_rep_submap[OF r], rule submapI)
    fix h xs assume "L_of ?A h = Some xs"
    then show "semd_pool ?L MAXPROC h = Some xs"
      by (cases h) (auto simp: semd_pool_def p1_lists_def a_alive_def a_blocked_def split: if_splits)
  qed
  moreover have "pcbs_wf ?A" using fr by (simp add: pcbs_wf_def a_alive_def a_blocked_def)
  moreover have "semds_wf ?A" by (auto simp: semds_wf_def)
  moreover have pc: "pcbs (init_asl s) = pcbs s" by (rule init_asl_pcbs)
  then have "sem_ok (init_asl s) ?A" using P fr by (simp add: sem_ok_def p1_def)
  moreover have "tree_ok (init_asl s) ?A" by (simp add: tree_ok_def tree_rel_def a_alive_def a_blocked_def acyclic_def)
  moreover have "pid_ok (no_pids U) (init_asl s) ?A" using P fr pc by (auto simp: pid_ok_def p1_def a_alive_def a_blocked_def)
  ultimately have "krep (no_pids U) (init_asl s) ?A" by (simp add: krep_def)
  then show "on_sems U sem fr {} (\<lambda>_. []) (init_asl s)"
    by (rule on_semsI) (simp_all add: waiting_def semd_of_def)
qed

section \<open>The parts of the test\<close>

text \<open>
  \<open>proc_on fr i\<close> is the PCB the test allocates for semaphore \<open>i\<close>, from the free list \<open>fr\<close>: the
  first ten go to the semaphores from 10 on, the other ten to those from 0 on.
\<close>

definition proc_on :: "nat list \<Rightarrow> nat \<Rightarrow> nat" where
  "proc_on fr i = fr ! (if 10 \<le> i then i - 10 else i + 10)"

definition procs_from :: "nat list \<Rightarrow> (nat \<Rightarrow> bool) \<Rightarrow> (nat \<Rightarrow> nat option) \<Rightarrow> nat \<Rightarrow> nat option" where
  "procs_from fr done procp0 = (\<lambda>i. if done i then Some (proc_on fr i) else procp0 i)"

definition queues_from :: "nat list \<Rightarrow> (nat \<Rightarrow> bool) \<Rightarrow> nat \<Rightarrow> nat list" where
  "queues_from fr done = (\<lambda>i. if done i then [proc_on fr i] else [])"

lemma step_block:
  assumes ok: "sems_ok sem one" and i: "i < MAXPROC" and new: "\<not> done i" and p: "proc_on fr i = p"
  shows "delivers (on_sems U sem (p # fs) {} (queues_from fr done)) (p1_block U print_err sem msg i (procs_from fr done procp0))
    (procs_from fr (\<lambda>j. j = i \<or> done j) procp0) (on_sems U sem fs {} (queues_from fr (\<lambda>j. j = i \<or> done j)))"
  unfolding p1_block_def
proof (rule runs_kbind[OF on_sems_alloc], rule runs_bind_pcb, rule on_sems_insert[OF ok i])
  let ?Q = "(queues_from fr done)(i := queues_from fr done i @ [p])"
  have "?Q = queues_from fr (\<lambda>j. j = i \<or> done j)"
    "(procs_from fr done procp0)(i := Some p) = procs_from fr (\<lambda>j. j = i \<or> done j) procp0"
    using new p by (auto simp: queues_from_def procs_from_def)
  then show "delivers (on_sems U sem fs {} ?Q) (kseq (check print_err False msg) (kreturn ((procs_from fr done procp0)(i := Some p))))
      (procs_from fr (\<lambda>j. j = i \<or> done j) procp0) (on_sems U sem fs {} (queues_from fr (\<lambda>j. j = i \<or> done j)))"
    by (simp add: runs_kseq[OF runs_check] runs_kreturn)
qed simp

lemma run_block_high:
  assumes ok: "sems_ok sem one" and fr: "length fr = MAXPROC"
  shows "delivers (on_sems U sem fr {} (\<lambda>_. [])) (kfor [10..<MAXPROC] (p1_block U print_err sem msg) procp0)
    (procs_from fr (\<lambda>i. 10 \<le> i \<and> i < MAXPROC) procp0) (on_sems U sem (drop 10 fr) {} (queues_from fr (\<lambda>i. 10 \<le> i \<and> i < MAXPROC)))"
proof -
  let ?d = "\<lambda>k i. 10 \<le> i \<and> i < 10 + (k :: nat)"
  let ?I = "\<lambda>k. on_sems U sem (drop k fr) {} (queues_from fr (?d k))"
  have "delivers (?I k) (p1_block U print_err sem msg ([10..<MAXPROC] ! k) (procs_from fr (?d k) procp0))
      (procs_from fr (?d (Suc k)) procp0) (?I (Suc k))"
    if "k < length [10..<MAXPROC]" for k
  proof -
    have k: "k < 10" "[10..<MAXPROC] ! k = 10 + k" "10 + k < MAXPROC" using that by (auto simp: MAXPROC_def nth_append simp del: upt_rec_numeral)
    have d: "?d (Suc k) = (\<lambda>j. j = 10 + k \<or> ?d k j)" by auto
    have f: "drop k fr = fr ! k # drop (Suc k) fr" using fr k by (simp add: Cons_nth_drop_Suc MAXPROC_def)
    show ?thesis unfolding k(2) d f
      by (rule step_block[OF ok k(3)]) (simp_all add: proc_on_def)
  qed
  from runs_kfor[of "[10..<MAXPROC]" ?I "p1_block U print_err sem msg" "\<lambda>k. procs_from fr (?d k) procp0", OF this]
  have "delivers (?I 0) (kfor [10..<MAXPROC] (p1_block U print_err sem msg) (procs_from fr (?d 0) procp0)) (procs_from fr (?d 10) procp0) (?I 10)"
    by (simp add: MAXPROC_def del: upt_rec_numeral)
  moreover have "queues_from fr (?d 0) = (\<lambda>_. [])" "procs_from fr (?d 0) procp0 = procp0"
    by (auto simp: queues_from_def procs_from_def intro!: ext)
  ultimately show ?thesis by (simp add: MAXPROC_def)
qed

lemma run_block_low:
  assumes ok: "sems_ok sem one" and fr: "length fr = MAXPROC"
  shows "delivers (on_sems U sem (drop 10 fr) {} (queues_from fr (\<lambda>i. 10 \<le> i \<and> i < MAXPROC)))
    (kfor [0..<10] (p1_block U print_err sem msg) (procs_from fr (\<lambda>i. 10 \<le> i \<and> i < MAXPROC) procp0))
    (procs_from fr (\<lambda>i. i < MAXPROC) procp0) (on_sems U sem [] {} (queues_from fr (\<lambda>i. i < MAXPROC)))"
proof -
  let ?d = "\<lambda>k i. 10 \<le> i \<and> i < MAXPROC \<or> i < k"
  let ?I = "\<lambda>k. on_sems U sem (drop (10 + k) fr) {} (queues_from fr (?d k))"
  have "delivers (?I k) (p1_block U print_err sem msg ([0..<10] ! k) (procs_from fr (?d k) procp0))
      (procs_from fr (?d (Suc k)) procp0) (?I (Suc k))"
    if "k < length [0..<10]" for k
  proof -
    have k: "k < 10" "[0..<10] ! k = k" "k < MAXPROC" using that by (auto simp: MAXPROC_def simp del: upt_rec_numeral)
    have d: "?d (Suc k) = (\<lambda>j. j = k \<or> ?d k j)" by auto
    have f: "drop (10 + k) fr = fr ! (10 + k) # drop (10 + Suc k) fr"
      using fr k Cons_nth_drop_Suc[of "10 + k" fr] by (simp add: MAXPROC_def)
    show ?thesis unfolding k(2) d f
      by (rule step_block[OF ok k(3)]) (use k in \<open>simp_all add: proc_on_def add.commute\<close>)
  qed
  from runs_kfor[of "[0..<10]" ?I "p1_block U print_err sem msg" "\<lambda>k. procs_from fr (?d k) procp0", OF this]
  have "delivers (?I 0) (kfor [0..<10] (p1_block U print_err sem msg) (procs_from fr (?d 0) procp0)) (procs_from fr (?d 10) procp0) (?I 10)"
    by (simp del: upt_rec_numeral)
  moreover have "?d 10 = (\<lambda>i. i < MAXPROC)" by (auto simp: MAXPROC_def)
  moreover have "drop (10 + 10) fr = []" using fr by (simp add: MAXPROC_def)
  ultimately show ?thesis by simp
qed

lemma run_asl_fill:
  assumes pr: "quiet_print print" and ok: "sems_ok sem one" and fr: "distinct fr" "set fr = {..<MAXPROC}"
  shows "delivers (p1 fr qa {} fam []) (p1_asl_fill U print print_err sem one procp0)
    (procs_from fr (\<lambda>i. i < MAXPROC) procp0) (on_sems U sem [] {} (queues_from fr (\<lambda>i. i < MAXPROC)))"
proof -
  have n: "length fr = MAXPROC" using distinct_card[OF fr(1)] fr(2) by simp
  let ?Q = "queues_from fr (\<lambda>i. i < MAXPROC)"
  have i: "11 < MAXPROC" "9 < MAXPROC" by (simp_all add: MAXPROC_def)
  have Q: "?Q 11 = [proc_on fr 11]" "procs_from fr (\<lambda>i. i < MAXPROC) procp0 9 = Some (proc_on fr 9)"
    using i by (simp_all add: queues_from_def procs_from_def)
  have again: "(?Q(11 := []))(11 := (?Q(11 := [])) 11 @ [proc_on fr 11]) = ?Q" using Q by auto
  note take = on_sems_remove[where U = U and Q = ?Q, OF ok i(1) Q(1)]
  have put: "delivers (on_sems U sem [] (insert (proc_on fr 11) {}) (?Q(11 := []))) (insert_blocked (sem 11) (proc_on fr 11)) False (on_sems U sem [] {} ?Q)"
    using on_sems_insert[OF ok i(1), where U = U and fr = "[]" and D = "{}" and p = "proc_on fr 11" and Q = "?Q(11 := [])"] unfolding again by simp
  have full: "delivers (on_sems U sem [] {} ?Q) (insert_blocked one (proc_on fr 9)) True (on_sems U sem [] {} ?Q)"
    by (rule on_sems_full[OF ok]) (simp add: queues_from_def)
  note steps = runs_kseq[OF start_asl[OF fr]] runs_kseq[OF p1_print[OF pr]] runs_kseq[OF on_sems_print[OF pr]]
    runs_kbind[OF run_block_high[OF ok n]] runs_kbind[OF run_block_low[OF ok n]] runs_kbind[OF take]
    runs_bind_pcb[where f = "insert_blocked (sem 11)", OF put] runs_bind_pcb[where f = "insert_blocked one", OF full]
    runs_kseq[OF runs_check] runs_kreturn
  show ?thesis unfolding p1_asl_fill_def by (rule steps | simp add: Q(2))+
qed

text \<open>The queues after \<open>k\<close> of the last ten semaphores gave their process to the first ten.\<close>

definition moved :: "nat list \<Rightarrow> nat \<Rightarrow> nat \<Rightarrow> nat list" where
  "moved fr k = (\<lambda>i. if i < 10 then proc_on fr i # (if i < k then [proc_on fr (i + 10)] else [])
     else if 10 + k \<le> i \<and> i < MAXPROC then [proc_on fr i] else [])"

lemma step_move:
  assumes ok: "sems_ok sem one" and k: "k < 10" and procp: "procp (10 + k) = Some (proc_on fr (10 + k))"
  shows "delivers (on_sems U sem [] {} (moved fr k)) (kbind (remove_blocked (sem (10 + k))) (\<lambda>q.
         kseq (check print_err (q = None) m1)
        (kseq (check print_err (q \<noteq> procp (10 + k)) m2)
        (kbind (with_pcb q (insert_blocked (sem (10 + k - 10)))) (\<lambda>full. check print_err full m3)))))
    () (on_sems U sem [] {} (moved fr (Suc k)))"
proof -
  let ?p = "proc_on fr (10 + k)"
  have i: "10 + k < MAXPROC" "10 + k - 10 < MAXPROC" using k by (simp_all add: MAXPROC_def)
  have Q: "moved fr k (10 + k) = [?p]" using i by (simp add: moved_def)
  have to: "(moved fr k)(10 + k := [], 10 + k - 10 := ((moved fr k)(10 + k := [])) (10 + k - 10) @ [?p]) = moved fr (Suc k)"
    using k by (auto simp: moved_def add.commute intro!: ext)
  have put: "delivers (on_sems U sem [] (insert ?p {}) ((moved fr k)(10 + k := []))) (insert_blocked (sem (10 + k - 10)) ?p) False
      (on_sems U sem [] {} (moved fr (Suc k)))"
    using on_sems_insert[OF ok i(2), where U = U and fr = "[]" and D = "{}" and p = ?p and Q = "(moved fr k)(10 + k := [])"]
    unfolding to by simp
  show ?thesis
    by (rule runs_kbind[OF on_sems_remove[where Q = "moved fr k", OF ok i(1) Q]] runs_kseq[OF runs_check]
        runs_bind_pcb[where f = "insert_blocked (sem (10 + k - 10))", OF put] runs_check | simp add: procp)+
qed

lemma run_asl_move:
  assumes pr: "quiet_print print" and ok: "sems_ok sem one"
    and procp: "\<And>i. i < MAXPROC \<Longrightarrow> procp i = Some (proc_on fr i)"
  shows "delivers (on_sems U sem [] {} (queues_from fr (\<lambda>i. i < MAXPROC))) (p1_asl_move print print_err sem procp) ()
    (on_sems U sem [] {} (moved fr 10))"
proof -
  let ?body = "\<lambda>i _ :: unit. kbind (remove_blocked (sem i)) (\<lambda>q.
         kseq (check print_err (q = None) ''remove_blocked: wouldn't remove   '')
        (kseq (check print_err (q \<noteq> procp i) ''remove_blocked: removed wrong element   '')
        (kbind (with_pcb q (insert_blocked (sem (i - 10)))) (\<lambda>full.
         check print_err full ''insert_blocked(3): unexpected TRUE   ''))))"
  let ?I = "\<lambda>k. on_sems U sem [] {} (moved fr k)"
  have "delivers (?I k) (?body ([10..<MAXPROC] ! k) ()) () (?I (Suc k))" if "k < length [10..<MAXPROC]" for k
  proof -
    have k: "k < 10" "[10..<MAXPROC] ! k = 10 + k" "10 + k < MAXPROC"
      using that by (auto simp: MAXPROC_def nth_append simp del: upt_rec_numeral)
    show ?thesis unfolding k(2) by (rule step_move[OF ok k(1)]) (rule procp[OF k(3)])
  qed
  from runs_kfor[of "[10..<MAXPROC]" ?I ?body "\<lambda>_. ()", OF this]
  have loop: "delivers (?I 0) (kfor [10..<MAXPROC] ?body ()) () (?I 10)" by (simp add: MAXPROC_def del: upt_rec_numeral)
  have start: "queues_from fr (\<lambda>i. i < MAXPROC) = moved fr 0" by (auto simp: queues_from_def moved_def MAXPROC_def intro!: ext)
  have none: "delivers (?I 10) (remove_blocked (sem 11)) None (?I 10)"
    by (rule on_sems_none) (simp_all add: MAXPROC_def moved_def)
  show ?thesis unfolding p1_asl_move_def start
    by (rule runs_kseq[OF on_sems_print[OF pr]] on_sems_print[OF pr] runs_kseq[OF loop] runs_kbind[OF none] runs_kseq[OF runs_check] | simp)+
qed

lemma run_asl_heads:
  assumes pr: "quiet_print print" and ok: "sems_ok sem one"
    and procp: "\<And>i. i < MAXPROC \<Longrightarrow> procp i = Some (proc_on fr i)"
  shows "delivers (on_sems U sem [] {} (moved fr 10)) (p1_asl_heads print print_err sem procp) ()
    (on_sems U sem [] {proc_on fr 9, proc_on fr 19} ((moved fr 10)(9 := [])))"
proof -
  let ?Q = "moved fr 10" and ?p = "proc_on fr 9" and ?q = "proc_on fr 19"
  have i: "9 < MAXPROC" "11 < MAXPROC" "19 < MAXPROC" by (simp_all add: MAXPROC_def)
  have Q: "?Q 9 = [?p, ?q]" "?Q 11 = []" by (simp_all add: moved_def)
  have head: "delivers (on_sems U sem [] D Q') (head_blocked (sem 9)) (case Q' 9 of [] \<Rightarrow> None | x # _ \<Rightarrow> Some x) (on_sems U sem [] D Q')" for D Q'
    by (rule on_sems_head[OF i(1) refl])
  have h11: "delivers (on_sems U sem [] {} ?Q) (head_blocked (sem 11)) None (on_sems U sem [] {} ?Q)"
    by (rule on_sems_head[OF i(2)]) (simp add: Q)
  note h1 = head[of "{}" ?Q, unfolded Q list.case]
  have h2: "delivers (on_sems U sem [] {?p} (?Q(9 := [?q]))) (head_blocked (sem 9)) (Some ?q) (on_sems U sem [] {?p} (?Q(9 := [?q])))"
    using head[of "{?p}" "?Q(9 := [?q])"] by simp
  have h3: "delivers (on_sems U sem [] {?p, ?q} (?Q(9 := []))) (head_blocked (sem 9)) None (on_sems U sem [] {?p, ?q} (?Q(9 := [])))"
    using head[of "{?p, ?q}" "?Q(9 := [])"] by simp
  note o1 = on_sems_out[where Q = ?Q and D = "{}" and fr = "[]" and U = U, OF ok i(1) Q(1)]
  have o2: "delivers (on_sems U sem [] {?p} (?Q(9 := [?q]))) (out_blocked (Some ?q)) (Some ?q) (on_sems U sem [] {?p, ?q} (?Q(9 := [])))"
    using on_sems_out[where Q = "?Q(9 := [?q])" and D = "{?p}" and fr = "[]" and U = U and p = ?q and ps = "[]", OF ok i(1)]
    by (simp add: insert_commute)
  have o3: "delivers (on_sems U sem [] {?p, ?q} (?Q(9 := []))) (out_blocked (Some ?q)) None (on_sems U sem [] {?p, ?q} (?Q(9 := [])))"
    by (rule on_sems_out_none) simp
  note steps = runs_kseq[OF on_sems_print[OF pr]] on_sems_print[OF pr] runs_kbind[OF h11] runs_kbind[OF h1] runs_kbind[OF o1]
    runs_kbind[OF h2] runs_kbind[OF o2] runs_kbind[OF o3] runs_kbind[OF h3] runs_kseq[OF runs_check]
  show ?thesis unfolding p1_asl_heads_def by (rule steps | simp add: procp i)+
qed

section \<open>The whole test\<close>

lemma run_p1test:
  assumes pr: "quiet_print print" and ok: "sems_ok sem one"
  shows "delivers test_start (p1test U print print_err sem one procp0) 0 (\<lambda>_. True)"
proof -
  let ?fr = "rev [0..<10] @ [10, 11, 12, 13, 15, 16, 17, 18, 14, 19]"
  let ?procp = "procs_from ?fr (\<lambda>i. i < MAXPROC) (all_pcbs MAXPROC procp0)"
  have fr: "distinct ?fr" "set ?fr = {..<MAXPROC}"
    by simp (rule set_eqI, simp add: MAXPROC_def, presburger)
  have a: "all_pcbs MAXPROC procp0 i = Some i" if "i < MAXPROC" for i using that by (simp add: all_pcbs_def)
  have p: "?procp i = Some (proc_on ?fr i)" if "i < MAXPROC" for i using that by (simp add: procs_from_def)
  have a0: "all_pcbs MAXPROC procp0 0 = Some 0" by (rule a) (simp add: MAXPROC_def)
  have last: "delivers P (kreturn 0) 0 (\<lambda>_. True)" for P :: "'a kst \<Rightarrow> bool" by (simp add: delivers_def kreturn_def)
  show ?thesis
    unfolding p1test_def
    by (rule runs_kbind[OF run_pool[OF pr]], rule runs_kbind[OF run_fill[OF pr]], unfold prod.case,
        rule runs_kseq[OF run_out[where procp = "all_pcbs MAXPROC procp0", OF pr a0]], rule runs_kseq[OF run_drain[OF pr]], rule runs_kseq[OF run_trees[OF pr a]], assumption,
        rule runs_kbind[OF run_asl_fill[OF pr ok fr]], rule runs_kseq[OF run_asl_move[OF pr ok p]], assumption,
        rule runs_kseq[OF run_asl_heads[OF pr ok p]], assumption, rule last)
qed

end
