(* ===== verification/P2_Test.thy ===== *)
theory P2_Test
  imports Init_Proc
begin

text \<open>
  The phase 2 test program of the repository, \<open>old_test/p2test.c\<close>: the processes it starts, as
  programs over the memory they share and the system calls they make. They run in kernel mode, so
  their state is the one of the support level and the kernel is the same parameter. A variable or a
  function is the address the linker gives its name.
\<close>

section \<open>What the program takes from outside\<close>

text \<open>
  \<open>sym\<close> is the symbol table, \<open>STST\<close> the processor state the instruction of that name stores, and
  \<open>traps\<close> says which addresses the machine does not let a process touch.
\<close>

record 'h symbols =
  sym :: "string \<Rightarrow> u32"
  STST :: "'h \<Rightarrow> state_t"
  traps :: "u32 \<Rightarrow> bool"

definition PRINTCHR :: u32 where "PRINTCHR = 2"
definition RECVD :: u32 where "RECVD = 5"
definition CLOCKINTERVAL :: u32 where "CLOCKINTERVAL = 100000"
definition CAUSEMASK :: u32 where "CAUSEMASK = 0xFF"
definition BUSERROR :: u32 where "BUSERROR = 6"
definition RESVINSTR :: u32 where "RESVINSTR = 10"
definition ADDRERROR :: u32 where "ADDRERROR = 4"
definition SYSCALLEXCPT :: u32 where "SYSCALLEXCPT = 8"
definition QPAGE :: u32 where "QPAGE = 1024"
definition IEPBITON :: u32 where "IEPBITON = 0x4"
definition KUPBITON :: u32 where "KUPBITON = 0x8"
definition KUPBITOFF :: u32 where "KUPBITOFF = 0xFFFFFFF7"
definition TEBITON :: u32 where "TEBITON = 0x08000000"
definition CAUSEINTMASK :: u32 where "CAUSEINTMASK = 0xFD00"
definition MINLOOPTIME :: int where "MINLOOPTIME = 30000"
definition CLOCKLOOP :: nat where "CLOCKLOOP = 10"
definition MINCLOCKLOOP :: int where "MINCLOCKLOOP = 3000"
definition BADADDR :: u32 where "BADADDR = 0xFFFFFFFF"
definition TERM0ADDR :: u32 where "TERM0ADDR = 0x10000254"
definition NOLEAVES :: nat where "NOLEAVES = 4"
definition MAXSEM :: nat where "MAXSEM = 20"

lemmas p2_masks = CAUSEMASK_def BUSERROR_def RESVINSTR_def ADDRERROR_def SYSCALLEXCPT_def KUPBITON_def KUPBITOFF_def

section \<open>Variables, semaphores and the terminal\<close>

definition var :: "'h symbols \<Rightarrow> string \<Rightarrow> 'h ust \<Rightarrow> u32" where
  "var T x s = cells s (sym T x)"

definition set_var :: "'h symbols \<Rightarrow> string \<Rightarrow> u32 \<Rightarrow> (unit, 'h) um" where
  "set_var T x v = kmodify (set_cell (sym T x) v)"

text \<open>A word of the arrays \<open>s\<close> and \<open>sem_endcreate\<close>.\<close>

definition word_at :: "'h symbols \<Rightarrow> string \<Rightarrow> nat \<Rightarrow> u32" where
  "word_at T x i = sym T x + 4 * of_nat i"

definition touch :: "'h symbols \<Rightarrow> u32 \<Rightarrow> (unit, 'h) um" where
  "touch T a = (if traps T a then kstop (Trapped a) else kreturn ())"

definition store :: "'h symbols \<Rightarrow> u32 \<Rightarrow> u32 \<Rightarrow> (unit, 'h) um" where
  "store T a v = kseq (touch T a) (kmodify (set_cell a v))"

definition call :: "'h splat \<Rightarrow> int \<Rightarrow> u32 \<Rightarrow> u32 \<Rightarrow> u32 \<Rightarrow> (unit, 'h) um" where
  "call X n a1 a2 a3 = kseq (syscall X n a1 a2 a3) (kreturn ())"

definition p_sem :: "'h splat \<Rightarrow> u32 \<Rightarrow> (unit, 'h) um" where
  "p_sem X a = call X PASSEREN a 0 0"

definition v_sem :: "'h splat \<Rightarrow> u32 \<Rightarrow> (unit, 'h) um" where
  "v_sem X a = call X VERHOGEN a 0 0"

text \<open>Printing on the first terminal, under its semaphore.\<close>

definition term_command :: u32 where
  "term_command = TERM0ADDR + 12"

fun print_loop :: "'h splat \<Rightarrow> 'h symbols \<Rightarrow> string \<Rightarrow> (unit, 'h) um" where
  "print_loop X T [] = v_sem X (sym T ''sem_term_mut'')"
| "print_loop X T (c # cs) =
     kbind (syscall X DOIO term_command (PRINTCHR OR push_bit 8 (of_char c)) 0) (\<lambda>status.
       if status AND TERMSTATMASK \<noteq> RECVD then panic else print_loop X T cs)"

definition print :: "'h splat \<Rightarrow> 'h symbols \<Rightarrow> string \<Rightarrow> (unit, 'h) um" where
  "print X T msg = kseq (p_sem X (sym T ''sem_term_mut'')) (print_loop X T msg)"

definition print_line :: "'h splat \<Rightarrow> 'h symbols \<Rightarrow> string \<Rightarrow> (unit, 'h) um" where
  "print_line X T msg = print X T (msg @ [CHR 0x0A])"

text \<open>What is left to do when a process that should have ended goes on.\<close>

definition still_alive :: "'h splat \<Rightarrow> 'h symbols \<Rightarrow> string \<Rightarrow> (unit, 'h) um" where
  "still_alive X T msg = kseq (print_line X T msg) panic"

definition each :: "nat list \<Rightarrow> (nat \<Rightarrow> (unit, 'h) um) \<Rightarrow> (unit, 'h) um" where
  "each is body = fold (\<lambda>i m. kseq m (body i)) is (kreturn ())"

definition p2_refill :: "'h splat \<Rightarrow> (unit, 'h) um" where
  "p2_refill X =
     kseq (kmodify (upd_uhw (TLBWR X \<circ> setENTRYLO X 0 \<circ> setENTRYHI X 0x80000000)))
          (kread (\<lambda>s. kstop (Resumed (sup_states s 0x0FFFF000))))"

section \<open>The root process\<close>

text \<open>
  The processor state of a process: the one \<open>STST\<close> stores, with the stack \<open>n\<close> pages below the stack
  of another one, or of itself.
\<close>

definition start_state :: "'h splat \<Rightarrow> 'h symbols \<Rightarrow> u32 \<Rightarrow> u32 \<Rightarrow> state_t \<Rightarrow> state_t" where
  "start_state X T stack fn st =
     (let st1 = set_reg (reg_sp X) stack st;
          st2 = (set_reg (reg_t9 X) fn st1)\<lparr>pc_epc := fn\<rparr>
      in st2\<lparr>status := status st2 OR IEPBITON OR CAUSEINTMASK OR TEBITON\<rparr>)"

definition set_up :: "'h splat \<Rightarrow> 'h symbols \<Rightarrow> string \<times> string \<times> nat \<times> string \<Rightarrow> 'h ust \<Rightarrow> 'h ust" where
  "set_up X T e s =
     (case e of (st, base, n, fn) \<Rightarrow>
        let now = (sup_states s)(sym T st := STST T (uhw s));
            stack = gpr (now (sym T base)) (reg_sp X) - of_nat n * QPAGE
        in s\<lparr>sup_states := now(sym T st := start_state X T stack (sym T fn) (now (sym T st)))\<rparr>)"

text \<open>Each process: its state, the state whose stack it starts below, by how many pages, and its function.\<close>

definition p2_first :: "(string \<times> string \<times> nat \<times> string) list" where
  "p2_first =
     [(''hp_p1state'', ''hp_p1state'', 1, ''hp_p1''), (''hp_p2state'', ''hp_p1state'', 1, ''hp_p2''),
      (''p2state'', ''hp_p2state'', 1, ''p2''), (''p3state'', ''p2state'', 1, ''p3''), (''p4state'', ''p3state'', 1, ''p4''),
      (''p5state'', ''p4state'', 2, ''p5'')]"

definition p2_others :: "(string \<times> string \<times> nat \<times> string) list" where
  "p2_others =
     [(''p6state'', ''p5state'', 2, ''p6''), (''p7state'', ''p6state'', 1, ''p7''), (''p8rootstate'', ''p7state'', 1, ''p8root''),
      (''child1state'', ''p8rootstate'', 1, ''child1''), (''child2state'', ''child1state'', 1, ''child2''),
      (''gchild1state'', ''child2state'', 1, ''p8leaf1''), (''gchild2state'', ''gchild1state'', 1, ''p8leaf2''),
      (''gchild3state'', ''gchild2state'', 1, ''p8leaf3''), (''gchild4state'', ''gchild3state'', 1, ''p8leaf4''),
      (''p9state'', ''gchild4state'', 1, ''p9''), (''p10state'', ''p9state'', 1, ''p10'')]"

definition p2_states :: "'h splat \<Rightarrow> 'h symbols \<Rightarrow> 'h ust \<Rightarrow> 'h ust" where
  "p2_states X T s =
     (let s1 = fold (set_up X T) p2_first s;
          s2 = set_cell (sym T ''p5Stack'') (gpr (sup_states s1 (sym T ''p5state'')) (reg_sp X)) s1
      in fold (set_up X T) p2_others s2)"

definition create :: "'h splat \<Rightarrow> 'h symbols \<Rightarrow> string \<Rightarrow> u32 \<Rightarrow> u32 \<Rightarrow> (u32, 'h) um" where
  "create X T st prio support = syscall X CREATEPROCESS (sym T st) prio support"

definition start :: "'h splat \<Rightarrow> 'h symbols \<Rightarrow> string \<Rightarrow> u32 \<Rightarrow> u32 \<Rightarrow> (unit, 'h) um" where
  "start X T st prio support = kseq (create X T st prio support) (kreturn ())"

definition start_pid :: "'h splat \<Rightarrow> 'h symbols \<Rightarrow> string \<Rightarrow> string \<Rightarrow> u32 \<Rightarrow> (unit, 'h) um" where
  "start_pid X T pidvar st support = kbind (create X T st PROCESS_PRIO_LOW support) (set_var T pidvar)"

text \<open>The contexts that \<open>p5\<close> has its exceptions passed up to.\<close>

definition p5_contexts :: "'h symbols \<Rightarrow> 'h ust \<Rightarrow> 'h ust" where
  "p5_contexts T s =
     (let cx = (\<lambda>fn. \<lparr>cx_stackPtr = var T ''p5Stack'' s, cx_status = ALLOFF OR IEPBITON OR CAUSEINTMASK OR TEBITON,
                        cx_pc = sym T fn\<rparr>)
      in upd_sup (sym T ''pFiveSupport'') (\<lambda>q. q\<lparr>sup_exceptContext :=
           (sup_exceptContext q)(GENERALEXCEPT := cx ''p5gen'', PGFAULTEXCEPT := cx ''p5mm'')\<rparr>) s)"

definition p8_round :: "'h splat \<Rightarrow> 'h symbols \<Rightarrow> nat \<Rightarrow> (unit, 'h) um" where
  "p8_round X T i =
     kseq (set_var T ''p8inc'' (of_nat i))
    (kseq (set_var T ''sem_blkp8'' 0)
    (kseq (set_var T ''sem_endp8'' 0)
    (kseq (each [0..<NOLEAVES] (\<lambda>j. kmodify (set_cell (word_at T ''sem_endcreate'' j) 0)))
    (kseq (start_pid X T ''p8pid'' ''p8rootstate'' NULL)
          (p_sem X (sym T ''sem_endp8''))))))"

definition p2_test_end :: "'h splat \<Rightarrow> 'h symbols \<Rightarrow> (unit, 'h) um" where
  "p2_test_end X T =
     kseq (each [0..<4] (p8_round X T))
    (kseq (set_var T ''p8inc'' 4)
    (kseq (print_line X T ''p1 finishes OK -- TTFN'')
    (kseq (store T BADADDR 0)
          (still_alive X T ''error: p1 still alive after progtrap & no trap vector''))))"

definition p2_test_middle :: "'h splat \<Rightarrow> 'h symbols \<Rightarrow> (unit, 'h) um" where
  "p2_test_middle X T =
     kseq (start_pid X T ''p3pid'' ''p3state'' NULL)
    (kseq (print_line X T ''p3 is started'')
    (kseq (p_sem X (sym T ''sem_endp3''))
    (kseq (start X T ''hp_p1state'' PROCESS_PRIO_HIGH NULL)
    (kseq (start X T ''hp_p2state'' PROCESS_PRIO_HIGH NULL)
    (kseq (start_pid X T ''p4pid'' ''p4state'' NULL)
    (kseq (kmodify (p5_contexts T))
    (kseq (start X T ''p5state'' PROCESS_PRIO_LOW (sym T ''pFiveSupport''))
    (kseq (start X T ''p6state'' PROCESS_PRIO_LOW NULL)
    (kseq (start X T ''p7state'' PROCESS_PRIO_LOW NULL)
    (kseq (start_pid X T ''p9pid'' ''p9state'' NULL)
    (kseq (p_sem X (sym T ''sem_endp5''))
    (kseq (print_line X T ''p1 knows p5 ended'')
          (p_sem X (sym T ''sem_blkp4''))))))))))))))"

definition test_proc :: "'h splat \<Rightarrow> 'h symbols \<Rightarrow> (unit, 'h) um" where
  "test_proc X T =
     kseq (v_sem X (sym T ''sem_testsem''))
    (kseq (print_line X T ''p1 v(sem_testsem)'')
    (kseq (kmodify (p2_states X T))
    (kseq (start_pid X T ''p2pid'' ''p2state'' NULL)
    (kseq (print_line X T ''p2 was started'')
    (kseq (v_sem X (sym T ''sem_startp2''))
    (kseq (v_sem X (sym T ''sem_endp2''))
    (kseq (kread (\<lambda>s. if var T ''p1p2synch'' s = 0 then print_line X T ''error: p1/p2 synchronization bad'' else kreturn ()))
    (kseq (p2_test_middle X T)
          (p2_test_end X T)))))))))"

section \<open>The processes\<close>

text \<open>The PID the kernel answers, of the caller or with \<open>parent\<close> of its parent, is the one that was remembered.\<close>

definition check_pid :: "'h splat \<Rightarrow> 'h symbols \<Rightarrow> u32 \<Rightarrow> string \<Rightarrow> string \<Rightarrow> (unit, 'h) um" where
  "check_pid X T parent pidvar msg =
     kbind (syscall X GETPROCESSID parent 0 0) (\<lambda>pid.
       kread (\<lambda>s. if pid \<noteq> var T pidvar s then still_alive X T msg else kreturn ()))"

definition time_scale :: "'h ust \<Rightarrow> int" where
  "time_scale s = sint (cells s TIMESCALEADDR)"

definition vp_pair :: "'h splat \<Rightarrow> 'h symbols \<Rightarrow> nat \<Rightarrow> (unit, 'h) um" where
  "vp_pair X T i =
     kseq (v_sem X (word_at T ''s'' i))
    (kseq (p_sem X (word_at T ''s'' i))
          (kread (\<lambda>s. if cells s (word_at T ''s'' i) \<noteq> 0 then print_line X T ''error: p2 bad v/p pairs'' else kreturn ())))"

definition p2_times :: "'h splat \<Rightarrow> 'h symbols \<Rightarrow> u32 \<Rightarrow> u32 \<Rightarrow> u32 \<Rightarrow> u32 \<Rightarrow> (unit, 'h) um" where
  "p2_times X T now1 cpu_t1 cpu_t2 now2 = kread (\<lambda>s.
     let real = sint (now2 - now1); cpu = sint (cpu_t2 - cpu_t1)
     in if cpu \<le> real \<and> c_div MINLOOPTIME (time_scale s) \<le> cpu then print_line X T ''p2 is OK''
        else kseq (if real < cpu then print_line X T ''error: more cpu time than real time'' else kreturn ())
            (kseq (kread (\<lambda>s. if cpu < c_div MINLOOPTIME (time_scale s)
                               then print_line X T ''error: not enough cpu time went by'' else kreturn ()))
                  (print_line X T ''p2 blew it!'')))"

definition p2 :: "'h splat \<Rightarrow> 'h symbols \<Rightarrow> (unit, 'h) um" where
  "p2 X T =
     kseq (p_sem X (sym T ''sem_startp2''))
    (kseq (print_line X T ''p2 starts'')
    (kseq (check_pid X T 0 ''p2pid'' ''Inconsistent process id for p2!'')
    (kseq (each [0..<MAXSEM + 1] (\<lambda>i. kmodify (set_cell (word_at T ''s'' i) 0)))
    (kseq (each [0..<MAXSEM + 1] (vp_pair X T))
    (kseq (print_line X T ''p2 v's successfully'')
    (kseq (kbind (get_TOD X) (\<lambda>now1.
            kbind (syscall X GETTIME 0 0 0) (\<lambda>cpu_t1.
            kbind (syscall X GETTIME 0 0 0) (\<lambda>cpu_t2.
            kbind (get_TOD X) (p2_times X T now1 cpu_t1 cpu_t2)))))
    (kseq (set_var T ''p1p2synch'' 1)
    (kseq (p_sem X (sym T ''sem_endp2''))
    (kseq (call X TERMPROCESS 0 0 0)
          (still_alive X T ''error: p2 didn't terminate''))))))))))"

text \<open>The loop waits until it has been delayed by half a clock interval, so it may never end.\<close>

partial_function (option) delay_loop ::
  "'h splat \<Rightarrow> u32 \<Rightarrow> u32 \<Rightarrow> 'h ust \<Rightarrow> (sup_stop, unit, 'h ust) out option" where
  "delay_loop X time1 time2 s =
     (if time2 - time1 < drop_bit 1 CLOCKINTERVAL
      then case kbind (get_TOD X) (\<lambda>t1. kseq (syscall X CLOCKWAIT 0 0 0) (kbind (get_TOD X) (\<lambda>t2. kreturn (t1, t2)))) s of
             Stop w s' \<Rightarrow> Some (Stop w s')
           | Ret ts s' \<Rightarrow> delay_loop X (fst ts) (snd ts) s'
      else Some (Ret () s))"

definition delay :: "'h splat \<Rightarrow> (unit, 'h) um" where
  "delay X = (\<lambda>s. case delay_loop X 0 0 s of None \<Rightarrow> Stop Endless s | Some r \<Rightarrow> r)"

definition p3 :: "'h splat \<Rightarrow> 'h symbols \<Rightarrow> (unit, 'h) um" where
  "p3 X T =
     kseq (delay X)
    (kseq (print_line X T ''p3 - CLOCKWAIT OK'')
    (kseq (kbind (syscall X GETTIME 0 0 0) (\<lambda>cpu_t1.
           kseq (each [0..<CLOCKLOOP] (\<lambda>i. call X CLOCKWAIT 0 0 0))
          (kbind (syscall X GETTIME 0 0 0) (\<lambda>cpu_t2.
           kread (\<lambda>s. if sint (cpu_t2 - cpu_t1) < c_div MINCLOCKLOOP (time_scale s)
                       then print_line X T ''error: p3 - CPU time incorrectly maintained''
                       else print_line X T ''p3 - CPU time correctly maintained'')))))
    (kseq (check_pid X T 0 ''p3pid'' ''Inconsistent process id for p3!'')
    (kseq (v_sem X (sym T ''sem_endp3''))
    (kseq (call X TERMPROCESS 0 0 0)
          (still_alive X T ''error: p3 didn't terminate''))))))"

definition p4 :: "'h splat \<Rightarrow> 'h symbols \<Rightarrow> (unit, 'h) um" where
  "p4 X T =
     kseq (kread (\<lambda>s. if var T ''p4inc'' s = 1
        then kseq (print_line X T ''first incarnation of p4 starts'') (kread (\<lambda>s. set_var T ''p4inc'' (var T ''p4inc'' s + 1)))
        else if var T ''p4inc'' s = 2 then print_line X T ''second incarnation of p4 starts''
        else kreturn ()))
    (kseq (check_pid X T 0 ''p4pid'' ''Inconsistent process id for p4!'')
    (kseq (v_sem X (sym T ''sem_synp4''))
    (kseq (p_sem X (sym T ''sem_blkp4''))
    (kseq (p_sem X (sym T ''sem_synp4''))
    (kseq (kmodify (\<lambda>s. let st = sup_states s (sym T ''p4state'')
             in s\<lparr>sup_states := (sup_states s)(sym T ''p4state'' := set_reg (reg_sp X) (gpr st (reg_sp X) - QPAGE) st)\<rparr>))
    (kseq (start_pid X T ''p4pid'' ''p4state'' 0)
    (kseq (p_sem X (sym T ''sem_synp4''))
    (kseq (print_line X T ''p4 is OK'')
    (kseq (v_sem X (sym T ''sem_endp4''))
    (kseq (call X TERMPROCESS 0 0 0)
          (still_alive X T ''error: p4 didn't terminate'')))))))))))"

text \<open>The handlers of \<open>p5\<close>.\<close>

definition p5_state :: "'h symbols \<Rightarrow> nat \<Rightarrow> 'h ust \<Rightarrow> state_t" where
  "p5_state T kind s = sup_exceptState (sups s (sym T ''pFiveSupport'')) kind"

definition upd_p5 :: "'h symbols \<Rightarrow> nat \<Rightarrow> (state_t \<Rightarrow> state_t) \<Rightarrow> (unit, 'h) um" where
  "upd_p5 T kind f = kmodify (upd_sup (sym T ''pFiveSupport'') (\<lambda>q.
     q\<lparr>sup_exceptState := (sup_exceptState q)(kind := f (sup_exceptState q kind))\<rparr>))"

definition go_to :: "'h splat \<Rightarrow> 'h symbols \<Rightarrow> string \<Rightarrow> state_t \<Rightarrow> state_t" where
  "go_to X T fn st = set_reg (reg_t9 X) (sym T fn) (st\<lparr>pc_epc := sym T fn\<rparr>)"

definition p5_load :: "'h symbols \<Rightarrow> nat \<Rightarrow> (unit, 'h) um" where
  "p5_load T kind = kread (\<lambda>s. kstop (Resumed (p5_state T kind s)))"

definition p5sys :: "'h splat \<Rightarrow> 'h symbols \<Rightarrow> (unit, 'h) um" where
  "p5sys X T = kread (\<lambda>s.
     let p5status = drop_bit 31 (push_bit 28 (status (p5_state T GENERALEXCEPT s)))
     in kseq (if p5status = 1 then print_line X T ''High level SYS call from user mode process''
              else if p5status = 0 then print_line X T ''High level SYS call from kernel mode process''
              else kreturn ())
       (kseq (upd_p5 T GENERALEXCEPT (\<lambda>st. st\<lparr>pc_epc := pc_epc st + 4\<rparr>))
             (p5_load T GENERALEXCEPT)))"

definition p5gen :: "'h splat \<Rightarrow> 'h symbols \<Rightarrow> (unit, 'h) um" where
  "p5gen X T = kread (\<lambda>s.
     let exeCode = drop_bit 2 (cause (p5_state T GENERALEXCEPT s) AND CAUSEMASK);
         kernel_mode = (\<lambda>st. (go_to X T ''p5b'' st)\<lparr>status := status st AND KUPBITOFF\<rparr>)
     in kseq
          (if exeCode = BUSERROR
           then kseq (print_line X T ''Bus Error (as expected): Access non-existent memory'') (upd_p5 T GENERALEXCEPT (go_to X T ''p5a''))
           else if exeCode = RESVINSTR
           then kseq (print_line X T ''privileged instruction'') (upd_p5 T GENERALEXCEPT kernel_mode)
           else if exeCode = ADDRERROR
           then kseq (print_line X T ''Address Error (as expected): non-kuseg access w/KU=1'') (upd_p5 T GENERALEXCEPT kernel_mode)
           else if exeCode = SYSCALLEXCPT then p5sys X T
           else print_line X T ''other program trap'')
          (p5_load T GENERALEXCEPT))"

definition p5mm :: "'h splat \<Rightarrow> 'h symbols \<Rightarrow> (unit, 'h) um" where
  "p5mm X T =
     kseq (print_line X T ''memory management trap'')
    (kbind (syscall X GETSUPPORTPTR 0 0 0) (\<lambda>pFiveSupAddr.
       kseq (if pFiveSupAddr \<noteq> sym T ''pFiveSupport'' then print_line X T ''Support Structure Address Error''
             else print_line X T ''Correct Support Structure Address'')
      (kseq (upd_p5 T PGFAULTEXCEPT (\<lambda>st. go_to X T ''p5b'' (st\<lparr>status := status st OR KUPBITON\<rparr>)))
            (p5_load T PGFAULTEXCEPT))))"

definition p5 :: "'h splat \<Rightarrow> 'h symbols \<Rightarrow> (unit, 'h) um" where
  "p5 X T =
     kseq (print_line X T ''p5 starts'')
          (kread (\<lambda>s. kseq (touch T (var T ''p5MemLocation'' s))
                          (store T (var T ''p5MemLocation'' s) (cells s (var T ''p5MemLocation'' s) + 1))))"

definition p5a :: "'h symbols \<Rightarrow> (unit, 'h) um" where
  "p5a T = kseq (set_var T ''p5MemLocation'' 0x80000000) (kread (\<lambda>s. store T (var T ''p5MemLocation'' s) 42))"

definition p5b :: "'h splat \<Rightarrow> 'h symbols \<Rightarrow> (unit, 'h) um" where
  "p5b X T =
     kseq (call X 1 0 0 0)
    (kseq (p_sem X (sym T ''sem_endp4''))
    (kseq (delay X)
    (kseq (v_sem X (sym T ''sem_blkp4''))
    (kseq (v_sem X (sym T ''sem_endp5''))
    (kseq (call X TERMPROCESS 0 0 0)
          (still_alive X T ''error: p5 didn't terminate''))))))"

definition p6 :: "'h splat \<Rightarrow> 'h symbols \<Rightarrow> (unit, 'h) um" where
  "p6 X T =
     kseq (print_line X T ''p6 starts'')
    (kseq (call X 1 0 0 0)
          (still_alive X T ''error: p6 alive after SYS9() with no trap vector''))"

definition p7 :: "'h splat \<Rightarrow> 'h symbols \<Rightarrow> (unit, 'h) um" where
  "p7 X T =
     kseq (print_line X T ''p7 starts'')
    (kseq (store T BADADDR 0)
          (still_alive X T ''error: p7 alive after program trap with no trap vector''))"

text \<open>The family whose root ends it.\<close>

definition p8root :: "'h splat \<Rightarrow> 'h symbols \<Rightarrow> (unit, 'h) um" where
  "p8root X T =
     kseq (print_line X T ''p8root starts'')
    (kseq (start X T ''child1state'' PROCESS_PRIO_LOW NULL)
    (kseq (start X T ''child2state'' PROCESS_PRIO_LOW NULL)
    (kseq (each [0..<NOLEAVES] (\<lambda>i. p_sem X (word_at T ''sem_endcreate'' i)))
    (kseq (v_sem X (sym T ''sem_endp8''))
          (call X TERMPROCESS 0 0 0)))))"

definition child :: "'h splat \<Rightarrow> 'h symbols \<Rightarrow> string \<Rightarrow> string \<Rightarrow> string \<Rightarrow> (unit, 'h) um" where
  "child X T msg st1 st2 =
     kseq (print_line X T msg)
    (kseq (check_pid X T 1 ''p8pid'' ''Inconsistent (parent) process id for p8's first child'')
    (kseq (start X T st1 PROCESS_PRIO_LOW NULL)
    (kseq (start X T st2 PROCESS_PRIO_LOW NULL)
          (p_sem X (sym T ''sem_blkp8'')))))"

definition child1 :: "'h splat \<Rightarrow> 'h symbols \<Rightarrow> (unit, 'h) um" where
  "child1 X T = child X T ''child1 starts'' ''gchild1state'' ''gchild2state''"

definition child2 :: "'h splat \<Rightarrow> 'h symbols \<Rightarrow> (unit, 'h) um" where
  "child2 X T = child X T ''child2 starts'' ''gchild3state'' ''gchild4state''"

definition p8leaf :: "'h splat \<Rightarrow> 'h symbols \<Rightarrow> string \<Rightarrow> nat \<Rightarrow> (unit, 'h) um" where
  "p8leaf X T msg i =
     kseq (print_line X T msg)
    (kseq (v_sem X (word_at T ''sem_endcreate'' i))
          (p_sem X (sym T ''sem_blkp8'')))"

definition p8leaf1 :: "'h splat \<Rightarrow> 'h symbols \<Rightarrow> (unit, 'h) um" where
  "p8leaf1 X T = p8leaf X T ''leaf process (1) starts'' 0"

definition p8leaf2 :: "'h splat \<Rightarrow> 'h symbols \<Rightarrow> (unit, 'h) um" where
  "p8leaf2 X T = p8leaf X T ''leaf process (2) starts'' 1"

definition p8leaf3 :: "'h splat \<Rightarrow> 'h symbols \<Rightarrow> (unit, 'h) um" where
  "p8leaf3 X T = p8leaf X T ''leaf process (3) starts'' 2"

definition p8leaf4 :: "'h splat \<Rightarrow> 'h symbols \<Rightarrow> (unit, 'h) um" where
  "p8leaf4 X T = p8leaf X T ''leaf process (4) starts'' 3"

definition p9 :: "'h splat \<Rightarrow> 'h symbols \<Rightarrow> (unit, 'h) um" where
  "p9 X T =
     kseq (print_line X T ''p9 starts'')
    (kseq (start X T ''p10state'' PROCESS_PRIO_LOW NULL)
          (p_sem X (sym T ''sem_blkp9'')))"

definition p10 :: "'h splat \<Rightarrow> 'h symbols \<Rightarrow> (unit, 'h) um" where
  "p10 X T =
     kseq (print_line X T ''p10 starts'')
    (kbind (syscall X GETPROCESSID 1 0 0) (\<lambda>ppid.
       kseq (kread (\<lambda>s. if ppid \<noteq> var T ''p9pid'' s then still_alive X T ''Inconsistent process id for p9!'' else kreturn ()))
      (kseq (call X TERMPROCESS ppid 0 0)
            (still_alive X T ''Error: p10 didn't die with its parent!''))))"

definition hp_p1 :: "'h splat \<Rightarrow> 'h symbols \<Rightarrow> (unit, 'h) um" where
  "hp_p1 X T =
     kseq (print_line X T ''hp_p1 starts'')
    (kseq (each [0..<100] (\<lambda>i. call X YIELD 0 0 0))
    (kseq (call X TERMPROCESS 0 0 0)
          (still_alive X T ''Error: hp_p1 didn't die!'')))"

definition hp_p2 :: "'h splat \<Rightarrow> 'h symbols \<Rightarrow> (unit, 'h) um" where
  "hp_p2 X T =
     kseq (print_line X T ''hp_p2 starts'')
    (kseq (each [0..<10] (\<lambda>i. call X CLOCKWAIT 0 0 0))
    (kseq (call X TERMPROCESS 0 0 0)
          (still_alive X T ''Error: hp_p2 didn't die!'')))"

end
