(* ===== verification/P2_Run.thy ===== *)
theory P2_Run
  imports P2_Test
begin

text \<open>
  What each process of the phase 2 test does: how it ends, and the system calls it makes on the way,
  but for those of printing. The rules follow the combinators, so the proof for a process is a walk
  along its text.
\<close>

section \<open>Calls and ends\<close>

text \<open>The calls that print, and those that do not.\<close>

definition on_terminal :: "'h symbols \<Rightarrow> int \<times> u32 \<times> u32 \<times> u32 \<Rightarrow> bool" where
  "on_terminal T c \<longleftrightarrow> (case c of (n, a, _, _) \<Rightarrow>
     (n = PASSEREN \<or> n = VERHOGEN) \<and> a = sym T ''sem_term_mut'' \<or> n = DOIO \<and> a = term_command)"

definition quiet :: "'h symbols \<Rightarrow> (int \<times> u32 \<times> u32 \<times> u32) list \<Rightarrow> (int \<times> u32 \<times> u32 \<times> u32) list" where
  "quiet T = filter (\<lambda>c. \<not> on_terminal T c)"

lemma quiet_calls [simp]: "quiet T [] = []" "quiet T (cs @ ds) = quiet T cs @ quiet T ds"
  by (simp_all add: quiet_def)

lemma quiet_one: "quiet T [c] = (if on_terminal T c then [] else [c])"
  by (simp add: quiet_def)

text \<open>From every state the routine returns, or ends as \<open>w\<close>, with calls in \<open>C\<close> made.\<close>

definition does :: "'h symbols \<Rightarrow> ('a, 'h) um \<Rightarrow> (int \<times> u32 \<times> u32 \<times> u32) list set \<Rightarrow> bool" where
  "does T m C \<longleftrightarrow> (\<forall>s. \<exists>cs\<in>C. \<exists>r s'. m s = Ret r s' \<and> quiet T (calls s') = quiet T (calls s) @ cs)"

definition ends :: "'h symbols \<Rightarrow> ('a, 'h) um \<Rightarrow> sup_stop \<Rightarrow> (int \<times> u32 \<times> u32 \<times> u32) list set \<Rightarrow> bool" where
  "ends T m w C \<longleftrightarrow> (\<forall>s. \<exists>cs\<in>C. \<exists>s'. m s = Stop w s' \<and> quiet T (calls s') = quiet T (calls s) @ cs)"

definition followed_by :: "'a list set \<Rightarrow> 'a list set \<Rightarrow> 'a list set" where
  "followed_by C D = {c @ d |c d. c \<in> C \<and> d \<in> D}"

lemma followed_by_single [simp]: "followed_by {c} {d} = {c @ d}" "followed_by {[]} D = D" "followed_by C {[]} = C"
  by (auto simp: followed_by_def)

lemma followed_by_assoc [simp]: "followed_by (followed_by C D) E = followed_by C (followed_by D E)"
  by (auto simp: followed_by_def) (metis append.assoc)+

named_theorems does_intros "one rule per combinator"

lemma does_kbind [does_intros]: "does T m C \<Longrightarrow> (\<And>r. does T (f r) D) \<Longrightarrow> does T (kbind m f) (followed_by C D)"
  unfolding does_def
proof
  fix s
  assume m: "\<forall>s. \<exists>cs\<in>C. \<exists>r s'. m s = Ret r s' \<and> quiet T (calls s') = quiet T (calls s) @ cs"
    and f: "\<And>r. \<forall>s. \<exists>cs\<in>D. \<exists>r' s'. f r s = Ret r' s' \<and> quiet T (calls s') = quiet T (calls s) @ cs"
  obtain c r s1 where c: "c \<in> C" "m s = Ret r s1" "quiet T (calls s1) = quiet T (calls s) @ c" using m by blast
  obtain d r' s' where d: "d \<in> D" "f r s1 = Ret r' s'" "quiet T (calls s') = quiet T (calls s1) @ d" using f by blast
  have "kbind m f s = Ret r' s'" "c @ d \<in> followed_by C D" using c d by (auto simp: kbind_def followed_by_def)
  then show "\<exists>cs\<in>followed_by C D. \<exists>r s'. kbind m f s = Ret r s' \<and> quiet T (calls s') = quiet T (calls s) @ cs"
    using c(3) d(3) by (metis append.assoc)
qed

lemma does_kseq [does_intros]: "does T m C \<Longrightarrow> does T n D \<Longrightarrow> does T (kseq m n) (followed_by C D)"
  unfolding kseq_def by (rule does_kbind)

lemma ends_kbind: "does T m C \<Longrightarrow> (\<And>r. ends T (f r) w D) \<Longrightarrow> ends T (kbind m f) w (followed_by C D)"
  unfolding does_def ends_def
proof
  fix s
  assume m: "\<forall>s. \<exists>cs\<in>C. \<exists>r s'. m s = Ret r s' \<and> quiet T (calls s') = quiet T (calls s) @ cs"
    and f: "\<And>r. \<forall>s. \<exists>cs\<in>D. \<exists>s'. f r s = Stop w s' \<and> quiet T (calls s') = quiet T (calls s) @ cs"
  obtain c r s1 where c: "c \<in> C" "m s = Ret r s1" "quiet T (calls s1) = quiet T (calls s) @ c" using m by blast
  obtain d s' where d: "d \<in> D" "f r s1 = Stop w s'" "quiet T (calls s') = quiet T (calls s1) @ d" using f by blast
  have "kbind m f s = Stop w s'" "c @ d \<in> followed_by C D" using c d by (auto simp: kbind_def followed_by_def)
  then show "\<exists>cs\<in>followed_by C D. \<exists>s'. kbind m f s = Stop w s' \<and> quiet T (calls s') = quiet T (calls s) @ cs"
    using c(3) d(3) by (metis append.assoc)
qed

lemma ends_kseq: "does T m C \<Longrightarrow> ends T n w D \<Longrightarrow> ends T (kseq m n) w (followed_by C D)"
  unfolding kseq_def by (rule ends_kbind)

lemma ends_at_once: "ends T m w C \<Longrightarrow> ends T (kbind m f) w C" "ends T m w C \<Longrightarrow> ends T (kseq m n) w C"
  unfolding ends_def kseq_def by (metis kbind_Stop)+

lemma does_kreturn [does_intros]: "does T (kreturn r) {[]}"
  by (simp add: does_def kreturn_def)

lemma does_kmodify: "(\<And>s. calls (f s) = calls s) \<Longrightarrow> does T (kmodify f) {[]}"
  by (simp add: does_def kmodify_def)

lemma does_kread [does_intros]: "(\<And>s. does T (m s) C) \<Longrightarrow> does T (kread m) C"
  by (simp add: does_def kread_def)

lemma does_if [does_intros]: "does T m C \<Longrightarrow> does T n C \<Longrightarrow> does T (if b then m else n) C"
  by simp

lemma does_silent: "does T m {[]} \<Longrightarrow> does T n {[]} \<Longrightarrow> does T (kseq m n) {[]}"
  using does_kseq[of T m "{[]}" n "{[]}"] by simp

lemma does_eq: "does T m C \<Longrightarrow> C = D \<Longrightarrow> does T m D"
  by simp

lemma ends_eq: "ends T m w C \<Longrightarrow> C = D \<Longrightarrow> ends T m w D"
  by simp

lemma does_each:
  assumes "\<And>i. i \<in> set js \<Longrightarrow> does T (body i) {f i}"
  shows "does T (each js body) {concat (map f js)}"
proof -
  have "does T (fold (\<lambda>i m. kseq m (body i)) js m) {cs @ concat (map f js)}" if "does T m {cs}" for m cs
    using assms that
  proof (induction js arbitrary: m cs)
    case (Cons i js)
    have "does T (kseq m (body i)) {cs @ f i}" using does_kseq[OF Cons.prems(2) Cons.prems(1)[of i]] by simp
    from Cons.IH[OF Cons.prems(1) this] show ?case by simp
  qed simp
  from this[OF does_kreturn] show ?thesis by (simp add: each_def)
qed

section \<open>The kernel the processes run on\<close>

text \<open>
  The calls of \<open>R\<close> come back and the others do not; what the processes print arrives; and the
  semaphore of the terminal is a word of its own.
\<close>

definition comes_back :: "'h splat \<Rightarrow> int set \<Rightarrow> bool" where
  "comes_back X R \<longleftrightarrow> (\<forall>n a b c t. calls (snd (SYSCALL X n a b c t)) = calls t \<and> (fst (SYSCALL X n a b c t) = None \<longleftrightarrow> n \<notin> R))"

definition prints :: "'h splat \<Rightarrow> bool" where
  "prints X \<longleftrightarrow> (\<forall>b c t r. fst (SYSCALL X DOIO term_command b c t) = Some r \<longrightarrow> r AND TERMSTATMASK = RECVD)"

definition p2_sems :: "string list" where
  "p2_sems = [''sem_testsem'', ''sem_startp2'', ''sem_endp2'', ''sem_endp3'', ''sem_blkp4'', ''sem_synp4'', ''sem_endp4'',
     ''sem_endp5'', ''sem_endp8'', ''sem_blkp8'', ''sem_blkp9'']"

definition linked :: "'h symbols \<Rightarrow> bool" where
  "linked T \<longleftrightarrow> (\<forall>x\<in>set p2_sems. sym T x \<noteq> sym T ''sem_term_mut'') \<and>
     (\<forall>i\<le>MAXSEM. word_at T ''s'' i \<noteq> sym T ''sem_term_mut'') \<and>
     (\<forall>i<NOLEAVES. word_at T ''sem_endcreate'' i \<noteq> sym T ''sem_term_mut'')"

definition kernel_calls :: "int set" where
  "kernel_calls = {CREATEPROCESS, PASSEREN, VERHOGEN, DOIO, GETTIME, CLOCKWAIT, GETSUPPORTPTR, GETPROCESSID, YIELD}"

lemma kernel_calls_mem [simp]:
  "CREATEPROCESS \<in> kernel_calls" "PASSEREN \<in> kernel_calls" "VERHOGEN \<in> kernel_calls" "DOIO \<in> kernel_calls" "GETTIME \<in> kernel_calls"
  "CLOCKWAIT \<in> kernel_calls" "GETSUPPORTPTR \<in> kernel_calls" "GETPROCESSID \<in> kernel_calls" "YIELD \<in> kernel_calls"
  "TERMPROCESS \<notin> kernel_calls" "1 \<notin> kernel_calls"
  by (simp_all add: kernel_calls_def syscall_numbers)

text \<open>The environment of a process that gets the calls \<open>R\<close> besides those of the kernel.\<close>

definition phase2_env :: "'h splat \<Rightarrow> 'h symbols \<Rightarrow> int set \<Rightarrow> bool" where
  "phase2_env X T R \<longleftrightarrow> comes_back X (kernel_calls \<union> R) \<and> TERMPROCESS \<notin> R \<and> prints X \<and> linked T"

lemma syscall_comes_back:
  fixes s :: "'h ust"
  assumes "comes_back X R" and "n \<in> R"
  shows "\<exists>r s'. syscall X n a b c s = Ret r s' \<and> calls s' = calls s @ [(n, a, b, c)] \<and>
    s' = snd (SYSCALL X n a b c (s\<lparr>calls := calls s @ [(n, a, b, c)]\<rparr>)) \<and>
    fst (SYSCALL X n a b c (s\<lparr>calls := calls s @ [(n, a, b, c)]\<rparr>)) = Some r"
proof -
  let ?t = "s\<lparr>calls := calls s @ [(n, a, b, c)]\<rparr>"
  obtain r where r: "fst (SYSCALL X n a b c ?t) = Some r" using assms unfolding comes_back_def by (metis option.exhaust)
  show ?thesis using syscall_Ret[OF r] r assms(1) by (simp add: comes_back_def)
qed

lemma does_syscall [does_intros]:
  assumes "phase2_env X T R" and "n \<in> kernel_calls \<union> R"
  shows "does T (syscall X n a b c) {quiet T [(n, a, b, c)]}"
  unfolding does_def
proof
  fix s
  have "comes_back X (kernel_calls \<union> R)" using assms(1) by (simp add: phase2_env_def)
  from syscall_comes_back[OF this assms(2), of a b c s] obtain r s' where
    "syscall X n a b c s = Ret r s'" "calls s' = calls s @ [(n, a, b, c)]" by blast
  then show "\<exists>cs\<in>{quiet T [(n, a, b, c)]}. \<exists>r s'. syscall X n a b c s = Ret r s' \<and> quiet T (calls s') = quiet T (calls s) @ cs" by simp
qed

lemma ends_syscall:
  fixes X :: "'h splat"
  assumes "phase2_env X T R" and "n \<notin> kernel_calls \<union> R"
  shows "ends T (syscall X n a b c) Gone {quiet T [(n, a, b, c)]}"
  unfolding ends_def
proof
  fix s :: "'h ust"
  let ?t = "s\<lparr>calls := calls s @ [(n, a, b, c)]\<rparr>"
  have cb: "comes_back X (kernel_calls \<union> R)" using assms(1) by (simp add: phase2_env_def)
  then have "fst (SYSCALL X n a b c ?t) = None" using assms(2) by (simp add: comes_back_def)
  then show "\<exists>cs\<in>{quiet T [(n, a, b, c)]}. \<exists>s'. syscall X n a b c s = Stop Gone s' \<and> quiet T (calls s') = quiet T (calls s) @ cs"
    using syscall_Gone[of X n a b c s] cb by (simp add: comes_back_def)
qed

lemma does_call [does_intros]:
  assumes "phase2_env X T R" and "n \<in> kernel_calls \<union> R"
  shows "does T (call X n a b c) {quiet T [(n, a, b, c)]}"
  unfolding call_def by (rule does_eq[OF does_kseq[OF does_syscall[OF assms] does_kreturn]]) (rule followed_by_single)

lemma ends_call:
  assumes "phase2_env X T R" and "n \<notin> kernel_calls \<union> R"
  shows "ends T (call X n a b c) Gone {quiet T [(n, a, b, c)]}"
  unfolding call_def by (rule ends_at_once(2)[OF ends_syscall[OF assms]])

lemma does_pv [does_intros]:
  assumes "phase2_env X T R"
  shows "does T (p_sem X a) {quiet T [(PASSEREN, a, 0, 0)]}" "does T (v_sem X a) {quiet T [(VERHOGEN, a, 0, 0)]}"
  unfolding p_sem_def v_sem_def by (rule does_call[OF assms], simp)+

section \<open>Printing\<close>

lemma print_loop_does:
  assumes env: "phase2_env X T R"
  shows "does T (print_loop X T msg) {[]}"
proof (induction msg)
  case Nil
  show ?case by (rule does_eq, simp, rule does_pv[OF env]) (simp add: quiet_one on_terminal_def)
next
  case (Cons ch msg)
  let ?v = "PRINTCHR OR push_bit 8 (of_char ch)"
  have cb: "comes_back X (kernel_calls \<union> R)" and pr: "prints X" using env by (simp_all add: phase2_env_def)
  show ?case unfolding does_def
  proof
    fix s
    obtain r s1 where s1: "syscall X DOIO term_command ?v 0 s = Ret r s1" "calls s1 = calls s @ [(DOIO, term_command, ?v, 0)]"
      "fst (SYSCALL X DOIO term_command ?v 0 (s\<lparr>calls := calls s @ [(DOIO, term_command, ?v, 0)]\<rparr>)) = Some r"
      using syscall_comes_back[OF cb, of DOIO term_command ?v 0 s] by auto
    have "r AND TERMSTATMASK = RECVD" using pr s1(3) by (simp add: prints_def)
    then have "print_loop X T (ch # msg) s = print_loop X T msg s1" by (simp add: kbind_Ret[where m = "syscall X DOIO term_command ?v 0", OF s1(1)])
    moreover obtain r' s' where "print_loop X T msg s1 = Ret r' s'" "quiet T (calls s') = quiet T (calls s1)"
      using Cons.IH by (auto simp: does_def)
    ultimately show "\<exists>cs\<in>{[]}. \<exists>r s'. print_loop X T (ch # msg) s = Ret r s' \<and> quiet T (calls s') = quiet T (calls s) @ cs"
      using s1(2) by (simp add: quiet_one on_terminal_def)
  qed
qed

lemma print_line_does [does_intros]:
  assumes "phase2_env X T R"
  shows "does T (print_line X T msg) {[]}"
  unfolding print_line_def print_def
  by (rule does_eq, (rule does_intros print_loop_does[OF assms] assms)+) (simp add: quiet_one on_terminal_def)

section \<open>The steps the processes share\<close>

lemma set_cell_calls [simp]: "calls (set_cell a v s) = calls s"
  by (simp add: set_cell_def)

lemma does_set_var [does_intros]: "does T (set_var T x v) {[]}"
  unfolding set_var_def by (rule does_kmodify) simp

lemma does_set_cell: "does T (kmodify (set_cell a v)) {[]}"
  by (rule does_kmodify) simp

text \<open>What the calls of the processes look like in the list of those that do not print.\<close>

lemma quiet_call:
  "n \<noteq> PASSEREN \<Longrightarrow> n \<noteq> VERHOGEN \<Longrightarrow> n \<noteq> DOIO \<Longrightarrow> quiet T [(n, a, b, c)] = [(n, a, b, c)]"
  "a \<noteq> sym T ''sem_term_mut'' \<Longrightarrow> quiet T [(PASSEREN, a, b, c)] = [(PASSEREN, a, b, c)]"
  "a \<noteq> sym T ''sem_term_mut'' \<Longrightarrow> quiet T [(VERHOGEN, a, b, c)] = [(VERHOGEN, a, b, c)]"
  by (simp_all add: quiet_one on_terminal_def syscall_numbers)

lemma linkedD:
  assumes "phase2_env X T R"
  shows "x \<in> set p2_sems \<Longrightarrow> sym T x \<noteq> sym T ''sem_term_mut''"
    and "i \<le> MAXSEM \<Longrightarrow> word_at T ''s'' i \<noteq> sym T ''sem_term_mut''"
    and "i < NOLEAVES \<Longrightarrow> word_at T ''sem_endcreate'' i \<noteq> sym T ''sem_term_mut''"
  using assms by (simp_all add: phase2_env_def linked_def)

text \<open>A P or a V on a named semaphore, a process that is started, and the end.\<close>

lemma does_pv_at:
  assumes "phase2_env X T R" and "a \<noteq> sym T ''sem_term_mut''"
  shows "does T (p_sem X a) {[(PASSEREN, a, 0, 0)]}" "does T (v_sem X a) {[(VERHOGEN, a, 0, 0)]}"
proof -
  show "does T (p_sem X a) {[(PASSEREN, a, 0, 0)]}"
    by (rule does_eq, rule does_pv[OF assms(1)]) (simp only: quiet_call(2)[OF assms(2)])
  show "does T (v_sem X a) {[(VERHOGEN, a, 0, 0)]}"
    by (rule does_eq, rule does_pv[OF assms(1)]) (simp only: quiet_call(3)[OF assms(2)])
qed

lemma does_named [does_intros]:
  assumes "phase2_env X T R" and "x \<in> set p2_sems"
  shows "does T (p_sem X (sym T x)) {[(PASSEREN, sym T x, 0, 0)]}" "does T (v_sem X (sym T x)) {[(VERHOGEN, sym T x, 0, 0)]}"
  by (rule does_pv_at[OF assms(1) linkedD(1)[OF assms]])+

lemma does_create [does_intros]:
  assumes "phase2_env X T R"
  shows "does T (start X T st prio q) {[(CREATEPROCESS, sym T st, prio, q)]}"
    and "does T (start_pid X T v st q) {[(CREATEPROCESS, sym T st, PROCESS_PRIO_LOW, q)]}"
proof -
  have c: "does T (create X T st pr q) {[(CREATEPROCESS, sym T st, pr, q)]}" for pr
    unfolding create_def by (rule does_eq[OF does_syscall[OF assms]]) (simp_all add: quiet_one on_terminal_def, simp_all add: syscall_numbers)
  show "does T (start X T st prio q) {[(CREATEPROCESS, sym T st, prio, q)]}"
    unfolding start_def using does_kseq[OF c does_kreturn] by simp
  show "does T (start_pid X T v st q) {[(CREATEPROCESS, sym T st, PROCESS_PRIO_LOW, q)]}"
    unfolding start_pid_def using does_kbind[OF c does_set_var] by simp
qed

lemma does_plain:
  assumes "phase2_env X T R" and "n \<in> {GETTIME, CLOCKWAIT, GETPROCESSID, GETSUPPORTPTR, YIELD}"
  shows "does T (syscall X n a b c) {[(n, a, b, c)]}" "does T (call X n a b c) {[(n, a, b, c)]}"
proof -
  have k: "n \<in> kernel_calls \<union> R" using assms(2) by auto
  have "quiet T [(n, a, b, c)] = [(n, a, b, c)]" by (rule quiet_call(1)) (use assms(2) in \<open>auto simp: syscall_numbers\<close>)
  then show "does T (syscall X n a b c) {[(n, a, b, c)]}" "does T (call X n a b c) {[(n, a, b, c)]}"
    using does_syscall[OF assms(1) k, of a b c] does_call[OF assms(1) k, of a b c] by simp_all
qed

lemma ends_term:
  assumes "phase2_env X T R"
  shows "ends T (kseq (call X TERMPROCESS a 0 0) m) Gone {[(TERMPROCESS, a, 0, 0)]}"
    and "ends T (call X TERMPROCESS a 0 0) Gone {[(TERMPROCESS, a, 0, 0)]}"
proof -
  have "TERMPROCESS \<notin> kernel_calls \<union> R" using assms by (simp add: phase2_env_def)
  from ends_call[OF assms this, of a 0 0] show "ends T (call X TERMPROCESS a 0 0) Gone {[(TERMPROCESS, a, 0, 0)]}"
    by (rule ends_eq) (simp add: quiet_one on_terminal_def syscall_numbers)
  then show "ends T (kseq (call X TERMPROCESS a 0 0) m) Gone {[(TERMPROCESS, a, 0, 0)]}" by (rule ends_at_once(2))
qed

text \<open>The kernel answers the PID that has been remembered, after the call.\<close>

definition knows_pid :: "'h splat \<Rightarrow> 'h symbols \<Rightarrow> u32 \<Rightarrow> string \<Rightarrow> bool" where
  "knows_pid X T parent pidvar \<longleftrightarrow> (\<forall>t r. fst (SYSCALL X GETPROCESSID parent 0 0 t) = Some r \<longrightarrow>
     r = var T pidvar (snd (SYSCALL X GETPROCESSID parent 0 0 t)))"

lemma does_check_pid [does_intros]:
  fixes X :: "'h splat"
  assumes env: "phase2_env X T R" and k: "knows_pid X T parent pidvar"
  shows "does T (check_pid X T parent pidvar msg) {[(GETPROCESSID, parent, 0, 0)]}"
  unfolding does_def
proof
  fix s :: "'h ust"
  have cb: "comes_back X (kernel_calls \<union> R)" using env by (simp add: phase2_env_def)
  obtain r s1 where s1: "syscall X GETPROCESSID parent 0 0 s = Ret r s1" "calls s1 = calls s @ [(GETPROCESSID, parent, 0, 0)]"
    "s1 = snd (SYSCALL X GETPROCESSID parent 0 0 (s\<lparr>calls := calls s @ [(GETPROCESSID, parent, 0, 0)]\<rparr>))"
    "fst (SYSCALL X GETPROCESSID parent 0 0 (s\<lparr>calls := calls s @ [(GETPROCESSID, parent, 0, 0)]\<rparr>)) = Some r"
    using syscall_comes_back[OF cb, of GETPROCESSID parent 0 0 s] by auto
  have "r = var T pidvar s1" using k s1(3,4) by (simp add: knows_pid_def)
  then have "check_pid X T parent pidvar msg s = Ret () s1"
    by (simp add: check_pid_def kbind_Ret[where m = "syscall X GETPROCESSID parent 0 0", OF s1(1)] kread_def kreturn_def)
  then show "\<exists>cs\<in>{[(GETPROCESSID, parent, 0, 0)]}. \<exists>r s'. check_pid X T parent pidvar msg s = Ret r s' \<and> quiet T (calls s') = quiet T (calls s) @ cs"
    using s1(2) by (simp add: quiet_one on_terminal_def syscall_numbers)
qed

lemma ends_trap: "traps T a \<Longrightarrow> ends T (kseq (store T a v) m) (Trapped a) {[]}"
  by (simp add: ends_def store_def touch_def kseq_def kbind_def kstop_def)

lemma sem_names [simp]:
  "''sem_testsem'' \<in> set p2_sems" "''sem_startp2'' \<in> set p2_sems" "''sem_endp2'' \<in> set p2_sems" "''sem_endp3'' \<in> set p2_sems"
  "''sem_blkp4'' \<in> set p2_sems" "''sem_synp4'' \<in> set p2_sems" "''sem_endp4'' \<in> set p2_sems" "''sem_endp5'' \<in> set p2_sems"
  "''sem_endp8'' \<in> set p2_sems" "''sem_blkp8'' \<in> set p2_sems" "''sem_blkp9'' \<in> set p2_sems"
  by (simp_all add: p2_sems_def)

section \<open>The processes\<close>

lemma p6_run:
  assumes env: "phase2_env X T {}"
  shows "ends T (p6 X T) Gone {[(1, 0, 0, 0)]}"
proof -
  have "ends T (call X 1 0 0 0) Gone {[(1, 0, 0, 0)]}"
    by (rule ends_eq[OF ends_call[OF env]]) (simp_all add: quiet_one on_terminal_def syscall_numbers kernel_calls_def)
  note one = ends_at_once(2)[OF this]
  show ?thesis unfolding p6_def
    by (rule ends_eq, rule ends_kseq, rule print_line_does[OF env], rule one) simp
qed

lemma p7_run:
  assumes env: "phase2_env X T R" and bad: "traps T BADADDR"
  shows "ends T (p7 X T) (Trapped BADADDR) {[]}"
  unfolding p7_def by (rule ends_eq, rule ends_kseq, rule print_line_does[OF env], rule ends_trap[OF bad]) simp

lemma p8root_run:
  assumes env: "phase2_env X T R"
  shows "ends T (p8root X T) Gone {[(CREATEPROCESS, sym T ''child1state'', PROCESS_PRIO_LOW, NULL),
    (CREATEPROCESS, sym T ''child2state'', PROCESS_PRIO_LOW, NULL)] @
    map (\<lambda>i. (PASSEREN, word_at T ''sem_endcreate'' i, 0, 0)) [0..<NOLEAVES] @
    [(VERHOGEN, sym T ''sem_endp8'', 0, 0), (TERMPROCESS, 0, 0, 0)]}"
proof -
  have "does T (p_sem X (word_at T ''sem_endcreate'' i)) {[(PASSEREN, word_at T ''sem_endcreate'' i, 0, 0)]}"
    if "i \<in> set [0..<NOLEAVES]" for i
    by (rule does_pv_at(1)[OF env linkedD(3)[OF env]]) (use that in simp)
  note leaves = does_each[where f = "\<lambda>i. [(PASSEREN, word_at T ''sem_endcreate'' i, 0, 0)]", OF this]
  show ?thesis unfolding p8root_def
    by (rule ends_eq, (rule ends_term(2) ends_kseq does_intros leaves env sem_names | assumption)+) (simp add: concat_map_singleton)
qed

lemma child_run:
  assumes env: "phase2_env X T R" and k: "knows_pid X T 1 ''p8pid''"
  shows "does T (child X T msg st1 st2) {[(GETPROCESSID, 1, 0, 0), (CREATEPROCESS, sym T st1, PROCESS_PRIO_LOW, NULL),
    (CREATEPROCESS, sym T st2, PROCESS_PRIO_LOW, NULL), (PASSEREN, sym T ''sem_blkp8'', 0, 0)]}"
  unfolding child_def by (rule does_eq, (rule does_check_pid does_intros env k sem_names)+) simp

lemma p8leaf_run:
  assumes env: "phase2_env X T R" and i: "i < NOLEAVES"
  shows "does T (p8leaf X T msg i) {[(VERHOGEN, word_at T ''sem_endcreate'' i, 0, 0), (PASSEREN, sym T ''sem_blkp8'', 0, 0)]}"
proof -
  have v: "does T (v_sem X (word_at T ''sem_endcreate'' i)) {[(VERHOGEN, word_at T ''sem_endcreate'' i, 0, 0)]}"
    by (rule does_pv_at(2)[OF env linkedD(3)[OF env i]])
  show ?thesis unfolding p8leaf_def
    by (rule does_eq, rule does_kseq, rule print_line_does[OF env], rule does_kseq[OF v], rule does_named(1)[OF env], simp) simp
qed

lemma p9_run:
  assumes env: "phase2_env X T R"
  shows "does T (p9 X T) {[(CREATEPROCESS, sym T ''p10state'', PROCESS_PRIO_LOW, NULL), (PASSEREN, sym T ''sem_blkp9'', 0, 0)]}"
  unfolding p9_def by (rule does_eq, (rule does_intros env sem_names)+) simp

lemma hp_run:
  assumes env: "phase2_env X T R"
  shows "ends T (hp_p1 X T) Gone {replicate 100 (YIELD, 0, 0, 0) @ [(TERMPROCESS, 0, 0, 0)]}"
    and "ends T (hp_p2 X T) Gone {replicate 10 (CLOCKWAIT, 0, 0, 0) @ [(TERMPROCESS, 0, 0, 0)]}"
proof -
  have e: "does T (each [0..<n] (\<lambda>_. call X k 0 0 0)) {replicate n (k, 0, 0, 0)}" if "k \<in> {YIELD, CLOCKWAIT}" for n k
    using does_each[where f = "\<lambda>_. [(k, 0, 0, 0)]" and body = "\<lambda>_. call X k 0 0 0" and js = "[0..<n]" and T = T]
      does_plain(2)[OF env, of k 0 0 0] that by (auto simp: concat_map_singleton map_replicate_const)
  show "ends T (hp_p1 X T) Gone {replicate 100 (YIELD, 0, 0, 0) @ [(TERMPROCESS, 0, 0, 0)]}" unfolding hp_p1_def
    by (rule ends_eq, rule ends_kseq, rule print_line_does[OF env], rule ends_kseq, rule e, simp, rule ends_term[OF env])
      (simp only: followed_by_single append_Nil)
  show "ends T (hp_p2 X T) Gone {replicate 10 (CLOCKWAIT, 0, 0, 0) @ [(TERMPROCESS, 0, 0, 0)]}" unfolding hp_p2_def
    by (rule ends_eq, rule ends_kseq, rule print_line_does[OF env], rule ends_kseq, rule e, simp, rule ends_term[OF env])
      (simp only: followed_by_single append_Nil)
qed

text \<open>A word of the memory that only the process itself writes; printing leaves it alone.\<close>

definition keeps_word :: "'h splat \<Rightarrow> u32 \<Rightarrow> bool" where
  "keeps_word X w \<longleftrightarrow> (\<forall>n a b c t. cells (snd (SYSCALL X n a b c t)) w = cells t w)"

lemma syscall_keeps_word:
  fixes X :: "'h splat"
  assumes "keeps_word X w"
  shows "triple (\<lambda>s. cells s w = v) (syscall X n a b c) (\<lambda>_ s. cells s w = v) (\<lambda>_ _. True)"
proof (rule tripleI)
  fix s :: "'h ust" assume v: "cells s w = v"
  let ?t = "s\<lparr>calls := calls s @ [(n, a, b, c)]\<rparr>"
  have "cells (snd (SYSCALL X n a b c ?t)) w = v" using assms v by (simp add: keeps_word_def)
  then show "case syscall X n a b c s of Ret _ s' \<Rightarrow> cells s' w = v | Stop _ _ \<Rightarrow> True"
    by (cases "SYSCALL X n a b c ?t") (simp add: syscall_def split: option.split)
qed

lemma print_keeps_word:
  assumes "keeps_word X w"
  shows "triple (\<lambda>s. cells s w = v) (print X T msg) (\<lambda>_ s. cells s w = v) (\<lambda>_ _. True)"
proof -
  let ?P = "\<lambda>s. cells s w = v"
  have pv: "triple ?P (call X n a b c) (\<lambda>_. ?P) (\<lambda>_ _. True)" for n a b c
    unfolding call_def by (rule triple_kseq[OF syscall_keeps_word[OF assms]]) (simp add: triple_kreturn)
  have loop: "triple ?P (print_loop X T msg) (\<lambda>_. ?P) (\<lambda>_ _. True)" for msg
  proof (induction msg)
    case Nil
    then show ?case unfolding print_loop.simps v_sem_def by (rule pv)
  next
    case (Cons c cs)
    show ?case unfolding print_loop.simps
      by (rule triple_kbind[OF syscall_keeps_word[OF assms]], rule triple_if) (simp_all add: panic_def triple_kstop Cons.IH)
  qed
  show ?thesis unfolding print_def p_sem_def by (rule triple_kseq[OF pv loop])
qed

lemma p10_run:
  fixes X :: "'h splat" and s :: "'h ust"
  assumes env: "phase2_env X T R" and k: "knows_pid X T 1 ''p9pid''" and w: "keeps_word X (sym T ''p9pid'')"
  shows "\<exists>s'. p10 X T s = Stop Gone s' \<and>
    quiet T (calls s') = quiet T (calls s) @ [(GETPROCESSID, 1, 0, 0), (TERMPROCESS, var T ''p9pid'' s, 0, 0)]"
proof -
  let ?alive = "still_alive X T ''Error: p10 didn't die with its parent!''"
  obtain r0 s0 where s0: "print_line X T ''p10 starts'' s = Ret r0 s0" "quiet T (calls s0) = quiet T (calls s)"
    using print_line_does[OF env] by (auto simp: does_def)
  have p0: "var T ''p9pid'' s0 = var T ''p9pid'' s"
    using triple_Ret[OF print_keeps_word[OF w, of "var T ''p9pid'' s"] _ s0(1)[unfolded print_line_def]] by (simp add: var_def)
  have cb: "comes_back X (kernel_calls \<union> R)" using env by (simp add: phase2_env_def)
  obtain r s1 where s1: "syscall X GETPROCESSID 1 0 0 s0 = Ret r s1" "calls s1 = calls s0 @ [(GETPROCESSID, 1, 0, 0)]"
    "s1 = snd (SYSCALL X GETPROCESSID 1 0 0 (s0\<lparr>calls := calls s0 @ [(GETPROCESSID, 1, 0, 0)]\<rparr>))"
    "fst (SYSCALL X GETPROCESSID 1 0 0 (s0\<lparr>calls := calls s0 @ [(GETPROCESSID, 1, 0, 0)]\<rparr>)) = Some r"
    using syscall_comes_back[OF cb, of GETPROCESSID 1 0 0 s0] by auto
  have r: "r = var T ''p9pid'' s1" using k s1(3,4) by (simp add: knows_pid_def)
  have p1: "var T ''p9pid'' s1 = var T ''p9pid'' s" using w p0 by (simp add: s1(3) keeps_word_def var_def)
  obtain s' where s': "kseq (call X TERMPROCESS r 0 0) ?alive s1 = Stop Gone s'"
    "quiet T (calls s') = quiet T (calls s1) @ [(TERMPROCESS, r, 0, 0)]"
    using ends_term(1)[OF env, of r ?alive] by (auto simp: ends_def)
  have "p10 X T s = Stop Gone s'"
    unfolding p10_def kseq_Ret[where m = "print_line X T ''p10 starts''", OF s0(1)] kbind_Ret[where m = "syscall X GETPROCESSID 1 0 0", OF s1(1)]
    by (subst kseq_Ret[where a = "()" and s' = s1]) (simp_all add: kread_def kreturn_def r s'(1)[unfolded r])
  moreover have "quiet T (calls s') = quiet T (calls s) @ [(GETPROCESSID, 1, 0, 0), (TERMPROCESS, var T ''p9pid'' s, 0, 0)]"
    using s'(2) s1(2) s0(2) by (simp add: quiet_one on_terminal_def syscall_numbers r p1)
  ultimately show ?thesis by blast
qed

lemma does_tod [does_intros]: "does T (get_TOD X) {[]}"
  by (auto simp: does_def get_TOD_def split: prod.split)

lemma p2_times_does [does_intros]:
  assumes "phase2_env X T R"
  shows "does T (p2_times X T now1 c1 c2 now2) {[]}"
  unfolding p2_times_def Let_def
  by (rule does_kread does_if does_silent print_line_does[OF assms] does_kreturn)+

definition vp_calls :: "'h symbols \<Rightarrow> (int \<times> u32 \<times> u32 \<times> u32) list" where
  "vp_calls T = concat (map (\<lambda>i. [(VERHOGEN, word_at T ''s'' i, 0, 0), (PASSEREN, word_at T ''s'' i, 0, 0)]) [0..<MAXSEM + 1])"

lemma p2_run:
  assumes env: "phase2_env X T R" and k: "knows_pid X T 0 ''p2pid''"
  shows "ends T (p2 X T) Gone {[(PASSEREN, sym T ''sem_startp2'', 0, 0), (GETPROCESSID, 0, 0, 0)] @ vp_calls T @
    [(GETTIME, 0, 0, 0), (GETTIME, 0, 0, 0), (PASSEREN, sym T ''sem_endp2'', 0, 0), (TERMPROCESS, 0, 0, 0)]}"
proof -
  have "does T (each [0..<MAXSEM + 1] (\<lambda>i. kmodify (set_cell (word_at T ''s'' i) 0))) {concat (map (\<lambda>_. []) [0..<MAXSEM + 1])}"
    by (rule does_each) (rule does_set_cell)
  moreover have "concat (map (\<lambda>_ :: nat. [] :: (int \<times> u32 \<times> u32 \<times> u32) list) [0..<MAXSEM + 1]) = []" by simp
  ultimately have z: "does T (each [0..<MAXSEM + 1] (\<lambda>i. kmodify (set_cell (word_at T ''s'' i) 0))) {[]}" by (simp only:)
  have "does T (vp_pair X T i) {[(VERHOGEN, word_at T ''s'' i, 0, 0), (PASSEREN, word_at T ''s'' i, 0, 0)]}"
    if "i \<in> set [0..<MAXSEM + 1]" for i
  proof -
    have i: "i \<le> MAXSEM" using that by auto
    show ?thesis unfolding vp_pair_def
      by (rule does_eq, (rule does_kseq does_pv_at[OF env linkedD(2)[OF env i]] does_kread does_if print_line_does[OF env] does_kreturn)+) simp
  qed
  then have vp: "does T (each [0..<MAXSEM + 1] (vp_pair X T)) {vp_calls T}" unfolding vp_calls_def by (rule does_each)
  have t: "does T (kbind (get_TOD X) (\<lambda>now1. kbind (syscall X GETTIME 0 0 0) (\<lambda>cpu_t1. kbind (syscall X GETTIME 0 0 0) (\<lambda>cpu_t2.
      kbind (get_TOD X) (p2_times X T now1 cpu_t1 cpu_t2))))) {[(GETTIME, 0, 0, 0), (GETTIME, 0, 0, 0)]}"
    by (rule does_eq, (rule does_kbind does_tod does_plain(1)[OF env] p2_times_does[OF env] | simp)+)
  show ?thesis unfolding p2_def
    by (rule ends_eq, (rule ends_term(1)[OF env] ends_kseq does_named[OF env] sem_names print_line_does[OF env]
        does_check_pid[OF env k] z vp t does_set_var)+) simp
qed

text \<open>
  After a tick, which is when a wait for the clock comes back, the next one takes at least half an
  interval: the first wait of a delay may be short, the second is not.
\<close>

definition clock_ticks :: "'h splat \<Rightarrow> bool" where
  "clock_ticks X \<longleftrightarrow> (\<exists>just.
     (\<forall>a b c t. just (uhw (snd (SYSCALL X CLOCKWAIT a b c t)))) \<and> (\<forall>h. just h \<longrightarrow> just (snd (STCK X h))) \<and>
     (\<forall>h t. just h \<longrightarrow> uhw t = snd (STCK X h) \<longrightarrow>
        drop_bit 1 CLOCKINTERVAL \<le> fst (STCK X (uhw (snd (SYSCALL X CLOCKWAIT 0 0 0 t)))) - fst (STCK X h)))"

definition wait_round :: "'h splat \<Rightarrow> (u32 \<times> u32, 'h) um" where
  "wait_round X = kbind (get_TOD X) (\<lambda>t1. kseq (syscall X CLOCKWAIT 0 0 0) (kbind (get_TOD X) (\<lambda>t2. kreturn (t1, t2))))"

lemma wait_round_run:
  fixes X :: "'h splat" and s :: "'h ust"
  assumes env: "phase2_env X T R"
  shows "\<exists>t1 t2 u s'. wait_round X s = Ret (t1, t2) s' \<and> calls s' = calls s @ [(CLOCKWAIT, 0, 0, 0)] \<and>
    t1 = fst (STCK X (uhw s)) \<and> uhw u = snd (STCK X (uhw s)) \<and>
    t2 = fst (STCK X (uhw (snd (SYSCALL X CLOCKWAIT 0 0 0 u)))) \<and> uhw s' = snd (STCK X (uhw (snd (SYSCALL X CLOCKWAIT 0 0 0 u))))"
proof -
  let ?s1 = "s\<lparr>uhw := snd (STCK X (uhw s))\<rparr>" and ?u = "s\<lparr>uhw := snd (STCK X (uhw s)), calls := calls s @ [(CLOCKWAIT, 0, 0, 0)]\<rparr>"
  let ?s2 = "snd (SYSCALL X CLOCKWAIT 0 0 0 ?u)"
  have cb: "comes_back X (kernel_calls \<union> R)" using env by (simp add: phase2_env_def)
  obtain r where r: "syscall X CLOCKWAIT 0 0 0 ?s1 = Ret r ?s2" "calls ?s2 = calls s @ [(CLOCKWAIT, 0, 0, 0)]"
    using syscall_comes_back[OF cb, of CLOCKWAIT 0 0 0 ?s1] by auto
  have tod: "get_TOD X t = Ret (fst (STCK X (uhw t))) (t\<lparr>uhw := snd (STCK X (uhw t))\<rparr>)" for t :: "'h ust"
    by (simp add: get_TOD_def split: prod.split)
  have "wait_round X s = Ret (fst (STCK X (uhw s)), fst (STCK X (uhw ?s2))) (?s2\<lparr>uhw := snd (STCK X (uhw ?s2))\<rparr>)"
    by (simp add: wait_round_def kbind_def kseq_def tod r(1) kreturn_def)
  then show ?thesis using r(2)
    by (intro exI[of _ "fst (STCK X (uhw s))"] exI[of _ "fst (STCK X (uhw ?s2))"] exI[of _ ?u] exI[of _ "?s2\<lparr>uhw := snd (STCK X (uhw ?s2))\<rparr>"]) simp
qed

lemma delay_loop_step:
  "delay_loop X time1 time2 s =
     (if time2 - time1 < drop_bit 1 CLOCKINTERVAL
      then case wait_round X s of Stop w s' \<Rightarrow> Some (Stop w s') | Ret ts s' \<Rightarrow> delay_loop X (fst ts) (snd ts) s'
      else Some (Ret () s))"
  by (subst delay_loop.simps) (simp add: wait_round_def)

text \<open>A delay is one or two waits.\<close>

definition waits :: "(int \<times> u32 \<times> u32 \<times> u32) list set" where
  "waits = {[(CLOCKWAIT, 0, 0, 0)], [(CLOCKWAIT, 0, 0, 0), (CLOCKWAIT, 0, 0, 0)]}"

lemma followed_by_waits [simp]:
  "followed_by waits {ds} = {w @ ds |w. w \<in> waits}" "followed_by {c} {f w |w. w \<in> waits} = {c @ f w |w. w \<in> waits}"
  by (auto simp: followed_by_def)

lemma delay_does:
  fixes X :: "'h splat"
  assumes env: "phase2_env X T R" and clock: "clock_ticks X"
  shows "does T (delay X) waits"
  unfolding does_def
proof
  fix s :: "'h ust"
  let ?half = "drop_bit 1 CLOCKINTERVAL"
  obtain just where J: "\<forall>a b c t. just (uhw (snd (SYSCALL X CLOCKWAIT a b c t)))" "\<forall>h. just h \<longrightarrow> just (snd (STCK X h))"
    "\<forall>h t. just h \<longrightarrow> uhw t = snd (STCK X h) \<longrightarrow> ?half \<le> fst (STCK X (uhw (snd (SYSCALL X CLOCKWAIT 0 0 0 t)))) - fst (STCK X h)"
    using clock unfolding clock_ticks_def by blast
  have z: "0 < drop_bit (Suc 0) CLOCKINTERVAL" by (simp add: CLOCKINTERVAL_def)
  have q: "quiet T [(CLOCKWAIT, 0, 0, 0)] = [(CLOCKWAIT, 0, 0, 0)]" by (rule quiet_call(1)) (simp_all add: syscall_numbers)
  obtain t1 t2 u s1 where s1: "wait_round X s = Ret (t1, t2) s1" "calls s1 = calls s @ [(CLOCKWAIT, 0, 0, 0)]"
    "uhw s1 = snd (STCK X (uhw (snd (SYSCALL X CLOCKWAIT 0 0 0 u))))" using wait_round_run[OF env, of s] by blast
  have l0: "delay_loop X 0 0 s = delay_loop X t1 t2 s1" by (subst delay_loop_step) (simp add: z s1(1))
  show "\<exists>cs\<in>waits. \<exists>r s'. delay X s = Ret r s' \<and> quiet T (calls s') = quiet T (calls s) @ cs"
  proof (cases "t2 - t1 < ?half")
    case False
    then have "delay X s = Ret () s1" by (simp add: delay_def l0) (subst delay_loop_step, simp)
    then show ?thesis using s1(2) q by (intro bexI[of _ "[(CLOCKWAIT, 0, 0, 0)]"]) (simp_all add: waits_def)
  next
    case True
    obtain v1 v2 w s2 where s2: "wait_round X s1 = Ret (v1, v2) s2" "calls s2 = calls s1 @ [(CLOCKWAIT, 0, 0, 0)]"
      "v1 = fst (STCK X (uhw s1))" "uhw w = snd (STCK X (uhw s1))"
      "v2 = fst (STCK X (uhw (snd (SYSCALL X CLOCKWAIT 0 0 0 w))))" using wait_round_run[OF env, of s1] by blast
    have "just (uhw s1)" using J(1,2) s1(3) by simp
    from J(3)[rule_format, OF this s2(4)] have "\<not> v2 - v1 < ?half" by (simp only: s2(3,5) not_less)
    then have "delay_loop X v1 v2 s2 = Some (Ret () s2)" by (subst delay_loop_step) simp
    moreover have "delay_loop X t1 t2 s1 = delay_loop X v1 v2 s2" by (subst delay_loop_step) (use True s2(1) in simp)
    ultimately have "delay X s = Ret () s2" by (simp add: delay_def l0)
    moreover have "quiet T (calls s2) = quiet T (calls s) @ [(CLOCKWAIT, 0, 0, 0), (CLOCKWAIT, 0, 0, 0)]"
      unfolding s2(2) s1(2) quiet_calls q by simp
    ultimately show ?thesis by (intro bexI[of _ "[(CLOCKWAIT, 0, 0, 0), (CLOCKWAIT, 0, 0, 0)]"]) (simp_all add: waits_def)
  qed
qed

lemma p3_run:
  assumes env: "phase2_env X T R" and k: "knows_pid X T 0 ''p3pid''" and clock: "clock_ticks X"
  shows "ends T (p3 X T) Gone {w @ [(GETTIME, 0, 0, 0)] @ replicate CLOCKLOOP (CLOCKWAIT, 0, 0, 0) @
    [(GETTIME, 0, 0, 0), (GETPROCESSID, 0, 0, 0), (VERHOGEN, sym T ''sem_endp3'', 0, 0), (TERMPROCESS, 0, 0, 0)] |w. w \<in> waits}"
proof -
  have e: "does T (each [0..<CLOCKLOOP] (\<lambda>i. call X CLOCKWAIT 0 0 0)) {replicate CLOCKLOOP (CLOCKWAIT, 0, 0, 0)}"
    using does_each[where f = "\<lambda>_. [(CLOCKWAIT, 0, 0, 0)]" and body = "\<lambda>_. call X CLOCKWAIT 0 0 0" and js = "[0..<CLOCKLOOP]" and T = T]
      does_plain(2)[OF env, of CLOCKWAIT 0 0 0] by (simp add: concat_map_singleton map_replicate_const)
  have t: "does T (kbind (syscall X GETTIME 0 0 0) (\<lambda>cpu_t1.
           kseq (each [0..<CLOCKLOOP] (\<lambda>i. call X CLOCKWAIT 0 0 0))
          (kbind (syscall X GETTIME 0 0 0) (\<lambda>cpu_t2.
           kread (\<lambda>s. if sint (cpu_t2 - cpu_t1) < c_div MINCLOCKLOOP (time_scale s)
                       then print_line X T ''error: p3 - CPU time incorrectly maintained''
                       else print_line X T ''p3 - CPU time correctly maintained'')))))
      {[(GETTIME, 0, 0, 0)] @ replicate CLOCKLOOP (CLOCKWAIT, 0, 0, 0) @ [(GETTIME, 0, 0, 0)]}"
    by (rule does_eq, (rule does_kseq does_kbind does_plain(1)[OF env] e does_kread does_if print_line_does[OF env] insertI1)+) simp
  show ?thesis unfolding p3_def
    by (rule ends_eq, (rule ends_term(1)[OF env] ends_kseq delay_does[OF env clock] t does_named(2)[OF env] sem_names print_line_does[OF env]
        does_check_pid[OF env k])+) simp
qed

lemma p4_run:
  assumes env: "phase2_env X T R" and k: "knows_pid X T 0 ''p4pid''"
  shows "ends T (p4 X T) Gone {[(GETPROCESSID, 0, 0, 0), (VERHOGEN, sym T ''sem_synp4'', 0, 0), (PASSEREN, sym T ''sem_blkp4'', 0, 0),
    (PASSEREN, sym T ''sem_synp4'', 0, 0), (CREATEPROCESS, sym T ''p4state'', PROCESS_PRIO_LOW, 0),
    (PASSEREN, sym T ''sem_synp4'', 0, 0), (VERHOGEN, sym T ''sem_endp4'', 0, 0), (TERMPROCESS, 0, 0, 0)]}"
proof -
  have st: "does T (kmodify (\<lambda>s. let st = sup_states s (sym T ''p4state'')
      in s\<lparr>sup_states := (sup_states s)(sym T ''p4state'' := set_reg (reg_sp X) (gpr st (reg_sp X) - QPAGE) st)\<rparr>)) {[]}"
    by (rule does_kmodify) (simp add: Let_def)
  show ?thesis unfolding p4_def
    by (rule ends_eq, (rule ends_term(1)[OF env] ends_kseq does_kread does_if does_silent print_line_does[OF env] does_set_var does_kreturn
        does_check_pid[OF env k] does_named[OF env] sem_names st does_create(2)[OF env])+) simp
qed

lemma p5b_run:
  assumes env: "phase2_env X T {1}" and clock: "clock_ticks X"
  shows "ends T (p5b X T) Gone {[(1, 0, 0, 0), (PASSEREN, sym T ''sem_endp4'', 0, 0)] @ w @
    [(VERHOGEN, sym T ''sem_blkp4'', 0, 0), (VERHOGEN, sym T ''sem_endp5'', 0, 0), (TERMPROCESS, 0, 0, 0)] |w. w \<in> waits}"
proof -
  have one: "does T (call X 1 0 0 0) {[(1, 0, 0, 0)]}"
    by (rule does_eq[OF does_call[OF env]]) (simp_all add: quiet_one on_terminal_def syscall_numbers)
  show ?thesis unfolding p5b_def
    by (rule ends_eq, (rule ends_term(1)[OF env] ends_kseq one does_named[OF env] sem_names delay_does[OF env clock])+) simp
qed

lemma p5_run:
  fixes X :: "'h splat" and s :: "'h ust"
  assumes env: "phase2_env X T R" and w: "keeps_word X (sym T ''p5MemLocation'')" and bad: "traps T (var T ''p5MemLocation'' s)"
  shows "\<exists>s'. p5 X T s = Stop (Trapped (var T ''p5MemLocation'' s)) s'"
proof -
  let ?a = "var T ''p5MemLocation'' s"
  obtain r s1 where s1: "print_line X T ''p5 starts'' s = Ret r s1"
    using print_line_does[OF env] unfolding does_def by blast
  have "cells s1 (sym T ''p5MemLocation'') = ?a"
    using triple_Ret[OF print_keeps_word[OF w, of ?a] _ s1[unfolded print_line_def]] by (simp add: var_def)
  then have "kread (\<lambda>s. kseq (touch T (var T ''p5MemLocation'' s))
      (store T (var T ''p5MemLocation'' s) (cells s (var T ''p5MemLocation'' s) + 1))) s1 = Stop (Trapped ?a) s1"
    using bad by (simp add: kread_def var_def[of T _ s1] touch_def kseq_def kbind_def kstop_def)
  then show ?thesis unfolding p5_def kseq_Ret[where m = "print_line X T ''p5 starts''", OF s1] by blast
qed

lemma p5a_run: "traps T 0x80000000 \<Longrightarrow> ends T (p5a T) (Trapped 0x80000000) {[]}"
  by (simp add: ends_def p5a_def set_var_def store_def touch_def kseq_def kbind_def kstop_def kmodify_def kread_def var_def set_cell_def)

section \<open>The root process\<close>

lemma set_up_calls [simp]: "calls (set_up X T e s) = calls s" "uhw (set_up X T e s) = uhw s"
  by (simp_all add: set_up_def Let_def split: prod.split)

lemma p2_states_calls: "calls (p2_states X T s) = calls s"
proof -
  have f: "calls (fold (set_up X T) es s) = calls s" for es and s by (induction es arbitrary: s) simp_all
  show ?thesis by (simp add: p2_states_def Let_def f)
qed

definition p8_calls :: "'h symbols \<Rightarrow> (int \<times> u32 \<times> u32 \<times> u32) list" where
  "p8_calls T = [(CREATEPROCESS, sym T ''p8rootstate'', PROCESS_PRIO_LOW, NULL), (PASSEREN, sym T ''sem_endp8'', 0, 0)]"

definition root_calls :: "'h symbols \<Rightarrow> (int \<times> u32 \<times> u32 \<times> u32) list" where
  "root_calls T =
     [(VERHOGEN, sym T ''sem_testsem'', 0, 0),
      (CREATEPROCESS, sym T ''p2state'', PROCESS_PRIO_LOW, NULL),
      (VERHOGEN, sym T ''sem_startp2'', 0, 0), (VERHOGEN, sym T ''sem_endp2'', 0, 0),
      (CREATEPROCESS, sym T ''p3state'', PROCESS_PRIO_LOW, NULL), (PASSEREN, sym T ''sem_endp3'', 0, 0),
      (CREATEPROCESS, sym T ''hp_p1state'', PROCESS_PRIO_HIGH, NULL), (CREATEPROCESS, sym T ''hp_p2state'', PROCESS_PRIO_HIGH, NULL),
      (CREATEPROCESS, sym T ''p4state'', PROCESS_PRIO_LOW, NULL),
      (CREATEPROCESS, sym T ''p5state'', PROCESS_PRIO_LOW, sym T ''pFiveSupport''),
      (CREATEPROCESS, sym T ''p6state'', PROCESS_PRIO_LOW, NULL), (CREATEPROCESS, sym T ''p7state'', PROCESS_PRIO_LOW, NULL),
      (CREATEPROCESS, sym T ''p9state'', PROCESS_PRIO_LOW, NULL),
      (PASSEREN, sym T ''sem_endp5'', 0, 0), (PASSEREN, sym T ''sem_blkp4'', 0, 0)] @ concat (replicate 4 (p8_calls T))"

lemma p8_round_does:
  assumes env: "phase2_env X T R"
  shows "does T (p8_round X T i) {p8_calls T}"
proof -
  have z: "does T (each [0..<NOLEAVES] (\<lambda>j. kmodify (set_cell (word_at T ''sem_endcreate'' j) 0))) {[]}"
    by (rule does_eq[OF does_each[where f = "\<lambda>_. []"]]) (simp_all add: does_set_cell)
  show ?thesis unfolding p8_round_def p8_calls_def
    by (rule does_eq, (rule does_kseq does_set_var z does_create(2)[OF env] does_named(1)[OF env] sem_names)+) simp
qed

lemma test_proc_run:
  assumes env: "phase2_env X T R" and bad: "traps T BADADDR"
  shows "ends T (test_proc X T) (Trapped BADADDR) {root_calls T}"
proof -
  have p8: "does T (each [0..<4] (p8_round X T)) {concat (map (\<lambda>_. p8_calls T) [0..<4])}"
    by (rule does_each) (rule p8_round_does[OF env])
  have last_part: "ends T (p2_test_end X T) (Trapped BADADDR) {concat (replicate 4 (p8_calls T))}" unfolding p2_test_end_def
    by (rule ends_eq, (rule ends_trap[OF bad] ends_kseq p8 does_set_var print_line_does[OF env])+) (simp add: map_replicate_const)
  have cx: "does T (kmodify (p5_contexts T)) {[]}" by (rule does_kmodify) (simp add: p5_contexts_def Let_def upd_sup_def)
  have states: "does T (kmodify (p2_states X T)) {[]}" by (rule does_kmodify) (rule p2_states_calls)
  note rules = does_create[OF env] print_line_does[OF env] does_named[OF env] sem_names cx states
  have mid: "does T (p2_test_middle X T)
     {[(CREATEPROCESS, sym T ''p3state'', PROCESS_PRIO_LOW, NULL), (PASSEREN, sym T ''sem_endp3'', 0, 0),
      (CREATEPROCESS, sym T ''hp_p1state'', PROCESS_PRIO_HIGH, NULL), (CREATEPROCESS, sym T ''hp_p2state'', PROCESS_PRIO_HIGH, NULL),
      (CREATEPROCESS, sym T ''p4state'', PROCESS_PRIO_LOW, NULL),
      (CREATEPROCESS, sym T ''p5state'', PROCESS_PRIO_LOW, sym T ''pFiveSupport''),
      (CREATEPROCESS, sym T ''p6state'', PROCESS_PRIO_LOW, NULL), (CREATEPROCESS, sym T ''p7state'', PROCESS_PRIO_LOW, NULL),
      (CREATEPROCESS, sym T ''p9state'', PROCESS_PRIO_LOW, NULL),
      (PASSEREN, sym T ''sem_endp5'', 0, 0), (PASSEREN, sym T ''sem_blkp4'', 0, 0)]}" unfolding p2_test_middle_def
    by (rule does_eq, (rule does_kseq rules)+) simp
  show ?thesis unfolding test_proc_def root_calls_def
    by (rule ends_eq, (rule last_part ends_kseq rules mid does_kread does_if does_kreturn)+) simp
qed

end
