(* ===== verification/P2_Setup.thy ===== *)
theory P2_Setup
  imports P2_Run
begin

text \<open>
  What the root process of the phase 2 test lays out for the others, their states and stacks, and
  what the handlers of its fifth process resume that process with.
\<close>

section \<open>The states of the processes\<close>

lemma set_up_states:
  "sup_states (set_up X T (st, base, n, fn) s) =
     (let now = (sup_states s)(sym T st := STST T (uhw s))
      in now(sym T st := start_state X T (gpr (now (sym T base)) (reg_sp X) - of_nat n * QPAGE) (sym T fn) (STST T (uhw s))))"
  by (simp add: set_up_def Let_def)

lemma fold_set_up_hw: "uhw (fold (set_up X T) es s) = uhw s"
  by (induction es arbitrary: s) simp_all

lemma start_state_sel:
  assumes "reg_t9 X \<noteq> reg_sp X"
  shows "gpr (start_state X T stack fn st) (reg_sp X) = stack" "gpr (start_state X T stack fn st) (reg_t9 X) = fn"
    "pc_epc (start_state X T stack fn st) = fn" "status (start_state X T stack fn st) = status st OR IEPBITON OR CAUSEINTMASK OR TEBITON"
  using assms by (simp_all add: start_state_def Let_def set_reg_def)

text \<open>How many pages below the stack of the root process the stack of each process starts.\<close>

definition p2_pages :: "(string \<times> nat \<times> string) list" where
  "p2_pages =
     [(''hp_p1state'', 1, ''hp_p1''), (''hp_p2state'', 2, ''hp_p2''), (''p2state'', 3, ''p2''), (''p3state'', 4, ''p3''),
      (''p4state'', 5, ''p4''), (''p5state'', 7, ''p5''), (''p6state'', 9, ''p6''), (''p7state'', 10, ''p7''),
      (''p8rootstate'', 11, ''p8root''), (''child1state'', 12, ''child1''), (''child2state'', 13, ''child2''),
      (''gchild1state'', 14, ''p8leaf1''), (''gchild2state'', 15, ''p8leaf2''), (''gchild3state'', 16, ''p8leaf3''),
      (''gchild4state'', 17, ''p8leaf4''), (''p9state'', 18, ''p9''), (''p10state'', 19, ''p10'')]"

text \<open>The states as the kernel finds them.\<close>

definition placed :: "'h splat \<Rightarrow> 'h symbols \<Rightarrow> 'h ust \<Rightarrow> 'h ust \<Rightarrow> string \<times> nat \<times> string \<Rightarrow> bool" where
  "placed X T s s' e \<longleftrightarrow> (case e of (st, k, fn) \<Rightarrow> let q = sup_states s' (sym T st) in
     pc_epc q = sym T fn \<and> gpr q (reg_t9 X) = sym T fn \<and> gpr q (reg_sp X) = gpr (STST T (uhw s)) (reg_sp X) - of_nat k * QPAGE \<and>
     status q = status (STST T (uhw s)) OR IEPBITON OR CAUSEINTMASK OR TEBITON)"

text \<open>The number of pages, along the list of the states that are set up.\<close>

fun pages_below :: "(string \<times> nat \<times> string) list \<Rightarrow> string \<Rightarrow> nat" where
  "pages_below [] x = 0"
| "pages_below ((st, k, fn) # tab) x = (if x = st then k else pages_below tab x)"

definition page_table :: "(string \<times> string \<times> nat \<times> string) list \<Rightarrow> (string \<times> nat \<times> string) list" where
  "page_table es = fold (\<lambda>(st, base, n, fn) tab. (st, (if base = st then 0 else pages_below tab base) + n, fn) # tab) es []"

lemma page_table_simps [simp]:
  "page_table [] = []"
  "page_table (es @ [(st, base, n, fn)]) =
     (st, (if base = st then 0 else pages_below (page_table es) base) + n, fn) # page_table es"
  by (simp_all add: page_table_def)

lemma pages_below_mem: "x \<in> fst ` set tab \<Longrightarrow> \<exists>fn. (x, pages_below tab x, fn) \<in> set tab"
  by (induction tab x rule: pages_below.induct) auto

lemma page_table_names: "map fst (page_table es) = rev (map fst es)"
  by (induction es rule: rev_induct) auto

fun chained :: "string list \<Rightarrow> (string \<times> string \<times> nat \<times> string) list \<Rightarrow> bool" where
  "chained seen [] = True"
| "chained seen ((st, base, n, fn) # es) = ((base = st \<or> base \<in> set seen) \<and> chained (st # seen) es)"

lemma chained_snoc:
  "chained seen (es @ [(st, base, n, fn)]) \<longleftrightarrow> chained seen es \<and> (base = st \<or> base \<in> set seen \<union> fst ` set es)"
  by (induction seen es rule: chained.induct) auto

lemma set_up_placed:
  assumes d: "distinct (map (sym T \<circ> fst) es)" and c: "chained [] es" and r: "reg_t9 X \<noteq> reg_sp X"
  shows "\<forall>e\<in>set (page_table es). placed X T s (fold (set_up X T) es s) e"
  using d c
proof (induction es rule: rev_induct)
  case (snoc e es)
  obtain st base n fn where e: "e = (st, base, n, fn)" by (cases e) auto
  let ?s = "fold (set_up X T) es s"
  have names: "fst ` set (page_table es) = fst ` set es" by (metis page_table_names set_map set_rev)
  have fresh: "sym T st \<noteq> sym T x" if "x \<in> fst ` set es" for x using snoc.prems(1) that by (auto simp: e)
  have "distinct (map (sym T \<circ> fst) es)" "chained [] es"
    using snoc.prems by (simp_all only: map_append distinct_append e chained_snoc)
  note IH = bspec[OF snoc.IH[OF this]]
  have old: "placed X T s (fold (set_up X T) (es @ [e]) s) (x, k, f)" if x: "(x, k, f) \<in> set (page_table es)" for x k f
  proof -
    have "x \<in> fst ` set es" using x by (force simp flip: names)
    then have "sym T st \<noteq> sym T x" using fresh by auto
    then show ?thesis using IH[OF x] by (simp add: placed_def e set_up_states Let_def)
  qed
  let ?k = "(if base = st then 0 else pages_below (page_table es) base) + n"
  have "placed X T s (fold (set_up X T) (es @ [e]) s) (st, ?k, fn)"
  proof (cases "base = st")
    case True
    then show ?thesis by (simp add: placed_def e set_up_states Let_def start_state_sel[OF r] fold_set_up_hw)
  next
    case False
    then have m: "base \<in> fst ` set es" using snoc.prems(2) by (simp add: e chained_snoc)
    then obtain f where b: "(base, pages_below (page_table es) base, f) \<in> set (page_table es)" using pages_below_mem names by metis
    have "gpr (sup_states ?s (sym T base)) (reg_sp X) = gpr (STST T (uhw s)) (reg_sp X) - of_nat (pages_below (page_table es) base) * QPAGE"
      using IH[OF b] by (simp add: placed_def Let_def)
    moreover have "sym T base \<noteq> sym T st" using fresh[OF m] by auto
    ultimately show ?thesis using False
      by (simp add: placed_def e set_up_states Let_def start_state_sel[OF r] fold_set_up_hw distrib_right)
  qed
  with old show ?case by (auto simp: e)
qed simp

lemma fold_set_up_cong:
  "sup_states s = sup_states s' \<Longrightarrow> uhw s = uhw s' \<Longrightarrow>
   sup_states (fold (set_up X T) es s) = sup_states (fold (set_up X T) es s')"
proof (induction es arbitrary: s s')
  case (Cons e es)
  obtain st base n fn where e: "e = (st, base, n, fn)" by (cases e) auto
  have "sup_states (set_up X T e s) = sup_states (set_up X T e s')" using Cons.prems by (simp add: e set_up_states)
  moreover have "uhw (set_up X T e s) = uhw (set_up X T e s')" using Cons.prems by simp
  ultimately show ?case unfolding fold_simps by (rule Cons.IH)
qed simp

lemma p2_states_placed:
  assumes d: "distinct (map (\<lambda>e. sym T (fst e)) p2_pages)" and r: "reg_t9 X \<noteq> reg_sp X" and e: "e \<in> set p2_pages"
  shows "placed X T s (p2_states X T s) e"
proof -
  let ?es = "p2_first @ p2_others"
  have pages: "rev p2_pages = page_table ?es" by (simp add: p2_pages_def p2_first_def p2_others_def page_table_def)
  have "map (\<lambda>e. sym T (fst e)) (rev p2_pages) = map (sym T) (map fst (page_table ?es))" unfolding pages by simp
  also have "\<dots> = rev (map (sym T \<circ> fst) ?es)" by (simp only: page_table_names rev_map map_map)
  finally have names: "map (\<lambda>e. sym T (fst e)) (rev p2_pages) = rev (map (sym T \<circ> fst) ?es)" .
  have "distinct (rev (map (sym T \<circ> fst) ?es))" unfolding names[symmetric] rev_map[symmetric] distinct_rev by (rule d)
  then have d': "distinct (map (sym T \<circ> fst) ?es)" by (simp only: distinct_rev)
  have c: "chained [] ?es" by (simp add: p2_first_def p2_others_def)
  have "sup_states (p2_states X T s) = sup_states (fold (set_up X T) ?es s)"
    unfolding p2_states_def Let_def fold_append comp_apply by (rule fold_set_up_cong) (simp_all add: set_cell_def)
  moreover have "e \<in> set (page_table ?es)" using e by (simp flip: pages)
  then have "placed X T s (fold (set_up X T) ?es s) e" by (rule bspec[OF set_up_placed[OF d' c r]])
  ultimately show ?thesis by (simp add: placed_def split: prod.split)
qed

text \<open>The stacks start at different places.\<close>

lemma pages_apart:
  assumes "i < 20" and "j < 20" and "(t :: u32) - of_nat i * QPAGE = t - of_nat j * QPAGE"
  shows "i = j"
proof -
  have "unat (of_nat i * QPAGE) = unat (of_nat j * QPAGE)" using assms(3) by simp
  then show ?thesis using assms(1,2) by (simp add: QPAGE_def unat_word_ariths unat_of_nat)
qed

lemma p2_pages_apart: "inj_on (fst \<circ> snd) (set p2_pages)" "\<forall>e\<in>set p2_pages. fst (snd e) < 20"
  by (simp_all add: p2_pages_def)

lemma p2_stacks_apart:
  assumes d: "distinct (map (\<lambda>e. sym T (fst e)) p2_pages)" and r: "reg_t9 X \<noteq> reg_sp X"
  shows "inj_on (\<lambda>e. gpr (sup_states (p2_states X T s) (sym T (fst e))) (reg_sp X)) (set p2_pages)"
proof (rule inj_onI)
  fix e1 e2
  let ?sp = "\<lambda>e. gpr (sup_states (p2_states X T s) (sym T (fst e))) (reg_sp X)"
  assume e: "e1 \<in> set p2_pages" "e2 \<in> set p2_pages" and eq: "?sp e1 = ?sp e2"
  have sp: "?sp e = gpr (STST T (uhw s)) (reg_sp X) - of_nat (fst (snd e)) * QPAGE" if "e \<in> set p2_pages" for e
    using p2_states_placed[OF d r that, of s] by (simp add: placed_def Let_def split: prod.splits)
  have "fst (snd e1) = fst (snd e2)"
    by (rule pages_apart[OF _ _ eq[unfolded sp[OF e(1)] sp[OF e(2)]]]) (use p2_pages_apart(2) e in auto)
  then show "e1 = e2" using p2_pages_apart(1) e by (simp add: inj_on_def)
qed

section \<open>The handlers of the fifth process\<close>

text \<open>Printing comes back and leaves the support structure of the process alone.\<close>

lemma print_line_run:
  fixes X :: "'h splat" and s :: "'h ust"
  assumes env: "phase2_env X T R" and l: "leaves_sup X sa"
  shows "\<exists>r s'. print_line X T msg s = Ret r s' \<and> sups s' sa = sups s sa"
proof -
  have call: "plain sa q (call X n a b c)" for q n a b c
    unfolding call_def by (intro plain_intros plain_syscall l)
  have "plain sa q (print_loop X T m)" for q m
  proof (induction m)
    case (Cons c cs)
    show ?case unfolding print_loop.simps
      by (rule plain_kbind[OF plain_syscall[OF l]], rule triple_if) (simp_all add: panic_def triple_kstop Cons.IH)
  qed (simp only: print_loop.simps v_sem_def call)
  then have "plain sa (sups s sa) (print_line X T msg)"
    unfolding print_line_def print_def p_sem_def by (intro plain_kseq call)
  moreover obtain r s' where r: "print_line X T msg s = Ret r s'" using print_line_does[OF env] unfolding does_def by blast
  ultimately have "sups s' sa = sups s sa" using triple_Ret[where s = s] by fastforce
  then show ?thesis using r by blast
qed

text \<open>Where each cause of an exception sends the process.\<close>

definition after_trap :: "'h splat \<Rightarrow> 'h symbols \<Rightarrow> u32 \<Rightarrow> state_t \<Rightarrow> state_t" where
  "after_trap X T code st =
     (if code = BUSERROR then go_to X T ''p5a'' st
      else if code = RESVINSTR \<or> code = ADDRERROR then (go_to X T ''p5b'' st)\<lparr>status := status st AND KUPBITOFF\<rparr>
      else if code = SYSCALLEXCPT then st\<lparr>pc_epc := pc_epc st + 4\<rparr>
      else st)"

lemma upd_p5_run: "kseq (upd_p5 T kind f) (p5_load T kind) s =
    Stop (Resumed (f (p5_state T kind s))) (upd_sup (sym T ''pFiveSupport'') (\<lambda>q.
     q\<lparr>sup_exceptState := (sup_exceptState q)(kind := f (sup_exceptState q kind))\<rparr>) s)"
  by (simp add: upd_p5_def p5_load_def kseq_def kbind_def kmodify_def kread_def kstop_def p5_state_def upd_sup_def)

lemma p5_state_cong: "sups s' (sym T ''pFiveSupport'') = sups s (sym T ''pFiveSupport'') \<Longrightarrow> p5_state T k s' = p5_state T k s"
  by (simp add: p5_state_def)

text \<open>A handler that prints, changes the saved state, and goes on from it.\<close>

lemma say_and_resume:
  fixes X :: "'h splat" and s :: "'h ust"
  assumes env: "phase2_env X T R" and l: "leaves_sup X (sym T ''pFiveSupport'')"
  shows "\<exists>s'. kseq (kseq (print_line X T msg) (upd_p5 T k f)) (p5_load T k) s = Stop (Resumed (f (p5_state T k s))) s'"
    and "\<exists>s'. kseq (print_line X T msg) (p5_load T k) s = Stop (Resumed (p5_state T k s)) s'"
    and "\<exists>s'. kseq (print_line X T msg) (kseq (upd_p5 T k f) (p5_load T k)) s = Stop (Resumed (f (p5_state T k s))) s'"
proof -
  obtain r s1 where s1: "print_line X T msg s = Ret r s1" "sups s1 (sym T ''pFiveSupport'') = sups s (sym T ''pFiveSupport'')"
    using print_line_run[OF env l] by blast
  note run = kseq_Ret[where m = "print_line X T msg", OF s1(1)] and st = p5_state_cong[OF s1(2)]
  have assoc: "kseq (kseq a b) c = kseq a (kseq b c)" for a b c :: "(unit, 'h) um"
    by (rule ext) (simp add: kseq_def kbind_def split: out.split)
  show three: "\<exists>s'. kseq (print_line X T msg) (kseq (upd_p5 T k f) (p5_load T k)) s = Stop (Resumed (f (p5_state T k s))) s'"
    unfolding run upd_p5_run st by blast
  then show "\<exists>s'. kseq (kseq (print_line X T msg) (upd_p5 T k f)) (p5_load T k) s = Stop (Resumed (f (p5_state T k s))) s'"
    unfolding assoc .
  show "\<exists>s'. kseq (print_line X T msg) (p5_load T k) s = Stop (Resumed (p5_state T k s)) s'"
    unfolding run by (simp add: p5_load_def kread_def kstop_def st)
qed

lemma p5sys_run:
  fixes X :: "'h splat" and s :: "'h ust"
  assumes env: "phase2_env X T R" and l: "leaves_sup X (sym T ''pFiveSupport'')"
  shows "\<exists>s'. p5sys X T s = Stop (Resumed ((p5_state T GENERALEXCEPT s)\<lparr>pc_epc := pc_epc (p5_state T GENERALEXCEPT s) + 4\<rparr>)) s'"
proof -
  let ?f = "\<lambda>st. st\<lparr>pc_epc := pc_epc st + 4\<rparr>"
  have silent: "\<exists>s'. kseq (kreturn ()) (kseq (upd_p5 T GENERALEXCEPT ?f) (p5_load T GENERALEXCEPT)) s =
      Stop (Resumed (?f (p5_state T GENERALEXCEPT s))) s'"
    unfolding kseq_Ret[where m = "kreturn ()" and s = s, unfolded kreturn_def, OF refl] upd_p5_run kreturn_def by blast
  show ?thesis unfolding p5sys_def kread_def Let_def
    using say_and_resume(3)[OF env l, of _ GENERALEXCEPT ?f s] silent by (simp split: if_split)
qed

lemma p5gen_run:
  fixes X :: "'h splat" and s :: "'h ust"
  assumes env: "phase2_env X T R" and l: "leaves_sup X (sym T ''pFiveSupport'')"
  shows "\<exists>s'. p5gen X T s = Stop (Resumed (after_trap X T (drop_bit 2 (cause (p5_state T GENERALEXCEPT s) AND CAUSEMASK))
    (p5_state T GENERALEXCEPT s))) s'"
proof -
  let ?code = "drop_bit 2 (cause (p5_state T GENERALEXCEPT s) AND CAUSEMASK)"
  note say = say_and_resume(1)[OF env l, of _ GENERALEXCEPT "go_to X T ''p5a''" s]
    say_and_resume(1)[OF env l, of _ GENERALEXCEPT "\<lambda>st. (go_to X T ''p5b'' st)\<lparr>status := status st AND KUPBITOFF\<rparr>" s]
  consider "?code = BUSERROR" | "?code = RESVINSTR" "?code \<noteq> BUSERROR" | "?code = ADDRERROR" "?code \<noteq> BUSERROR" "?code \<noteq> RESVINSTR"
    | "?code = SYSCALLEXCPT" "?code \<noteq> BUSERROR" "?code \<noteq> RESVINSTR" "?code \<noteq> ADDRERROR"
    | "?code \<notin> {BUSERROR, RESVINSTR, ADDRERROR, SYSCALLEXCPT}" by blast
  then show ?thesis
  proof cases
    case 1
    then show ?thesis unfolding p5gen_def kread_def Let_def after_trap_def by (simp add: say)
  next
    case 2
    then show ?thesis unfolding p5gen_def kread_def Let_def after_trap_def by (simp add: say)
  next
    case 3
    then show ?thesis unfolding p5gen_def kread_def Let_def after_trap_def by (simp add: say)
  next
    case 4
    obtain s' where "p5sys X T s = Stop (Resumed ((p5_state T GENERALEXCEPT s)\<lparr>pc_epc := pc_epc (p5_state T GENERALEXCEPT s) + 4\<rparr>)) s'"
      using p5sys_run[OF env l] by blast
    with 4 show ?thesis unfolding p5gen_def kread_def Let_def after_trap_def by (simp add: kseq_def kbind_def)
  next
    case 5
    then show ?thesis unfolding p5gen_def kread_def Let_def after_trap_def
      by (simp add: say_and_resume(2)[OF env l, of _ GENERALEXCEPT s])
  qed
qed

lemma p5mm_run:
  fixes X :: "'h splat" and s :: "'h ust"
  assumes env: "phase2_env X T R" and l: "leaves_sup X (sym T ''pFiveSupport'')"
  shows "\<exists>s'. p5mm X T s = Stop (Resumed (go_to X T ''p5b''
    ((p5_state T PGFAULTEXCEPT s)\<lparr>status := status (p5_state T PGFAULTEXCEPT s) OR KUPBITON\<rparr>))) s'"
proof -
  let ?sup = "sym T ''pFiveSupport''"
  obtain r s1 where s1: "print_line X T ''memory management trap'' s = Ret r s1" "sups s1 ?sup = sups s ?sup"
    using print_line_run[OF env l] by blast
  have "comes_back X (kernel_calls \<union> R)" using env by (simp add: phase2_env_def)
  from syscall_comes_back[OF this, of GETSUPPORTPTR 0 0 0 s1] obtain q s2 where s2: "syscall X GETSUPPORTPTR 0 0 0 s1 = Ret q s2" by auto
  have s2': "sups s2 ?sup = sups s ?sup" using triple_Ret[OF plain_syscall[OF l] refl s2] s1(2) by simp
  note run = kseq_Ret[where m = "print_line X T ''memory management trap''", OF s1(1)]
    kbind_Ret[where m = "syscall X GETSUPPORTPTR 0 0 0", OF s2]
  note say = say_and_resume(3)[OF env l, of _ PGFAULTEXCEPT "\<lambda>st. go_to X T ''p5b'' (st\<lparr>status := status st OR KUPBITON\<rparr>)" s2,
    unfolded p5_state_cong[OF s2']]
  show ?thesis unfolding p5mm_def run by (cases "q = sym T ''pFiveSupport''") (simp_all only: simp_thms if_True if_False say)
qed

end
