(* ===== verification/P2_Spec.thy ===== *)
theory P2_Spec
  imports P2_Setup Support_Example
begin

text \<open>
  The properties of the phase 2 test: the entry points and stacks it gives its processes, what each
  of them asks the kernel for and how it ends, and where the handlers of \<open>p5\<close> resume it. The
  witnesses run on a kernel that serves every call at once.
\<close>

section \<open>A kernel and a symbol table for the witnesses\<close>

definition p2_names :: "string list" where
  "p2_names = p2_sems @ map fst p2_pages @ map (snd \<circ> snd) p2_pages @
     [''sem_term_mut'', ''s'', ''sem_endcreate'', ''p2pid'', ''p3pid'', ''p4pid'', ''p8pid'', ''p9pid'', ''p1p2synch'', ''p4inc'',
      ''p8inc'', ''p5Stack'', ''p5MemLocation'', ''pFiveSupport'', ''p5gen'', ''p5mm'', ''p5a'', ''p5b'']"

fun laid_out :: "string list \<Rightarrow> u32 \<Rightarrow> string \<Rightarrow> u32" where
  "laid_out [] a x = 0"
| "laid_out (n # ns) a x = (if n = x then a else laid_out ns (a + 0x100) x)"

definition p2_symbols :: "cpu3 symbols" where
  "p2_symbols = \<lparr>sym = laid_out p2_names 0x20008000, STST = (\<lambda>_. zero_state), traps = (\<lambda>a. a \<in> {0, 0x80000000, BADADDR})\<rparr>"

text \<open>
  The kernel as a process sees it that remembers its PID in \<open>own\<close> and the one of its parent in
  \<open>parent\<close>; the calls \<open>R\<close> are the ones it gets besides those of the kernel.
\<close>

definition p2_kernel :: "int set \<Rightarrow> string \<Rightarrow> string \<Rightarrow> cpu3 splat" where
  "p2_kernel R own parent = (umps_sup 5)\<lparr>SYSCALL := (\<lambda>n a b c t.
     (if n \<notin> kernel_calls \<union> R then None
      else Some (if n = DOIO then RECVD else if n = GETPROCESSID then var p2_symbols (if a = 0 then own else parent) t else 0),
      if n = CLOCKWAIT then t\<lparr>uhw := (case uhw t of (st, c, tod) \<Rightarrow> (st, c, tod + CLOCKINTERVAL))\<rparr> else t))\<rparr>"

lemma p2_kernel_sel [simp]:
  "SYSCALL (p2_kernel R own parent) n a b c t =
    (if n \<notin> kernel_calls \<union> R then None
      else Some (if n = DOIO then RECVD else if n = GETPROCESSID then var p2_symbols (if a = 0 then own else parent) t else 0),
      if n = CLOCKWAIT then t\<lparr>uhw := (case uhw t of (st, c, tod) \<Rightarrow> (st, c, tod + CLOCKINTERVAL))\<rparr> else t)"
  "STCK (p2_kernel R own parent) = STCK (umps_sup 5)" "reg_t9 (p2_kernel R own parent) = reg_t9 (umps_sup 5)"
  "reg_sp (p2_kernel R own parent) = reg_sp (umps_sup 5)"
  by (simp_all add: p2_kernel_def)

lemma laid_out_distinct:
  assumes "distinct ns" and "length ns \<le> 100"
  shows "inj_on (laid_out ns a) (set ns)"
proof -
  have ge: "x \<in> set ns \<Longrightarrow> \<exists>k<length ns. laid_out ns a x = a + 0x100 * of_nat k \<and> ns ! k = x" for x a ns
  proof (induction ns arbitrary: a)
    case (Cons n ns)
    show ?case
    proof (cases "n = x")
      case False
      then obtain k where "k < length ns" "laid_out ns (a + 0x100) x = a + 0x100 + 0x100 * of_nat k" "ns ! k = x"
        using Cons.IH[of "a + 0x100"] Cons.prems by auto
      then show ?thesis using False by (intro exI[of _ "Suc k"]) (simp add: algebra_simps)
    qed (auto intro: exI[of _ 0])
  qed simp
  show ?thesis
  proof (rule inj_onI)
    fix x y assume x: "x \<in> set ns" and y: "y \<in> set ns" and eq: "laid_out ns a x = laid_out ns a y"
    obtain i j where ij: "i < length ns" "laid_out ns a x = a + 0x100 * of_nat i" "ns ! i = x"
      "j < length ns" "laid_out ns a y = a + 0x100 * of_nat j" "ns ! j = y" using ge[OF x] ge[OF y] by blast
    then have "(0x100 * of_nat i :: u32) = 0x100 * of_nat j" using eq by simp
    then have "unat (0x100 * of_nat i :: u32) = unat (0x100 * of_nat j :: u32)" by simp
    then have "i = j" using ij(1,4) assms(2) by (simp add: unat_word_ariths unat_of_nat)
    then show "x = y" using ij by simp
  qed
qed

lemma p2_names_distinct: "distinct p2_names" "length p2_names \<le> 100"
  by (simp_all add: p2_names_def p2_sems_def p2_pages_def)

lemma p2_symbols_inj: "x \<in> set p2_names \<Longrightarrow> y \<in> set p2_names \<Longrightarrow> sym p2_symbols x = sym p2_symbols y \<longleftrightarrow> x = y"
  using laid_out_distinct[OF p2_names_distinct] by (auto simp: p2_symbols_def inj_on_def)

lemma p2_symbols_sel [simp]: "STST p2_symbols h = zero_state" "traps p2_symbols a \<longleftrightarrow> a \<in> {0, 0x80000000, BADADDR}"
  by (simp_all add: p2_symbols_def)

lemma p2_symbols_states: "distinct (map (\<lambda>e. sym p2_symbols (fst e)) p2_pages)"
proof -
  have "distinct (map fst p2_pages)" by (simp add: p2_pages_def)
  moreover have "fst e \<in> set p2_names" if "e \<in> set p2_pages" for e using that by (simp add: p2_names_def)
  ultimately show ?thesis by (simp add: distinct_map inj_on_def p2_symbols_inj)
qed






section \<open>Properties\<close>

text \<open>
  C28. The root process of the phase 2 test sets up the state of every process: it starts at its
  own function with interrupts and the timer on, its stack as many pages below the one of the root as the
  table of the processes says, and no two processes have the same stack.
\<close>

theorem phase2_states_placed:
  assumes "distinct (map (\<lambda>e. sym T (fst e)) p2_pages)" and "reg_t9 X \<noteq> reg_sp X"
  shows "(\<forall>(st, k, fn)\<in>set p2_pages. let q = sup_states (p2_states X T s) (sym T st) in
      pc_epc q = sym T fn \<and> gpr q (reg_t9 X) = sym T fn \<and>
      gpr q (reg_sp X) = gpr (STST T (uhw s)) (reg_sp X) - of_nat k * QPAGE \<and>
      status q = status (STST T (uhw s)) OR IEPBITON OR CAUSEINTMASK OR TEBITON) \<and>
    inj_on (\<lambda>(st, k, fn). gpr (sup_states (p2_states X T s) (sym T st)) (reg_sp X)) (set p2_pages)"
proof
  show "inj_on (\<lambda>(st, k, fn). gpr (sup_states (p2_states X T s) (sym T st)) (reg_sp X)) (set p2_pages)"
    using p2_stacks_apart[OF assms, of s] by (simp only: case_prod_beta')
qed (use p2_states_placed[OF assms, of _ s] in \<open>auto simp: placed_def Let_def\<close>)

theorem phase2_states_placed_witness:
  "let q = sup_states (p2_states (umps_sup 5) p2_symbols fresh) (sym p2_symbols ''p10state'') in
     pc_epc q = sym p2_symbols ''p10'' \<and> gpr q 25 = - 19 * 1024"
proof -
  have "(''p10state'', 19, ''p10'') \<in> set p2_pages" by (simp add: p2_pages_def)
  moreover have "reg_t9 (umps_sup 5) \<noteq> reg_sp (umps_sup 5)" by simp
  ultimately show ?thesis using phase2_states_placed[OF p2_symbols_states, of "umps_sup 5" fresh]
    by (fastforce simp: Let_def zero_state_def QPAGE_def)
qed



text \<open>What a process asks for.\<close>

abbreviation "P_on T x \<equiv> (PASSEREN, sym T x, 0, 0)"
abbreviation "V_on T x \<equiv> (VERHOGEN, sym T x, 0, 0)"
abbreviation "made T st q \<equiv> (CREATEPROCESS, sym T st, PROCESS_PRIO_LOW, q)"
abbreviation "asked n \<equiv> (n, 0, 0, 0)"






end
