(* ===== verification/Spec2Isabelle.thy ===== *)
theory Spec2Isabelle
  imports System_Spec Support_Spec Request_Spec Kernel_Spec P1_Asl_Run P2_Spec
begin

text \<open>
  ROCM is a kernel of the PandOS family for the uMPS3 machine (a MIPS with one processor), written
  in C under \<^verbatim>\<open>src/\<close>. This library models the C sources of the kernel, of the support level and of the
  test programs of both phases, and proves them against what they promise; where the code does
  something else, a property says what it does.

  The parts of the program. Interrupts, system calls and traps enter \<^verbatim>\<open>exception_handler\<close>
  (\<^verbatim>\<open>kernel.c\<close>), which dispatches to \<^verbatim>\<open>interrupts.c\<close>, \<^verbatim>\<open>syscalls.c\<close> or, through
  \<^verbatim>\<open>passup_or_die\<close>, to the support level of the process; it then enqueues, resumes or leaves
  the running process, and \<^verbatim>\<open>scheduler.c\<close> loads the next one. Processes live in the PCB pool,
  the two ready queues, the process tree and the semaphore queues of \<^verbatim>\<open>pcb.c\<close> and \<^verbatim>\<open>asl.c\<close>,
  all built from the intrusive lists of \<^verbatim>\<open>listx.h\<close>. Above the kernel, each user process runs
  \<^verbatim>\<open>support.c\<close>, \<^verbatim>\<open>sys_support.c\<close> and \<^verbatim>\<open>pager.c\<close> for its page faults and its positive system
  calls; \<^verbatim>\<open>init_proc.c\<close> starts the eight of them.

  Theories and sources, in the order of the imports.
    \<^item> \<^verbatim>\<open>Prelude\<close>, \<^verbatim>\<open>Triples\<close>: results of routines that may stop, their sequencing, triples over them.
    \<^item> \<^verbatim>\<open>Dispenser\<close>, \<^verbatim>\<open>Exclusion\<close>: the contracts of what hands things out in an order
      (\<^verbatim>\<open>dispenser\<close>, extended by \<^verbatim>\<open>fifo_queue\<close> and \<^verbatim>\<open>lifo_pool\<close>) and of a mutex
      (\<^verbatim>\<open>binary_semaphore\<close>). The first is interpreted on the process queues (\<^verbatim>\<open>pq\<close>), the PCB pool
      (\<^verbatim>\<open>pool\<close>) and the queues of the semaphores (\<^verbatim>\<open>sq\<close>), the second on P and V of the kernel (\<^verbatim>\<open>lock\<close>).
    \<^item> \<^verbatim>\<open>Listx\<close> (\<^verbatim>\<open>listx.h\<close>): a heap of list heads with two pointers each. The ghost map of
      \<^verbatim>\<open>lists_rep\<close> gives the lists it holds; the locale \<^verbatim>\<open>intrusive_lists\<close> states the contract of
      the list operations and is interpreted on the model's own.
    \<^item> \<^verbatim>\<open>Klog\<close> (\<^verbatim>\<open>klog.c\<close> and the loggers of \<^verbatim>\<open>utils.c\<close>), \<^verbatim>\<open>Utils\<close> (the rest of \<^verbatim>\<open>utils.c\<close>).
    \<^item> \<^verbatim>\<open>Machine\<close> (\<^verbatim>\<open>pandos_types.h\<close>, \<^verbatim>\<open>pandos_const.h\<close>): the record \<^verbatim>\<open>kst\<close> of every variable of
      the kernel, and the record \<^verbatim>\<open>plat\<close> of what is not in the repository.
    \<^item> \<^verbatim>\<open>Pcb\<close>, \<^verbatim>\<open>Asl\<close>, \<^verbatim>\<open>Scheduler\<close>, \<^verbatim>\<open>Syscalls\<close>, \<^verbatim>\<open>Interrupts\<close>, \<^verbatim>\<open>Kernel\<close>: one definition per C
      function, with the function's name. \<^verbatim>\<open>Kabs\<close> and \<^verbatim>\<open>Kmoves\<close> hold the abstract state, plain
      lists and a tree, and the moves of a process between its places.
    \<^item> \<^verbatim>\<open>Support\<close>, \<^verbatim>\<open>Pager\<close>, \<^verbatim>\<open>Sys_Support\<close>, \<^verbatim>\<open>Init_Proc\<close>: the support level over its own state
      \<^verbatim>\<open>ust\<close>, and \<^verbatim>\<open>Swap_Pool\<close>, the invariant of the swap pool.
    \<^item> \<^verbatim>\<open>Platform_Example\<close>, \<^verbatim>\<open>Request_Example\<close>, \<^verbatim>\<open>Support_Example\<close>: a concrete platform for the witnesses,
      and requests, interrupts and support calls on it.
    \<^item> \<^verbatim>\<open>P1_Test\<close> (\<^verbatim>\<open>old_test/p1test.c\<close>): the test program of phase 1, which drives \<^verbatim>\<open>pcb.c\<close> and \<^verbatim>\<open>asl.c\<close>;
      \<^verbatim>\<open>P1_Test_Run\<close> and \<^verbatim>\<open>P1_Asl_Run\<close> run it step by step.
    \<^item> \<^verbatim>\<open>P2_Test\<close> (\<^verbatim>\<open>old_test/p2test.c\<close>): the test program of phase 2, its root process, the seventeen it
      creates and the handlers of the fifth, as programs over the calls they make. \<^verbatim>\<open>P2_Run\<close> holds the
      rules that walk along such a program and what each process does, \<^verbatim>\<open>P2_Setup\<close> the states and stacks
      the root process lays out and the handlers, \<^verbatim>\<open>P2_Spec\<close> their properties.
    \<^item> \<^verbatim>\<open>Kernel_Runs\<close>, \<^verbatim>\<open>Kernel_Passes\<close>: whole passes through the kernel, from an exception to the state
      it loads, for every system call and every kind of interrupt.
    \<^item> \<^verbatim>\<open>Two_Levels\<close>: the hand-over from the kernel to a handler of the support level and back.
    \<^item> \<^verbatim>\<open>Kernel_Spec\<close>, \<^verbatim>\<open>Request_Spec\<close>, \<^verbatim>\<open>Support_Spec\<close>, \<^verbatim>\<open>System_Spec\<close> and this theory: the properties.

  What the lemmas show. Each list operation acts on the ghost map as on plain lists; each routine
  of \<^verbatim>\<open>pcb.c\<close> and \<^verbatim>\<open>asl.c\<close> carries the relation \<^verbatim>\<open>krep\<close> from one abstract state to the moved one;
  each operation of the scheduler and each system call keeps \<^verbatim>\<open>kinv\<close>, which adds the process
  counters, and does what its description says on every branch. \<^verbatim>\<open>handler_ok\<close> and \<^verbatim>\<open>kernel_ok\<close>
  compose them to the exception handler and to the machine: \<^verbatim>\<open>step\<close> interleaves exceptions with
  arbitrary changes a process or a device makes to memory, saved states and the processor, and
  \<^verbatim>\<open>reachable_machine_ok\<close> is the invariant of every reachable state. \<^verbatim>\<open>Kernel_Runs\<close> and
  \<^verbatim>\<open>Kernel_Passes\<close> say which process a pass gives the processor to and in which state. Four lemmas
  hold what the requests share: the caller goes on (\<^verbatim>\<open>continue_request\<close>), goes to the end of its ready
  queue (\<^verbatim>\<open>requeue_request\<close>), is blocked (\<^verbatim>\<open>block_request\<close>) or is left (\<^verbatim>\<open>leave_request\<close>); each system
  call has a pass over one of them, and each interrupt one over \<^verbatim>\<open>interrupt_continues\<close>, when a process
  was running, or \<^verbatim>\<open>interrupt_wakes\<close>, from the wait. \<^verbatim>\<open>slice_pass\<close>, repeated, is the round robin. For the support level, \<^verbatim>\<open>tlb_exc_handler_serves\<close> walks the page
  fault step by step under a rely condition. \<^verbatim>\<open>Two_Levels\<close> joins both: \<^verbatim>\<open>handed_up\<close> is what the kernel
  leaves to a handler, over the same memory, and \<^verbatim>\<open>support_answer\<close> shows that the handler's question
  for its support structure gets the right answer when the kernel of the model gives it; so the
  properties of \<^verbatim>\<open>System_Spec\<close> go from an exception of a user process to its resumption.

  Loops and termination. Loops over lists and counters are structural or have a measure. Killing a
  progeny and reading from the terminal may run for ever in C: they are \<^verbatim>\<open>partial_function\<close>s and
  a run without result is the stop \<^verbatim>\<open>Diverge\<close> or \<^verbatim>\<open>Endless\<close>; for the first the result is proved
  to exist. No fuel is used.

  What is assumed of the environment, each as a named predicate in the statements. \<^verbatim>\<open>boot_ok\<close>: the
  variables start at zero. \<^verbatim>\<open>layout_ok\<close>: the PCB table lies in memory. \<^verbatim>\<open>lines_ok\<close>: the numbers of
  the interrupt lines. \<^verbatim>\<open>request_ok\<close>: a process kills a live process or itself, does P and V on a
  semaphore that is not \<^verbatim>\<open>NULL\<close> and asks for I/O on a device that exists. \<^verbatim>\<open>irq_ok\<close>: when a process
  runs, no earlier completion of the interrupting device is unclaimed; one property shows what
  happens without it. \<^verbatim>\<open>refill_ok\<close>: a page the table has. \<^verbatim>\<open>kernel_rely\<close>: during a system call of a
  page fault the other processes keep the invariant of the pool, and do not touch it while this
  one holds its mutex, which is what mutual exclusion (C3) gives on the kernel's side.
  \<^verbatim>\<open>sys_request\<close>, \<^verbatim>\<open>passed_kind\<close>, \<^verbatim>\<open>slice_over\<close>: which exception is pending. \<^verbatim>\<open>polite\<close>,
  \<^verbatim>\<open>leaves_sup\<close>, \<^verbatim>\<open>starter_ok\<close>: which calls come back. For the test of phase 2, \<^verbatim>\<open>phase2_env\<close>: the
  calls of the kernel come back and those that end a process do not, the terminal prints, and the
  semaphores have addresses of their own; \<^verbatim>\<open>knows_pid\<close>: the kernel answers the PID the root process
  has stored; \<^verbatim>\<open>keeps_word\<close>: nobody else writes a word; \<^verbatim>\<open>clock_ticks\<close>: after a tick, a wait for
  the next one takes at least half an interval.

  The processor is a parameter: the types of its registers and the accessors of \<^verbatim>\<open>libumps\<close>. \<^verbatim>\<open>LDST\<close>,
  \<^verbatim>\<open>LDCXT\<close>, \<^verbatim>\<open>PANIC\<close> and \<^verbatim>\<open>HALT\<close> end a run of the kernel. \<^verbatim>\<open>WAIT\<close> ends it too; \<^verbatim>\<open>scheduler_next\<close> is
  run again when it returns.

  Not modelled. The umps3 headers, library and boot code are not in the repository. The user
  programs of \<^verbatim>\<open>src/test\<close>, which only print and compute above the support level, are left out. The
  processes of the phase 2 test run on a kernel that is a parameter: each is followed on its own,
  through the calls it makes; what the kernel does with such a call, whoever else runs, is in its own
  properties. At the support level the kernel is also a parameter: its first answer is the one of
  the kernel's model, but what other processes do during the calls that block is left to the
  contracts above. The contents of the TLB stay inside the processor state, so stale TLB entries are outside the swap pool invariant.
  Memory that overflows its objects (a PID one past the table, a device type one past its array,
  the stacks of the eighth process) is shown where it happens and not followed further.
\<close>

section \<open>The kernel as a whole\<close>

text \<open>
  C1. Whatever the processes and the devices do, as long as they make requests the kernel can
  serve, a kernel booted on a zeroed machine never leaves its program: it never follows a wild
  pointer, never loops for ever and never returns from its entry points. Whenever it gives the
  processor away, every PCB is in exactly one list, the semaphore queues, the process tree and
  the counters agree, and the running process is a live one in no queue.
\<close>

theorem kernel_invariant:
  assumes "reachable U s0 (c, s)" and "boot_ok s0" and "layout_ok U" and "lines_ok U"
  shows "c \<noteq> Crashed \<and> (c = Running \<longrightarrow> (\<exists>A a. running U a s A)) \<and> (c = Waiting \<longrightarrow> (\<exists>A. idle U s A))"
  using reachable_machine_ok[OF assms] by (cases c) (simp_all add: machine_ok_def)

theorem kernel_invariant_witness:
  "(\<exists>st s. kernel_exit (kernel_main umps power_on) = (Running, s) \<and> (\<exists>A a. running umps a s A))"
proof -
  obtain st s' where r: "kernel_main umps power_on = Stop (Ldst st) s'"
    by (rule kernel_main_run[OF power_on_boot umps_layout])
  then have "reachable umps power_on (Running, s')" using reachable.boot[of umps power_on] by simp
  then show ?thesis using kernel_invariant[OF _ power_on_boot umps_layout umps_lines] r by auto
qed





section \<open>Processes\<close>

text \<open>
  C8. Killing a process with its progeny ends, gives each of their PCBs back to the free pool,
  and takes their number off the count of processes.
\<close>

theorem kill_progeny_frees:
  assumes "kinv U s A" and "p \<in> set (a_alive A)"
  shows "\<exists>s' A'. kill_progeny p s = Some (Ret () s') \<and> kinv U s' A' \<and>
    set (a_free A') = set (a_free A) \<union> descendants s A p \<and>
    procs_count s' + of_nat (card (descendants s A p)) = procs_count s"
proof -
  obtain s' A' where r: "kill_progeny p s = Some (Ret () s')" "kinv U s' A'" "killed (descendants s A p) s A s' A'"
    using kill_progeny_kinv[OF assms] by blast
  have K: "krep U s A" "kcnt s A" "krep U s' A'" "kcnt s' A'" using assms(1) r(2) by (simp_all add: kinv_def)
  note wf = krepD(1)[OF K(1)] krepD(1)[OF K(3)] and sub = descendants_alive[OF krepD(5)[OF K(1)] assms(2)]
  have al: "set (a_alive A') = set (a_alive A) - descendants s A p" using r(3) by (simp add: killed_def)
  have free: "set (a_free A) = {..<MAXPROC} - set (a_alive A)" "set (a_free A') = {..<MAXPROC} - set (a_alive A')"
    using wf by (auto simp: pcbs_wf_def)
  have lt: "set (a_alive A) \<subseteq> {..<MAXPROC}" using wf(1) by (auto simp: pcbs_wf_def)
  have "card (set (a_alive A')) + card (descendants s A p) = card (set (a_alive A))"
    unfolding al using sub by (metis card_Diff_subset card_mono finite_set finite_subset le_add_diff_inverse2)
  then have "length (a_alive A') + card (descendants s A p) = length (a_alive A)"
    using pcbs_wf_lengths(1)[OF wf(1)] pcbs_wf_lengths(1)[OF wf(2)] by simp
  then have "procs_count s' + of_nat (card (descendants s A p)) = procs_count s"
    using K(2,4) unfolding kcnt_def by (metis of_nat_add)
  moreover have "set (a_free A') = set (a_free A) \<union> descendants s A p" using free al sub lt by auto
  ultimately show ?thesis using r by blast
qed

theorem kill_progeny_frees_witness:
  "\<exists>s' A'. kill_progeny 0 first_run = Some (Ret () s') \<and> kinv umps s' A' \<and> 0 \<in> set (a_free A')"
proof -
  have "kinv umps first_run main_abs" "0 \<in> set (a_alive main_abs)"
    using first_run(2) by (simp_all add: running_def a_alive_def main_abs_def)
  from kill_progeny_frees[OF this] obtain s' A' where "kill_progeny 0 first_run = Some (Ret () s')" "kinv umps s' A'"
    "set (a_free A') = set (a_free main_abs) \<union> descendants first_run main_abs 0" by blast
  then show ?thesis using descendants_self[of 0 first_run main_abs] by blast
qed

text \<open>
  C36. A PID identifies its process: the search finds each PCB of the table by its PID, and the test
  whether a process is alive, which compares PIDs along the free list, is right for all of them
  under the invariant. But the search also accepts the address one past the end of the table: it
  answers with a PCB that does not exist, which killing then follows out of the table.
\<close>

theorem search_by_pid_past_end:
  fixes U :: "'h plat"
  assumes k: "kinv U s A" and U: "layout_ok U"
  shows "(\<forall>p<MAXPROC. search_by_pid U (pcb_addr U p) = Some p \<and> is_alive p s = Ret (p \<in> set (a_alive A)) s) \<and>
    search_by_pid U (pcb_addr U MAXPROC) = Some MAXPROC \<and>
    (\<forall>t :: 'h kst. kill_parent_and_progeny (search_by_pid U (pcb_addr U MAXPROC)) t = Stop Wild t)"
  using is_alive_run[of U s A] search_by_pid_addr[OF U] k U by (simp add: kinv_def kill_parent_and_progeny_def)

theorem search_by_pid_past_end_witness:
  "is_alive 0 first_run = Ret True first_run \<and> is_alive 5 first_run = Ret False first_run \<and>
   search_by_pid umps (pcb_addr umps 5) = Some 5 \<and> search_by_pid umps (pcb_addr umps 20) = Some 20"
proof -
  have k: "kinv umps first_run main_abs" using first_run(2) by (simp add: running_def)
  have "0 \<in> set (a_alive main_abs)" "5 \<notin> set (a_alive main_abs)"
    by (simp_all add: a_alive_def main_abs_def a_blocked_def)
  then show ?thesis using search_by_pid_past_end[OF k umps_layout] by (simp add: MAXPROC_def)
qed

section \<open>Scheduling\<close>

text \<open>With nothing ready.\<close>

lemma scheduler_without_ready:
  assumes "kinv U s A" and "yielded_ok s A" and "a_hq A = []" and "a_lq A = []"
  shows "if a_alive A = [] then out_why (scheduler_next U s) = Halt
    else if a_blocked A = [] then out_why (scheduler_next U s) = Panic
    else out_why (scheduler_next U s) = Wait \<and> idle U (out_st (scheduler_next U s)) (a_requeue s A)"
proof -
  note i = scheduler_next_idle[OF assms]
  consider "a_alive A = []" | "a_alive A \<noteq> []" "a_blocked A = []" | "a_alive A \<noteq> []" "a_blocked A \<noteq> []" by blast
  then show ?thesis
  proof cases
    case 3
    then obtain s' where "scheduler_next U s = Stop Wait s'" "idle U s' (a_requeue s A)"
      using i(3) by (auto simp: idle_def)
    with 3 show ?thesis by simp
  qed (use i in simp_all)
qed

text \<open>
  C14. The next process to run is the one that has been ready longest among those of high
  priority and, without any, among those of low priority; it is loaded with its own state, and
  a process that has yielded is put back at the end of its queue only after that choice. With
  nothing ready the machine halts if no process is left, waits if some process is blocked, and
  panics (a deadlock) if processes are left but none is blocked.
\<close>

theorem scheduler_picks_first:
  assumes "kinv U s A" and "yielded_ok s A" and "layout_ok U"
  shows "case a_hq A @ a_lq A of
      p # ps \<Rightarrow> \<exists>s'. scheduler_next U s = Stop (Ldst (p_s (loaded_pcb U s (pcbs s p)))) s' \<and>
        running U p s' (a_requeue s (a_deq p A)) \<and> pcbs s' = (pcbs s)(p := loaded_pcb U s (pcbs s p)) \<and> mem s' = mem s
    | [] \<Rightarrow> if a_alive A = [] then out_why (scheduler_next U s) = Halt
        else if a_blocked A = [] then out_why (scheduler_next U s) = Panic
        else out_why (scheduler_next U s) = Wait \<and> idle U (out_st (scheduler_next U s)) (a_requeue s A)"
proof (cases "a_hq A @ a_lq A")
  case Nil
  then show ?thesis using scheduler_without_ready[OF assms(1,2)] by simp
next
  case (Cons p ps)
  show ?thesis unfolding Cons list.case by (rule scheduler_next_ready[OF assms Cons]) (auto simp: dispatched_def)
qed

theorem scheduler_picks_first_witness:
  "(\<exists>s' A'. scheduler_next umps (enqueue_proc 0 PROCESS_PRIO_LOW first_run) =
      Stop (Ldst (p_s (loaded_pcb umps (enqueue_proc 0 PROCESS_PRIO_LOW first_run) (pcbs first_run 0)))) s' \<and>
    running umps 0 s' A') \<and>
   out_why (scheduler_next umps (init_data_structures umps power_on)) = Halt"
proof
  let ?s = "enqueue_proc 0 PROCESS_PRIO_LOW first_run" and ?A = "a_enq PROCESS_PRIO_LOW 0 main_abs"
  have "kinv umps first_run main_abs" "0 \<in> set (a_det main_abs)" using first_run(2) by (simp_all add: running_def)
  then have k: "kinv umps ?s ?A" using enqueue_proc_kinv[of umps first_run main_abs 0] by (simp add: first_run(3))
  have "yielded_ok ?s ?A" using first_run(2) by (simp add: yielded_ok_def running_def)
  note picks = scheduler_picks_first[OF k this umps_layout]
  have "a_hq ?A @ a_lq ?A = [0]" by (simp add: main_abs_def)
  then show "\<exists>s' A'. scheduler_next umps ?s = Stop (Ldst (p_s (loaded_pcb umps ?s (pcbs first_run 0)))) s' \<and> running umps 0 s' A'"
    using picks by simp blast
next
  have i: "idle umps (init_data_structures umps power_on) boot_abs" by (rule init_data_structures_idle[OF power_on_boot])
  have "a_alive boot_abs = []" by (simp add: a_alive_def boot_abs_def a_blocked_def)
  then show "out_why (scheduler_next umps (init_data_structures umps power_on)) = Halt"
    using scheduler_picks_first[OF _ _ umps_layout, of "init_data_structures umps power_on" boot_abs] i
    by (simp add: idle_def yielded_ok_def boot_abs_def)
qed

section \<open>Exceptions passed up and refills\<close>

text \<open>
  The privileged-instruction mark that the handler puts in the saved cause of a process
  that makes a kernel request in user mode does not reach the support level: the state passed
  up is the one the machine saved, with its original cause.
\<close>

lemma privileged_mark_not_passed_up:
  assumes run: "running U a s A" and user: "drop_bit (STATUS_KUp_BIT U) (getSTATUS U (hw s) AND STATUS_KUp U) \<noteq> 0"
    and sa: "p_supportStruct (pcbs s a) = sa" "sa \<noteq> NULL"
  shows "\<exists>sp st pc s'. handle_sys U s = Stop (Ldcxt sp st pc) s' \<and>
    cause (p_s (pcbs s' a)) = (cause (p_s (pcbs s a)) AND CLEAREXECCODE) OR push_bit CAUSESHIFT PRIVINSTR \<and>
    sup_exceptState (supports s' sa) GENERALEXCEPT = states s BIOSDATAPAGE"
  using user sa runningD(3)[OF run]
  by (simp add: handle_sys_def Let_def kseq_def kbind_def kmodify_def passup_or_die_def kread_def kstop_def
      mark_privileged_def set_exceptState_def)

text \<open>
  A TLB refill puts the entry of the missing page, the stack page being the last one of
  the table, into the TLB and lets the process retry; the kernel's structures are not touched.
\<close>

lemma refill_loads_entry:
  assumes "running U a s A" and "refill_ok U s"
  shows "\<exists>s'. uTLB_RefillHandler U s = Stop (Ldst (states s BIOSDATAPAGE)) s' \<and> running U a s' A \<and>
    (let page = ENTRYHI_GET_VPN U (entry_hi (states s BIOSDATAPAGE));
         pte = sup_privatePgTbl (supports s (p_supportStruct (pcbs s a)))
                 (if page = STK_PG then 31 else unat page)
     in hw s' = TLBWR U (setENTRYLO U (pte_entryLO pte) (setENTRYHI U (pte_entryHI pte) (hw s))))"
proof -
  note R = runningD[OF assms(1)]
  have "running U a (upd_hw f (upd_hw g (upd_hw h s))) A" for f g h
    using assms(1) by (simp add: running_def upd_hw_kinv)
  then show ?thesis
    using assms(2) R(3) by (auto simp: uTLB_RefillHandler_def refill_ok_def Let_def USERPGTBLSIZE_def)
qed

section \<open>The kernel log\<close>

text \<open>
  C32. A number is logged as its sign and its decimal digits, least significant first, for every
  machine integer but the smallest, whose negation overflows and which is logged as a bracket.
\<close>

theorem kprint_int_digits:
  "(- (2 ^ 31) < n \<longrightarrow> n < 2 ^ 31 \<longrightarrow>
      kprint_int n k = kprint ((if n < 0 then ''-'' else []) @ rev (decimal (nat \<bar>n\<bar>))) k) \<and>
   kprint_int (- (2 ^ 31)) k = kprint ''-('' k"
proof (intro conjI impI)
  assume lo: "- (2 ^ 31) < n" and hi: "n < 2 ^ 31"
  show "kprint_int n k = kprint ((if n < 0 then ''-'' else []) @ rev (decimal (nat \<bar>n\<bar>))) k"
  proof (cases "n < 0")
    case True
    have "wrap_int x = x" if "0 < x" "x < 2 ^ 31" for x
      using that by (simp add: wrap_int_def sint_sbintrunc' signed_take_bit_int_eq_self)
    then have "wrap_int (- n) = int (nat (- n))" using lo True by simp
    then show ?thesis using True kprint_int_loop_decimal[of "nat (- n)"] by (simp add: kprint_int_def)
  next
    case False
    then show ?thesis using kprint_int_loop_decimal[of "nat n" k] by (simp add: kprint_int_def)
  qed
next
  have w: "wrap_int (2 ^ 31) = - (2 ^ 31)" by (simp add: wrap_int_def)
  have c: "(char_of (40 :: int) :: char) = CHR ''(''" by code_simp
  show "kprint_int (- (2 ^ 31)) k = kprint ''-('' k"
    using w by (simp add: kprint_int_def) (subst kprint_int_loop.simps, simp add: c_div_def c_mod_def c)
qed

theorem kprint_int_digits_witness: "\<forall>k. kprint_int (-120) k = kprint ''-021'' k"
proof
  fix k
  have "decimal 120 = ''120''" by code_simp
  then show "kprint_int (-120) k = kprint ''-021'' k" using kprint_int_digits[of "-120" k] by simp
qed

text \<open>
  C33. Whatever is logged, the cursor of the log stays inside its buffer.
\<close>

theorem log_stays_in_buffer:
  assumes "klog_wf k"
  shows "klog_wf (log_msg tag mex k) \<and> klog_wf (logi tag mex n k) \<and> klog_wf (logh tag mex w k)"
  using assms by (simp add: log_msg_def logi_def logh_def klog_wf_intros del: kprint.simps)

theorem log_stays_in_buffer_witness: "klog_wf (logi ''K'' ''ex'' (-7) (klogb power_on))"
proof -
  have "klog_wf (klogb power_on)" by (simp add: klog_wf_def power_on_def KLOG_LINES_def KLOG_LINE_SIZE_def)
  then show ?thesis using log_stays_in_buffer by blast
qed

section \<open>The test of phase 1\<close>

text \<open>
  C24. The phase 1 test program of the repository passes on the PCB and semaphore modules: from
  variables at zero, with a printer that only touches the terminal and twenty distinct semaphores,
  it returns 0 whatever its error routine does, so none of its checks fails. That covers the
  exhaustion of the pool and of the semaphore descriptors, a queue of ten processes from which the
  first and a middle one are taken out, a family of nine children, and twenty blocked processes
  that move to ten semaphores.
\<close>

theorem phase1_test_passes:
  assumes "quiet_print prt" and "sems_ok sem onesem" and "test_start s"
  shows "\<exists>s'. p1test U prt print_err sem onesem procp0 s = Ret 0 s'"
  using run_p1test[OF assms(1,2)] assms(3) by (auto simp: delivers_def)

theorem phase1_test_passes_witness:
  "\<exists>s'. p1test umps (\<lambda>_. kreturn ()) (\<lambda>_. kstop Panic) (\<lambda>i. 0x20002000 + 4 * of_nat i) 0x20002100 (\<lambda>_. None)
     (upd_lh (\<lambda>h. INIT_LIST_HEAD HQueue (INIT_LIST_HEAD LQueue h)) power_on) = Ret 0 s'"
proof (rule phase1_test_passes)
  show "quiet_print (\<lambda>_. kreturn () :: (unit, cpu3) km)"
    unfolding quiet_print_def kreturn_def
  proof (intro allI)
    fix msg :: string and s :: "cpu3 kst"
    show "\<exists>m h. Ret () s = Ret () (s\<lparr>mem := m, hw := h\<rparr>)" by (intro exI[of _ "mem s"] exI[of _ "hw s"]) simp
  qed
  have u: "unat (0x20002000 + 4 * of_nat i :: u32) = 0x20002000 + 4 * i" if "i < MAXPROC" for i
    using that by (simp add: unat_word_ariths unat_of_nat MAXPROC_def)
  show "sems_ok (\<lambda>i. 0x20002000 + 4 * of_nat i) 0x20002100"
    unfolding sems_ok_def
  proof (intro conjI allI impI inj_onI)
    fix i j assume ij: "i \<in> {..<MAXPROC}" "j \<in> {..<MAXPROC}" "0x20002000 + 4 * of_nat i = (0x20002000 + 4 * of_nat j :: u32)"
    have "unat (0x20002000 + 4 * of_nat i :: u32) = unat (0x20002000 + 4 * of_nat j :: u32)" by (simp only: ij(3))
    then have "0x20002000 + 4 * i = 0x20002000 + 4 * j" using ij(1,2) by (simp only: u lessThan_iff)
    then show "i = j" by simp
  next
    fix i assume i: "i < MAXPROC"
    have "unat (0x20002000 + 4 * of_nat i :: u32) \<noteq> unat NULL"
      unfolding u[OF i] using i by (simp add: NULL_def MAXPROC_def)
    then show "0x20002000 + 4 * of_nat i \<noteq> NULL" by metis
    have "unat (0x20002000 + 4 * of_nat i :: u32) \<noteq> unat (0x20002100 :: u32)"
      unfolding u[OF i] using i by (simp add: MAXPROC_def)
    then show "0x20002000 + 4 * of_nat i \<noteq> (0x20002100 :: u32)" by metis
  qed
  have "lists_rep (INIT_LIST_HEAD HQueue (INIT_LIST_HEAD LQueue (lh power_on))) (Map.empty(LQueue := Some [], HQueue := Some []))"
    by (intro lists_rep_init lists_rep_empty) (auto simp: unlinked_def)
  then show "test_start (upd_lh (\<lambda>h. INIT_LIST_HEAD HQueue (INIT_LIST_HEAD LQueue h)) power_on)"
    by (simp add: test_start_def power_on_def)
qed

end
